(* ===== verification/E2SAR_Prelude.thy ===== *)
theory E2SAR_Prelude
  imports Main "HOL-Library.Word" "HOL-Library.AList"
begin

unbundle bit_operations_syntax

text \<open>
  Shared vocabulary of the development: the machine integer types of the C++ sources, the memory
  image of a packed integer on a little or a big endian host, the \<open>htobe\<close>/\<open>betoh\<close> conversions of
  \<^verbatim>\<open>include/portable_endian.h\<close>, heap buffers whose cells may be uninitialised, and the generic
  lemmas on lists that several components use.
\<close>

section \<open>Collections of facts\<close>

named_theorems wire_simps \<open>memory images of packed headers\<close>
named_theorems buf_simps \<open>heap buffers and memcpy\<close>

section \<open>Machine integers\<close>

type_synonym u8 = "8 word"
type_synonym u16 = "16 word"
type_synonym u32 = "32 word"
type_synonym u64 = "64 word"

text \<open>C++ integer division and \<open>duration_cast\<close> truncate towards zero.\<close>

definition cpp_div :: "int \<Rightarrow> int \<Rightarrow> int" where
  "cpp_div a b = (if (a < 0) = (b < 0) then abs a div abs b else - (abs a div abs b))"

lemma cpp_div_nonneg: "0 \<le> a \<Longrightarrow> 0 < b \<Longrightarrow> cpp_div a b = a div b"
  by (simp add: cpp_div_def)

lemma cpp_div_nonpos: "a \<le> 0 \<Longrightarrow> 0 < b \<Longrightarrow> cpp_div a b \<le> 0"
  by (auto simp: cpp_div_def pos_imp_zdiv_nonneg_iff)

section \<open>Little endian images\<close>

fun le_bytes :: "nat \<Rightarrow> 'a::len word \<Rightarrow> u8 list" where
  "le_bytes 0 w = []"
| "le_bytes (Suc n) w = ucast w # le_bytes n (drop_bit 8 w)"

fun le_val :: "u8 list \<Rightarrow> 'a::len word" where
  "le_val [] = 0"
| "le_val (b # bs) = ucast b OR push_bit 8 (le_val bs)"

lemma length_le_bytes [simp]: "length (le_bytes n w) = n"
  by (induction n arbitrary: w) auto

lemma bit_le_val:
  "bit (le_val bs :: 'a::len word) k \<longleftrightarrow>
     k < LENGTH('a) \<and> k < 8 * length bs \<and> bit (bs ! (k div 8)) (k mod 8)"
proof (induction bs arbitrary: k)
  case Nil
  then show ?case by simp
next
  case (Cons b bs)
  show ?case
  proof (cases "k < 8")
    case True
    then show ?thesis
      by (auto simp: bit_or_iff bit_push_bit_iff bit_ucast_iff bit_imp_le_length)
  next
    case False
    then obtain j where k: "k = j + 8" by (metis add.commute le_Suc_ex not_less)
    have nb: "\<not> bit b k" using False by (auto dest: bit_imp_le_length)
    show ?thesis using Cons.IH[of j] nb
      by (auto simp: k bit_or_iff bit_push_bit_iff bit_ucast_iff div_add_self2)
  qed
qed

lemma bit_le_bytes:
  "i < n \<Longrightarrow> bit (le_bytes n w ! i) j \<longleftrightarrow> j < 8 \<and> bit w (8 * i + j)"
proof (induction n arbitrary: w i)
  case 0
  then show ?case by simp
next
  case (Suc n)
  then show ?case
    by (cases i) (auto simp: bit_ucast_iff bit_drop_bit_eq add.assoc)
qed

lemma le_val_le_bytes: "LENGTH('a) \<le> 8 * n \<Longrightarrow> le_val (le_bytes n w) = (w :: 'a::len word)"
proof (rule bit_word_eqI)
  fix k assume n: "LENGTH('a) \<le> 8 * n" and k: "k < LENGTH('a)"
  then have "k div 8 < n" by linarith
  then show "bit (le_val (le_bytes n w) :: 'a word) k = bit w k"
    using k n by (simp add: bit_le_val bit_le_bytes)
qed

lemma le_bytes_le_val:
  "length bs = n \<Longrightarrow> 8 * n \<le> LENGTH('a) \<Longrightarrow> le_bytes n (le_val bs :: 'a::len word) = bs"
proof (rule nth_equalityI)
  fix i assume n: "length bs = n" "8 * n \<le> LENGTH('a)"
    and "i < length (le_bytes n (le_val bs :: 'a word))"
  then have i: "i < n" by simp
  show "le_bytes n (le_val bs :: 'a word) ! i = bs ! i"
  proof (rule bit_word_eqI)
    fix j assume "j < LENGTH(8)"
    then have j: "j < 8" by simp
    have "8 * i + j < 8 * n" using i j by linarith
    then show "bit (le_bytes n (le_val bs :: 'a word) ! i) j = bit (bs ! i) j"
      using n i j by (simp add: bit_le_bytes bit_le_val)
  qed
qed simp

section \<open>Host byte order\<close>

text \<open>
  \<^verbatim>\<open>portable_endian.h\<close> selects, per platform, either a byte swap (little endian hosts) or the
  identity (big endian hosts) for \<open>htobe16/32/64\<close> and \<open>be16/32/64toh\<close>.  The byte order is a
  parameter of every header operation; \<open>mem_bytes\<close> is the memory image of an \<open>n\<close>-byte integer on
  that host and \<open>mem_val\<close> the integer read back from memory.
\<close>

datatype byte_order = LittleEndian | BigEndian

definition mem_bytes :: "byte_order \<Rightarrow> nat \<Rightarrow> 'a::len word \<Rightarrow> u8 list" where
  "mem_bytes h n w = (case h of LittleEndian \<Rightarrow> le_bytes n w | BigEndian \<Rightarrow> rev (le_bytes n w))"

definition mem_val :: "byte_order \<Rightarrow> u8 list \<Rightarrow> 'a::len word" where
  "mem_val h bs = (case h of LittleEndian \<Rightarrow> le_val bs | BigEndian \<Rightarrow> le_val (rev bs))"

definition bswap :: "nat \<Rightarrow> 'a::len word \<Rightarrow> 'a word" where
  "bswap n w = le_val (rev (le_bytes n w))"

definition htobe :: "byte_order \<Rightarrow> nat \<Rightarrow> 'a::len word \<Rightarrow> 'a word" where
  "htobe h n w = (case h of LittleEndian \<Rightarrow> bswap n w | BigEndian \<Rightarrow> w)"

definition betoh :: "byte_order \<Rightarrow> nat \<Rightarrow> 'a::len word \<Rightarrow> 'a word" where
  "betoh h n w = (case h of LittleEndian \<Rightarrow> bswap n w | BigEndian \<Rightarrow> w)"

text \<open>The network (big endian) image of a value, whatever the host.\<close>

definition be_bytes :: "nat \<Rightarrow> 'a::len word \<Rightarrow> u8 list" where
  "be_bytes n w = rev (le_bytes n w)"

lemma length_mem_bytes [simp]: "length (mem_bytes h n w) = n"
  by (cases h) (simp_all add: mem_bytes_def)

lemma length_be_bytes [simp]: "length (be_bytes n w) = n"
  by (simp add: be_bytes_def)

lemma mem_val_mem_bytes: "LENGTH('a) \<le> 8 * n \<Longrightarrow> mem_val h (mem_bytes h n w) = (w :: 'a::len word)"
  by (cases h) (simp_all add: mem_val_def mem_bytes_def le_val_le_bytes)

lemma mem_bytes_mem_val:
  "length bs = n \<Longrightarrow> 8 * n \<le> LENGTH('a) \<Longrightarrow> mem_bytes h n (mem_val h bs :: 'a::len word) = bs"
  by (cases h) (simp_all add: mem_val_def mem_bytes_def le_bytes_le_val)

lemma bswap_bswap: "LENGTH('a) = 8 * n \<Longrightarrow> bswap n (bswap n w) = (w :: 'a::len word)"
  by (simp add: bswap_def le_bytes_le_val le_val_le_bytes)

lemma betoh_htobe: "LENGTH('a) = 8 * n \<Longrightarrow> betoh h n (htobe h n w) = (w :: 'a::len word)"
  by (cases h) (simp_all add: betoh_def htobe_def bswap_bswap)

lemma mem_bytes_htobe:
  "LENGTH('a) = 8 * n \<Longrightarrow> mem_bytes h n (htobe h n w) = be_bytes n (w :: 'a::len word)"
  by (cases h) (simp_all add: mem_bytes_def htobe_def be_bytes_def bswap_def le_bytes_le_val)

lemma betoh_mem_val_be_bytes:
  "LENGTH('a) = 8 * n \<Longrightarrow> betoh h n (mem_val h (be_bytes n w)) = (w :: 'a::len word)"
  by (metis betoh_htobe mem_bytes_htobe mem_val_mem_bytes order_refl)

abbreviation htobe16 :: "byte_order \<Rightarrow> u16 \<Rightarrow> u16" where "htobe16 h \<equiv> htobe h 2"
abbreviation htobe32 :: "byte_order \<Rightarrow> u32 \<Rightarrow> u32" where "htobe32 h \<equiv> htobe h 4"
abbreviation htobe64 :: "byte_order \<Rightarrow> u64 \<Rightarrow> u64" where "htobe64 h \<equiv> htobe h 8"
abbreviation be16toh :: "byte_order \<Rightarrow> u16 \<Rightarrow> u16" where "be16toh h \<equiv> betoh h 2"
abbreviation be32toh :: "byte_order \<Rightarrow> u32 \<Rightarrow> u32" where "be32toh h \<equiv> betoh h 4"
abbreviation be64toh :: "byte_order \<Rightarrow> u64 \<Rightarrow> u64" where "be64toh h \<equiv> betoh h 8"

lemmas byte_order_simps [wire_simps] =
  betoh_htobe mem_bytes_htobe betoh_mem_val_be_bytes mem_val_mem_bytes mem_bytes_mem_val

text \<open>Reading a field of a packed structure: \<open>n\<close> bytes from byte \<open>off\<close>.\<close>

definition slice_at :: "nat \<Rightarrow> nat \<Rightarrow> 'x list \<Rightarrow> 'x list" where
  "slice_at off n bs = take n (drop off bs)"

lemma slice_at_take: "off + n \<le> k \<Longrightarrow> slice_at off n (take k bs) = slice_at off n bs"
  by (simp add: slice_at_def drop_take min_def)

lemma length_slice_at: "off + n \<le> length bs \<Longrightarrow> length (slice_at off n bs) = n"
  by (simp add: slice_at_def)

lemma slice_at_prefix: "length xs = n \<Longrightarrow> slice_at 0 n (xs @ ys) = xs"
  by (simp add: slice_at_def)

lemma slice_at_skip: "length xs \<le> off \<Longrightarrow> slice_at off n (xs @ ys) = slice_at (off - length xs) n ys"
  by (simp add: slice_at_def)

lemma slice_at_Cons: "0 < off \<Longrightarrow> slice_at off n (x # ys) = slice_at (off - 1) n ys"
  by (cases off) (simp_all add: slice_at_def)

lemmas slice_simps [wire_simps] = slice_at_prefix slice_at_skip slice_at_Cons

section \<open>Heap buffers\<close>

text \<open>
  \<open>new u_int8_t[n]\<close> gives \<open>n\<close> cells with indeterminate content: a buffer is a list of optional
  bytes, \<open>None\<close> for a cell that was never written.  \<open>memcpy\<close> to an offset is defined only when the
  written range lies inside the buffer; outside it the C++ program corrupts the heap, which the
  model reports as \<open>None\<close>.
\<close>

type_synonym buffer = "u8 option list"

definition new_buffer :: "nat \<Rightarrow> buffer" where
  "new_buffer n = replicate n None"

definition buf_write :: "nat \<Rightarrow> u8 list \<Rightarrow> buffer \<Rightarrow> buffer" where
  "buf_write off src dst = take off dst @ map Some src @ drop (off + length src) dst"

definition memcpy_at :: "nat \<Rightarrow> u8 list \<Rightarrow> buffer \<Rightarrow> buffer option" where
  "memcpy_at off src dst =
     (if off + length src \<le> length dst then Some (buf_write off src dst) else None)"

lemma length_new_buffer [simp]: "length (new_buffer n) = n"
  by (simp add: new_buffer_def)

lemma length_buf_write [simp]: "off + length src \<le> length dst \<Longrightarrow> length (buf_write off src dst) = length dst"
  by (simp add: buf_write_def)

lemma nth_buf_write [buf_simps]:
  assumes "off + length src \<le> length dst" and "i < length dst"
  shows "buf_write off src dst ! i =
    (if off \<le> i \<and> i < off + length src then Some (src ! (i - off)) else dst ! i)"
  using assms by (auto simp: buf_write_def nth_append)

lemma memcpy_at_Some [buf_simps]:
  "memcpy_at off src dst = Some b \<longleftrightarrow> off + length src \<le> length dst \<and> b = buf_write off src dst"
  by (auto simp: memcpy_at_def)

section \<open>Generic list facts\<close>

lemma upt_step: "a < b \<Longrightarrow> [a..<b] = a # [Suc a..<b]"
  by (simp add: upt_conv_Cons)

lemma slice_concat:
  "a \<le> b \<Longrightarrow> b \<le> length xs \<Longrightarrow> slice_at a (b - a) xs @ drop b xs = drop a xs"
  by (metis append_take_drop_id drop_drop le_add_diff_inverse2 slice_at_def)

lemma map_of_update_key: "map_of (AList.update k v xs) k = Some v"
  by (simp add: update_conv)

lemma distinct_fst_filter: "distinct (map fst xs) \<Longrightarrow> distinct (map fst (filter P xs))"
  by (simp add: distinct_map_filter)

section \<open>Numbers that fit a word\<close>

lemma unat_u32: "n < 2 ^ 32 \<Longrightarrow> unat (word_of_nat n :: u32) = n"
  by (simp add: unat_of_nat)

lemma unat_u64: "n < 2 ^ 64 \<Longrightarrow> unat (word_of_nat n :: u64) = n"
  by (simp add: unat_of_nat)

text \<open>A number kept in 32 bits is the number in 64 bits exactly when it fits.\<close>

lemma ucast_u32_eq_u64:
  assumes "n < 2 ^ 64"
  shows "(ucast (word_of_nat n :: u32) :: u64) = word_of_nat n \<longleftrightarrow> n < 2 ^ 32"
proof -
  have "unat (ucast (word_of_nat n :: u32) :: u64) = n mod 2 ^ 32"
    by (simp add: unsigned_ucast_eq take_bit_eq_mod unat_of_nat)
  moreover have "unat (word_of_nat n :: u64) = n" using assms by (rule unat_u64)
  moreover have "n mod 2 ^ 32 = n \<longleftrightarrow> n < (2 :: nat) ^ 32" by (metis mod_less mod_less_divisor zero_less_numeral zero_less_power)
  ultimately show ?thesis unfolding word_unat_eq_iff by (simp only:)
qed

end
