(* ===== verification/E2SAR_Headers.thy ===== *)
theory E2SAR_Headers
  imports E2SAR_Prelude
begin

text \<open>
  \<^verbatim>\<open>include/e2sarHeaders.hpp\<close>: the packed wire headers.  Each header is a record of the values the
  struct stores (multi-byte fields hold what \<open>htobe\<close> returned on the host), its \<open>set\<close> and \<open>get\<close>
  methods convert with the host byte order, \<open>.._bytes\<close> is the packed memory image that is sent and
  \<open>.._cast\<close> the \<^verbatim>\<open>reinterpret_cast\<close> of received memory.  The locale \<open>wire_header\<close> states the
  contract all four headers share and proves the framing lemmas once.
\<close>

section \<open>The contract of a packed header\<close>

locale wire_header =
  fixes to_bytes :: "'h \<Rightarrow> u8 list"
    and cast :: "u8 list \<Rightarrow> 'h"
    and size_of :: nat
  assumes to_bytes_length: "length (to_bytes h) = size_of"
    and cast_to_bytes: "cast (to_bytes h) = h"
    and to_bytes_cast: "length bs = size_of \<Longrightarrow> to_bytes (cast bs) = bs"
    and cast_local: "cast (take size_of bs) = cast bs"
begin

lemma cast_frame: "cast (to_bytes h @ payload) = h"
  by (metis append_eq_conv_conj cast_local cast_to_bytes to_bytes_length)

lemma frame_payload: "drop size_of (to_bytes h @ payload) = payload"
  by (simp add: to_bytes_length)

lemma frame_inj:
  "to_bytes a @ p = to_bytes b @ q \<longleftrightarrow> a = b \<and> p = q"
  by (metis cast_to_bytes append_eq_append_conv to_bytes_length)

lemma frame_split:
  "size_of \<le> length bs \<Longrightarrow> to_bytes (cast bs) @ drop size_of bs = bs"
  by (metis append_take_drop_id cast_local length_take min.absorb2 to_bytes_cast)

end

section \<open>The reassembly header\<close>

definition rehdrVersion :: u8 where
  "rehdrVersion = 1"

definition rehdrVersionNibble :: u8 where
  "rehdrVersionNibble = push_bit 4 rehdrVersion"

record REHdr =
  re_preamble0 :: u8
  re_preamble1 :: u8
  re_dataId :: u16
  re_bufferOffset :: u32
  re_bufferLength :: u32
  re_eventNum :: u64

definition REHdr_new :: REHdr where
  "REHdr_new = \<lparr>re_preamble0 = rehdrVersionNibble, re_preamble1 = 0, re_dataId = 0,
     re_bufferOffset = 0, re_bufferLength = 0, re_eventNum = 0\<rparr>"

definition re_set :: "byte_order \<Rightarrow> u16 \<Rightarrow> u32 \<Rightarrow> u32 \<Rightarrow> u64 \<Rightarrow> REHdr \<Rightarrow> REHdr" where
  "re_set h data_id buff_off buff_len event_num hdr =
     hdr\<lparr>re_dataId := htobe16 h data_id, re_bufferOffset := htobe32 h buff_off,
         re_bufferLength := htobe32 h buff_len, re_eventNum := htobe64 h event_num\<rparr>"

definition re_get_eventNum :: "byte_order \<Rightarrow> REHdr \<Rightarrow> u64" where
  "re_get_eventNum h hdr = be64toh h (re_eventNum hdr)"

definition re_get_bufferLength :: "byte_order \<Rightarrow> REHdr \<Rightarrow> u32" where
  "re_get_bufferLength h hdr = be32toh h (re_bufferLength hdr)"

definition re_get_bufferOffset :: "byte_order \<Rightarrow> REHdr \<Rightarrow> u32" where
  "re_get_bufferOffset h hdr = be32toh h (re_bufferOffset hdr)"

definition re_get_dataId :: "byte_order \<Rightarrow> REHdr \<Rightarrow> u16" where
  "re_get_dataId h hdr = be16toh h (re_dataId hdr)"

definition re_get_Fields :: "byte_order \<Rightarrow> REHdr \<Rightarrow> u16 \<times> u32 \<times> u32 \<times> u64" where
  "re_get_Fields h hdr =
     (re_get_dataId h hdr, re_get_bufferOffset h hdr, re_get_bufferLength h hdr, re_get_eventNum h hdr)"

definition re_get_HeaderVersion :: "REHdr \<Rightarrow> u8" where
  "re_get_HeaderVersion hdr = drop_bit 4 (re_preamble0 hdr)"

definition re_validate :: "REHdr \<Rightarrow> bool" where
  "re_validate hdr \<longleftrightarrow> re_preamble0 hdr = rehdrVersionNibble \<and> re_preamble1 hdr = 0"

definition sizeof_REHdr :: nat where
  "sizeof_REHdr = 20"

definition re_bytes :: "byte_order \<Rightarrow> REHdr \<Rightarrow> u8 list" where
  "re_bytes h hdr = [re_preamble0 hdr, re_preamble1 hdr] @ mem_bytes h 2 (re_dataId hdr) @
     mem_bytes h 4 (re_bufferOffset hdr) @ mem_bytes h 4 (re_bufferLength hdr) @
     mem_bytes h 8 (re_eventNum hdr)"

definition re_cast :: "byte_order \<Rightarrow> u8 list \<Rightarrow> REHdr" where
  "re_cast h bs = \<lparr>re_preamble0 = bs ! 0, re_preamble1 = bs ! 1,
     re_dataId = mem_val h (slice_at 2 2 bs), re_bufferOffset = mem_val h (slice_at 4 4 bs),
     re_bufferLength = mem_val h (slice_at 8 4 bs), re_eventNum = mem_val h (slice_at 12 8 bs)\<rparr>"

text \<open>A packed image whose length is known is the concatenation of its slices.\<close>

lemma slices_join: "a + m = b \<Longrightarrow> slice_at a m bs @ slice_at b n bs = slice_at a (m + n) bs"
  by (auto simp: slice_at_def take_add add.commute)

lemma slices_join_assoc:
  "a + m = b \<Longrightarrow> slice_at a m bs @ slice_at b n bs @ ys = slice_at a (m + n) bs @ ys"
  by (metis append.assoc slices_join)

lemma two_slices: "length bs \<ge> 2 \<Longrightarrow> [bs ! 0, bs ! Suc 0] = slice_at 0 2 bs"
  by (cases bs; cases "tl bs") (auto simp: slice_at_def)

lemma slice_at_all: "length bs = n \<Longrightarrow> slice_at 0 n bs = bs"
  by (simp add: slice_at_def)

lemmas pack_simps [wire_simps] =
  mem_bytes_mem_val mem_val_mem_bytes length_slice_at slice_at_all two_slices slices_join slices_join_assoc

interpretation re_wire: wire_header "re_bytes h" "re_cast h" sizeof_REHdr for h
proof
  fix hdr :: REHdr
  show "length (re_bytes h hdr) = sizeof_REHdr"
    by (simp add: re_bytes_def sizeof_REHdr_def)
  show "re_cast h (re_bytes h hdr) = hdr"
    by (simp add: re_cast_def re_bytes_def slice_simps slice_at_all mem_val_mem_bytes)
next
  fix bs :: "u8 list"
  show "re_cast h (take sizeof_REHdr bs) = re_cast h bs"
    by (simp add: re_cast_def sizeof_REHdr_def slice_at_take)
  assume l: "length bs = sizeof_REHdr"
  show "re_bytes h (re_cast h bs) = bs"
    using l by (simp add: re_bytes_def re_cast_def sizeof_REHdr_def pack_simps del: append_Cons)
qed

section \<open>The load balancer headers\<close>

definition lbhdrVersion2 :: u8 where
  "lbhdrVersion2 = 2"

definition lbhdrVersion3 :: u8 where
  "lbhdrVersion3 = 3"

text \<open>The preamble characters \<open>'L'\<close>, \<open>'B'\<close> and \<open>'C'\<close> as bytes.\<close>

definition char_L :: u8 where "char_L = 0x4C"
definition char_B :: u8 where "char_B = 0x42"
definition char_C :: u8 where "char_C = 0x43"

record LBHdrV2 =
  lb2_preamble0 :: u8
  lb2_preamble1 :: u8
  lb2_version :: u8
  lb2_nextProto :: u8
  lb2_rsvd :: u16
  lb2_entropy :: u16
  lb2_eventNum :: u64

definition LBHdrV2_new :: LBHdrV2 where
  "LBHdrV2_new = \<lparr>lb2_preamble0 = char_L, lb2_preamble1 = char_B, lb2_version = lbhdrVersion2,
     lb2_nextProto = rehdrVersion, lb2_rsvd = 0, lb2_entropy = 0, lb2_eventNum = 0\<rparr>"

definition lb2_set :: "byte_order \<Rightarrow> u16 \<Rightarrow> u64 \<Rightarrow> LBHdrV2 \<Rightarrow> LBHdrV2" where
  "lb2_set h ent event_num hdr =
     hdr\<lparr>lb2_entropy := htobe16 h ent, lb2_eventNum := htobe64 h event_num\<rparr>"

definition lb2_get_version :: "LBHdrV2 \<Rightarrow> u8" where
  "lb2_get_version hdr = lb2_version hdr"

definition lb2_check_version :: "LBHdrV2 \<Rightarrow> bool" where
  "lb2_check_version hdr \<longleftrightarrow> lb2_version hdr = lbhdrVersion2"

definition lb2_get_nextProto :: "LBHdrV2 \<Rightarrow> u8" where
  "lb2_get_nextProto hdr = lb2_nextProto hdr"

definition lb2_get_entropy :: "byte_order \<Rightarrow> LBHdrV2 \<Rightarrow> u16" where
  "lb2_get_entropy h hdr = be16toh h (lb2_entropy hdr)"

definition lb2_get_eventNum :: "byte_order \<Rightarrow> LBHdrV2 \<Rightarrow> u64" where
  "lb2_get_eventNum h hdr = be64toh h (lb2_eventNum hdr)"

definition lb2_get_Fields :: "byte_order \<Rightarrow> LBHdrV2 \<Rightarrow> u8 \<times> u8 \<times> u16 \<times> u64" where
  "lb2_get_Fields h hdr =
     (lb2_version hdr, lb2_nextProto hdr, lb2_get_entropy h hdr, lb2_get_eventNum h hdr)"

record LBHdrV3 =
  lb3_preamble0 :: u8
  lb3_preamble1 :: u8
  lb3_version :: u8
  lb3_nextProto :: u8
  lb3_slotSelect :: u16
  lb3_portSelect :: u16
  lb3_tick :: u64

definition LBHdrV3_new :: LBHdrV3 where
  "LBHdrV3_new = \<lparr>lb3_preamble0 = char_L, lb3_preamble1 = char_B, lb3_version = lbhdrVersion3,
     lb3_nextProto = rehdrVersion, lb3_slotSelect = 0, lb3_portSelect = 0, lb3_tick = 0\<rparr>"

definition lb3_set :: "byte_order \<Rightarrow> u16 \<Rightarrow> u16 \<Rightarrow> u64 \<Rightarrow> LBHdrV3 \<Rightarrow> LBHdrV3" where
  "lb3_set h slt prt tk hdr =
     hdr\<lparr>lb3_slotSelect := htobe16 h slt, lb3_portSelect := htobe16 h prt, lb3_tick := htobe64 h tk\<rparr>"

definition lb3_get_version :: "LBHdrV3 \<Rightarrow> u8" where
  "lb3_get_version hdr = lb3_version hdr"

definition lb3_check_version :: "LBHdrV3 \<Rightarrow> bool" where
  "lb3_check_version hdr \<longleftrightarrow> lb3_version hdr = lbhdrVersion3"

definition lb3_get_nextProto :: "LBHdrV3 \<Rightarrow> u8" where
  "lb3_get_nextProto hdr = lb3_nextProto hdr"

definition lb3_get_slotSelect :: "byte_order \<Rightarrow> LBHdrV3 \<Rightarrow> u16" where
  "lb3_get_slotSelect h hdr = be16toh h (lb3_slotSelect hdr)"

definition lb3_get_portSelect :: "byte_order \<Rightarrow> LBHdrV3 \<Rightarrow> u16" where
  "lb3_get_portSelect h hdr = be16toh h (lb3_portSelect hdr)"

definition lb3_get_tick :: "byte_order \<Rightarrow> LBHdrV3 \<Rightarrow> u64" where
  "lb3_get_tick h hdr = be64toh h (lb3_tick hdr)"

definition lb3_get_Fields :: "byte_order \<Rightarrow> LBHdrV3 \<Rightarrow> u8 \<times> u8 \<times> u16 \<times> u16 \<times> u64" where
  "lb3_get_Fields h hdr = (lb3_version hdr, lb3_nextProto hdr, lb3_get_slotSelect h hdr,
     lb3_get_portSelect h hdr, lb3_get_tick h hdr)"

definition sizeof_LBHdr :: nat where
  "sizeof_LBHdr = 16"

definition lb2_bytes :: "byte_order \<Rightarrow> LBHdrV2 \<Rightarrow> u8 list" where
  "lb2_bytes h hdr =
     [lb2_preamble0 hdr, lb2_preamble1 hdr] @ [lb2_version hdr, lb2_nextProto hdr] @
     mem_bytes h 2 (lb2_rsvd hdr) @ mem_bytes h 2 (lb2_entropy hdr) @ mem_bytes h 8 (lb2_eventNum hdr)"

definition lb2_cast :: "byte_order \<Rightarrow> u8 list \<Rightarrow> LBHdrV2" where
  "lb2_cast h bs = \<lparr>lb2_preamble0 = bs ! 0, lb2_preamble1 = bs ! 1, lb2_version = bs ! 2,
     lb2_nextProto = bs ! 3, lb2_rsvd = mem_val h (slice_at 4 2 bs),
     lb2_entropy = mem_val h (slice_at 6 2 bs), lb2_eventNum = mem_val h (slice_at 8 8 bs)\<rparr>"

definition lb3_bytes :: "byte_order \<Rightarrow> LBHdrV3 \<Rightarrow> u8 list" where
  "lb3_bytes h hdr =
     [lb3_preamble0 hdr, lb3_preamble1 hdr] @ [lb3_version hdr, lb3_nextProto hdr] @
     mem_bytes h 2 (lb3_slotSelect hdr) @ mem_bytes h 2 (lb3_portSelect hdr) @ mem_bytes h 8 (lb3_tick hdr)"

definition lb3_cast :: "byte_order \<Rightarrow> u8 list \<Rightarrow> LBHdrV3" where
  "lb3_cast h bs = \<lparr>lb3_preamble0 = bs ! 0, lb3_preamble1 = bs ! 1, lb3_version = bs ! 2,
     lb3_nextProto = bs ! 3, lb3_slotSelect = mem_val h (slice_at 4 2 bs),
     lb3_portSelect = mem_val h (slice_at 6 2 bs), lb3_tick = mem_val h (slice_at 8 8 bs)\<rparr>"

lemma next_two_slices: "length bs \<ge> 4 \<Longrightarrow> [bs ! 2, bs ! 3] = slice_at 2 2 bs"
  by (rule nth_equalityI) (auto simp: slice_at_def less_Suc_eq numeral_3_eq_3 numeral_2_eq_2)

interpretation lb2_wire: wire_header "lb2_bytes h" "lb2_cast h" sizeof_LBHdr for h
proof
  fix hdr :: LBHdrV2
  show "length (lb2_bytes h hdr) = sizeof_LBHdr"
    by (simp add: lb2_bytes_def sizeof_LBHdr_def)
  show "lb2_cast h (lb2_bytes h hdr) = hdr"
    by (simp add: lb2_cast_def lb2_bytes_def slice_simps slice_at_all mem_val_mem_bytes)
next
  fix bs :: "u8 list"
  show "lb2_cast h (take sizeof_LBHdr bs) = lb2_cast h bs"
    by (simp add: lb2_cast_def sizeof_LBHdr_def slice_at_take)
  assume l: "length bs = sizeof_LBHdr"
  show "lb2_bytes h (lb2_cast h bs) = bs"
    using l by (simp add: lb2_bytes_def lb2_cast_def sizeof_LBHdr_def pack_simps next_two_slices
        del: append_Cons)
qed

interpretation lb3_wire: wire_header "lb3_bytes h" "lb3_cast h" sizeof_LBHdr for h
proof
  fix hdr :: LBHdrV3
  show "length (lb3_bytes h hdr) = sizeof_LBHdr"
    by (simp add: lb3_bytes_def sizeof_LBHdr_def)
  show "lb3_cast h (lb3_bytes h hdr) = hdr"
    by (simp add: lb3_cast_def lb3_bytes_def slice_simps slice_at_all mem_val_mem_bytes)
next
  fix bs :: "u8 list"
  show "lb3_cast h (take sizeof_LBHdr bs) = lb3_cast h bs"
    by (simp add: lb3_cast_def sizeof_LBHdr_def slice_at_take)
  assume l: "length bs = sizeof_LBHdr"
  show "lb3_bytes h (lb3_cast h bs) = bs"
    using l by (simp add: lb3_bytes_def lb3_cast_def sizeof_LBHdr_def pack_simps next_two_slices
        del: append_Cons)
qed

text \<open>
  The union of the two versions holds the member its constructor built; any version number other
  than 3 builds version 2.  \<open>LBREHdr\<close> concatenates the union with a reassembly header.
\<close>

datatype LBHdrU = LB2 LBHdrV2 | LB3 LBHdrV3

definition LBHdrU_new :: "u8 \<Rightarrow> LBHdrU" where
  "LBHdrU_new ver = (if ver = 3 then LB3 LBHdrV3_new else LB2 LBHdrV2_new)"

fun lbu_bytes :: "byte_order \<Rightarrow> LBHdrU \<Rightarrow> u8 list" where
  "lbu_bytes h (LB2 x) = lb2_bytes h x"
| "lbu_bytes h (LB3 x) = lb3_bytes h x"

record LBREHdr =
  hdr_lbu :: LBHdrU
  hdr_re :: REHdr

definition LBREHdr_new :: "u8 \<Rightarrow> LBREHdr" where
  "LBREHdr_new ver = \<lparr>hdr_lbu = LBHdrU_new ver, hdr_re = REHdr_new\<rparr>"

definition lbre_bytes :: "byte_order \<Rightarrow> LBREHdr \<Rightarrow> u8 list" where
  "lbre_bytes h hdr = lbu_bytes h (hdr_lbu hdr) @ re_bytes h (hdr_re hdr)"

lemma length_lbu_bytes [simp]: "length (lbu_bytes h u) = sizeof_LBHdr"
  by (cases u) (simp_all add: lb2_wire.to_bytes_length lb3_wire.to_bytes_length)

section \<open>The sync header\<close>

definition synchdrVersion2 :: u8 where
  "synchdrVersion2 = 2"

record SyncHdr =
  sync_preamble0 :: u8
  sync_preamble1 :: u8
  sync_version :: u8
  sync_rsvd :: u8
  sync_eventSrcId :: u32
  sync_eventNumber :: u64
  sync_avgEventRateHz :: u32
  sync_unixTimeNano :: u64

definition SyncHdr_new :: SyncHdr where
  "SyncHdr_new = \<lparr>sync_preamble0 = char_L, sync_preamble1 = char_C, sync_version = synchdrVersion2,
     sync_rsvd = 0, sync_eventSrcId = 0, sync_eventNumber = 0, sync_avgEventRateHz = 0,
     sync_unixTimeNano = 0\<rparr>"

definition sync_set :: "byte_order \<Rightarrow> u32 \<Rightarrow> u64 \<Rightarrow> u32 \<Rightarrow> u64 \<Rightarrow> SyncHdr \<Rightarrow> SyncHdr" where
  "sync_set h esid event_num avg_rate ut hdr =
     hdr\<lparr>sync_eventSrcId := htobe32 h esid, sync_eventNumber := htobe64 h event_num,
         sync_avgEventRateHz := htobe32 h avg_rate, sync_unixTimeNano := htobe64 h ut\<rparr>"

definition sync_get_version :: "SyncHdr \<Rightarrow> u8" where
  "sync_get_version hdr = sync_version hdr"

definition sync_check_version :: "SyncHdr \<Rightarrow> bool" where
  "sync_check_version hdr \<longleftrightarrow> sync_version hdr = synchdrVersion2"

definition sync_get_eventSrcId :: "byte_order \<Rightarrow> SyncHdr \<Rightarrow> u32" where
  "sync_get_eventSrcId h hdr = be32toh h (sync_eventSrcId hdr)"

definition sync_get_eventNumber :: "byte_order \<Rightarrow> SyncHdr \<Rightarrow> u64" where
  "sync_get_eventNumber h hdr = be64toh h (sync_eventNumber hdr)"

definition sync_get_avgEventRateHz :: "byte_order \<Rightarrow> SyncHdr \<Rightarrow> u32" where
  "sync_get_avgEventRateHz h hdr = be32toh h (sync_avgEventRateHz hdr)"

definition sync_get_unixTimeNano :: "byte_order \<Rightarrow> SyncHdr \<Rightarrow> u64" where
  "sync_get_unixTimeNano h hdr = be64toh h (sync_unixTimeNano hdr)"

definition sync_get_Fields :: "byte_order \<Rightarrow> SyncHdr \<Rightarrow> u32 \<times> u64 \<times> u32 \<times> u64" where
  "sync_get_Fields h hdr = (sync_get_eventSrcId h hdr, sync_get_eventNumber h hdr,
     sync_get_avgEventRateHz h hdr, sync_get_unixTimeNano h hdr)"

definition sizeof_SyncHdr :: nat where
  "sizeof_SyncHdr = 28"

definition sync_bytes :: "byte_order \<Rightarrow> SyncHdr \<Rightarrow> u8 list" where
  "sync_bytes h hdr =
     [sync_preamble0 hdr, sync_preamble1 hdr] @ [sync_version hdr, sync_rsvd hdr] @
     mem_bytes h 4 (sync_eventSrcId hdr) @ mem_bytes h 8 (sync_eventNumber hdr) @
     mem_bytes h 4 (sync_avgEventRateHz hdr) @ mem_bytes h 8 (sync_unixTimeNano hdr)"

definition sync_cast :: "byte_order \<Rightarrow> u8 list \<Rightarrow> SyncHdr" where
  "sync_cast h bs = \<lparr>sync_preamble0 = bs ! 0, sync_preamble1 = bs ! 1, sync_version = bs ! 2,
     sync_rsvd = bs ! 3, sync_eventSrcId = mem_val h (slice_at 4 4 bs),
     sync_eventNumber = mem_val h (slice_at 8 8 bs), sync_avgEventRateHz = mem_val h (slice_at 16 4 bs),
     sync_unixTimeNano = mem_val h (slice_at 20 8 bs)\<rparr>"

interpretation sync_wire: wire_header "sync_bytes h" "sync_cast h" sizeof_SyncHdr for h
proof
  fix hdr :: SyncHdr
  show "length (sync_bytes h hdr) = sizeof_SyncHdr"
    by (simp add: sync_bytes_def sizeof_SyncHdr_def)
  show "sync_cast h (sync_bytes h hdr) = hdr"
    by (simp add: sync_cast_def sync_bytes_def slice_simps slice_at_all mem_val_mem_bytes)
next
  fix bs :: "u8 list"
  show "sync_cast h (take sizeof_SyncHdr bs) = sync_cast h bs"
    by (simp add: sync_cast_def sizeof_SyncHdr_def slice_at_take)
  assume l: "length bs = sizeof_SyncHdr"
  show "sync_bytes h (sync_cast h bs) = bs"
    using l by (simp add: sync_bytes_def sync_cast_def sizeof_SyncHdr_def pack_simps next_two_slices
        del: append_Cons)
qed

section \<open>Header lengths\<close>

definition IPV4_HDRLEN :: nat where "IPV4_HDRLEN = 20"
definition IPV6_HDRLEN :: nat where "IPV6_HDRLEN = 40"
definition UDP_HDRLEN :: nat where "UDP_HDRLEN = 8"

definition TOTAL_HDR_LEN :: nat where
  "TOTAL_HDR_LEN = IPV4_HDRLEN + UDP_HDRLEN + sizeof_LBHdr + sizeof_REHdr"

definition getIPHeaderLength :: "bool \<Rightarrow> nat" where
  "getIPHeaderLength useIPv6 = (if useIPv6 then IPV6_HDRLEN else IPV4_HDRLEN)"

definition getTotalHeaderLength :: "bool \<Rightarrow> nat" where
  "getTotalHeaderLength useIPv6 =
     getIPHeaderLength useIPv6 + UDP_HDRLEN + sizeof_LBHdr + sizeof_REHdr"

lemmas hdrlen_defs = getTotalHeaderLength_def getIPHeaderLength_def IPV4_HDRLEN_def IPV6_HDRLEN_def
  UDP_HDRLEN_def sizeof_LBHdr_def sizeof_REHdr_def TOTAL_HDR_LEN_def

lemma getTotalHeaderLength_values:
  "getTotalHeaderLength False = 64" "getTotalHeaderLength True = 84"
  by (simp_all add: hdrlen_defs)

section \<open>What the accessors read back\<close>

lemmas re_get_defs = re_get_dataId_def re_get_bufferOffset_def re_get_bufferLength_def
  re_get_eventNum_def re_get_Fields_def

lemma re_set_validate: "re_validate (re_set h d off len ev REHdr_new)"
  by (simp add: re_validate_def re_set_def REHdr_new_def)

text \<open>
  A header written on a host of order \<open>h1\<close> and cast on a host of order \<open>h2\<close>: the stored fields are
  what \<open>htobe\<close> of the values would be on the reader.
\<close>

lemma mem_val_htobe_cross:
  "LENGTH('a) = 8 * n \<Longrightarrow>
     betoh h2 n (mem_val h2 (mem_bytes h1 n (htobe h1 n w))) = (w :: 'a::len word)"
  by (simp add: mem_bytes_htobe betoh_mem_val_be_bytes)

lemma re_cross_fields:
  "re_get_Fields h2 (re_cast h2 (re_bytes h1 (re_set h1 d off len ev hdr) @ payload)) = (d, off, len, ev)"
  by (simp add: re_get_defs re_cast_def re_bytes_def re_set_def slice_simps mem_val_htobe_cross)

lemma re_cross_validate:
  "re_validate (re_cast h2 (re_bytes h1 (re_set h1 d off len ev REHdr_new) @ payload))"
  by (simp add: re_validate_def re_cast_def re_bytes_def re_set_def REHdr_new_def)

lemma re_cross_get:
  assumes "hdr = re_cast h2 (re_bytes h1 (re_set h1 d off len ev hdr0) @ payload)"
  shows "re_get_dataId h2 hdr = d" "re_get_bufferOffset h2 hdr = off"
    "re_get_bufferLength h2 hdr = len" "re_get_eventNum h2 hdr = ev"
  using re_cross_fields[of h2 h1 d off len ev hdr0 payload] assms by (simp_all add: re_get_Fields_def)

lemma lb2_cross_fields:
  "lb2_get_Fields h2 (lb2_cast h2 (lb2_bytes h1 (lb2_set h1 ent ev LBHdrV2_new) @ payload)) =
     (lbhdrVersion2, rehdrVersion, ent, ev)"
  by (simp add: lb2_get_Fields_def lb2_get_entropy_def lb2_get_eventNum_def lb2_cast_def lb2_bytes_def
      lb2_set_def LBHdrV2_new_def slice_simps mem_val_htobe_cross)

lemma lb3_cross_fields:
  "lb3_get_Fields h2 (lb3_cast h2 (lb3_bytes h1 (lb3_set h1 slt prt tk LBHdrV3_new) @ payload)) =
     (lbhdrVersion3, rehdrVersion, slt, prt, tk)"
  by (simp add: lb3_get_Fields_def lb3_get_slotSelect_def lb3_get_portSelect_def lb3_get_tick_def
      lb3_cast_def lb3_bytes_def lb3_set_def LBHdrV3_new_def slice_simps mem_val_htobe_cross)

lemma sync_cross_fields:
  "sync_get_Fields h2 (sync_cast h2 (sync_bytes h1 (sync_set h1 esid ev rate ut SyncHdr_new))) =
     (esid, ev, rate, ut)"
  by (simp add: sync_get_Fields_def sync_get_eventSrcId_def sync_get_eventNumber_def
      sync_get_avgEventRateHz_def sync_get_unixTimeNano_def sync_cast_def sync_bytes_def sync_set_def
      slice_simps slice_at_all mem_val_htobe_cross)

end
