(* ===== verification/E2SAR_Errors.thy ===== *)
theory E2SAR_Errors
  imports E2SAR_Prelude
begin

text \<open>
  \<^verbatim>\<open>include/e2sarError.hpp\<close>: the error codes, the error record that every fallible operation
  returns, the outcome type \<^verbatim>\<open>result<T>\<close> as a sum, the exception class, and the message table of the
  error category that is plugged into \<^verbatim>\<open>std::error_code\<close>.
\<close>

datatype E2SARErrorc =
    NoError | CaughtException | ParseError | ParameterError | ParameterNotAvailable | OutOfRange
  | Undefined | NotFound | RPCError | SocketError | MemoryError | LogicError | SystemError | DataError

text \<open>The value each enumerator has, as \<^verbatim>\<open>static_cast<int>\<close> gives it.\<close>

fun errc_value :: "E2SARErrorc \<Rightarrow> int" where
  "errc_value NoError = 0"
| "errc_value CaughtException = 1"
| "errc_value ParseError = 2"
| "errc_value ParameterError = 3"
| "errc_value ParameterNotAvailable = 4"
| "errc_value OutOfRange = 5"
| "errc_value Undefined = 6"
| "errc_value NotFound = 7"
| "errc_value RPCError = 8"
| "errc_value SocketError = 9"
| "errc_value MemoryError = 10"
| "errc_value LogicError = 11"
| "errc_value SystemError = 12"
| "errc_value DataError = 13"

record E2SARErrorInfo =
  ec :: E2SARErrorc
  msg :: string

type_synonym 'a result = "E2SARErrorInfo + 'a"

abbreviation Err :: "E2SARErrorc \<Rightarrow> string \<Rightarrow> 'a result" where
  "Err c m \<equiv> Inl \<lparr>ec = c, msg = m\<rparr>"

abbreviation Ok :: "'a \<Rightarrow> 'a result" where
  "Ok x \<equiv> Inr x"

definition has_error :: "'a result \<Rightarrow> bool" where
  "has_error r = (case r of Inl _ \<Rightarrow> True | Inr _ \<Rightarrow> False)"

lemma has_error_simps [simp]: "has_error (Inl e)" "\<not> has_error (Inr x)"
  by (simp_all add: has_error_def)

section \<open>The exception class\<close>

text \<open>
  The class has two conversions to \<^verbatim>\<open>std::string\<close>: the one a const object selects prefixes the
  message, the other returns it as it is.
\<close>

record E2SARException =
  error_msg :: string

definition exception_string_const :: "E2SARException \<Rightarrow> string" where
  "exception_string_const e = ''E2SAR exception: '' @ error_msg e"

definition exception_string :: "E2SARException \<Rightarrow> string" where
  "exception_string e = error_msg e"

definition exception_what :: "E2SARException \<Rightarrow> string" where
  "exception_what e = error_msg e"

section \<open>The error category\<close>

text \<open>\<^verbatim>\<open>E2SARErrorc_category::message\<close> switches on the integer; \<open>NoError\<close> has no case of its own.\<close>

definition category_message :: "int \<Rightarrow> string" where
  "category_message c =
     (if c = errc_value CaughtException then ''caught an exception''
      else if c = errc_value ParseError then ''parsing error''
      else if c = errc_value ParameterError then ''parameter error''
      else if c = errc_value ParameterNotAvailable then ''parameter not available''
      else if c = errc_value OutOfRange then ''value out of range''
      else if c = errc_value Undefined then ''value undefined''
      else if c = errc_value NotFound then ''file not found''
      else if c = errc_value RPCError then ''gRPC error''
      else if c = errc_value SocketError then ''socket error''
      else if c = errc_value MemoryError then ''memory error''
      else if c = errc_value LogicError then ''logic error''
      else if c = errc_value SystemError then ''system error''
      else if c = errc_value DataError then ''data error''
      else ''unknown'')"

definition category_name :: string where
  "category_name = ''E2SARError''"

text \<open>A \<^verbatim>\<open>std::error_code\<close> is the integer with the category it belongs to.\<close>

definition make_error_code :: "E2SARErrorc \<Rightarrow> int \<times> string" where
  "make_error_code e = (errc_value e, category_name)"

definition make_error_code_info :: "E2SARErrorInfo \<Rightarrow> int \<times> string" where
  "make_error_code_info e = (errc_value (ec e), category_name)"

lemma errc_value_inj: "errc_value a = errc_value b \<Longrightarrow> a = b"
  by (cases a; cases b) simp_all

lemma category_message_unknown:
  "category_message (errc_value e) = ''unknown'' \<longleftrightarrow> e = NoError"
  by (cases e) (simp_all add: category_message_def)

text \<open>Distinct codes have distinct texts, so a text identifies the code that produced it.\<close>

lemma category_message_inj:
  "category_message (errc_value a) = category_message (errc_value b) \<Longrightarrow> a = b"
  by (cases a; cases b) (simp_all add: category_message_def)

end
