(* ===== verification/E2SAR_Optimizations.thy ===== *)
theory E2SAR_Optimizations
  imports E2SAR_Errors
begin

text \<open>
  \<^verbatim>\<open>class Optimizations\<close> of \<^verbatim>\<open>include/e2sarUtil.hpp\<close> and \<^verbatim>\<open>src/e2sarUtil.cpp\<close>: the codes, their
  encoding in a 16 bit word, the optimizations compiled in, and the selection kept in the singleton.
  The two compile time switches are the record \<open>build_flags\<close>; the singleton's only field is the word
  that every operation takes and returns.
\<close>

datatype Code = none | sendmmsg | liburing_send | liburing_recv | unknown

fun code_value :: "Code \<Rightarrow> nat" where
  "code_value none = 0"
| "code_value sendmmsg = 1"
| "code_value liburing_send = 2"
| "code_value liburing_recv = 3"
| "code_value unknown = 15"

type_synonym OptimizationsWord = u16

definition toWord :: "Code \<Rightarrow> OptimizationsWord" where
  "toWord c = push_bit (code_value c) 1"

fun opt_toString :: "Code \<Rightarrow> string" where
  "opt_toString none = ''none''"
| "opt_toString sendmmsg = ''sendmmsg''"
| "opt_toString liburing_recv = ''liburing_recv''"
| "opt_toString liburing_send = ''liburing_send''"
| "opt_toString unknown = ''unknown''"

definition opt_fromString :: "string \<Rightarrow> Code" where
  "opt_fromString s =
     (if s = ''none'' then none
      else if s = ''sendmmsg'' then sendmmsg
      else if s = ''liburing_recv'' then liburing_recv
      else if s = ''liburing_send'' then liburing_send
      else unknown)"

record build_flags =
  SENDMMSG_AVAILABLE :: bool
  LIBURING_AVAILABLE :: bool

definition opt_available :: "build_flags \<Rightarrow> Code list" where
  "opt_available b = [none] @ (if SENDMMSG_AVAILABLE b then [sendmmsg] else []) @
     (if LIBURING_AVAILABLE b then [liburing_send, liburing_recv] else [])"

definition availableAsStrings :: "build_flags \<Rightarrow> string list" where
  "availableAsStrings b = map opt_toString (opt_available b)"

text \<open>\<^verbatim>\<open>ow = ow | toWord(o)\<close> over a list of codes.\<close>

definition codes_word :: "Code list \<Rightarrow> OptimizationsWord" where
  "codes_word cs = foldl (\<lambda>ow c. ow OR toWord c) 0 cs"

definition availableAsWord :: "build_flags \<Rightarrow> OptimizationsWord" where
  "availableAsWord b = codes_word (opt_available b)"

text \<open>The private constructor initialises the singleton with \<open>none\<close>.\<close>

definition opt_initial :: OptimizationsWord where
  "opt_initial = toWord none"

definition opt_isSelected :: "OptimizationsWord \<Rightarrow> Code \<Rightarrow> bool" where
  "opt_isSelected sel c \<longleftrightarrow> toWord c AND sel \<noteq> 0"

text \<open>The loop of \<open>select\<close> over the requested codes: stops at the first one that is not available.\<close>

fun select_loop :: "build_flags \<Rightarrow> Code list \<Rightarrow> OptimizationsWord \<Rightarrow> unit result \<times> OptimizationsWord" where
  "select_loop b [] sel = (Ok (), sel)"
| "select_loop b (c # cs) sel =
     (let ov = toWord c in
      if ov AND availableAsWord b = 0 then
        (Err NotFound (''Requested optimization '' @ opt_toString c @ '' is not available on this platform''),
         toWord none)
      else select_loop b cs (sel OR ov))"

definition select_codes :: "build_flags \<Rightarrow> Code list \<Rightarrow> OptimizationsWord \<Rightarrow> int result \<times> OptimizationsWord" where
  "select_codes b opts sel =
     (case select_loop b opts sel of
        (Inl e, sel') \<Rightarrow> (Inl e, sel')
      | (Inr _, sel') \<Rightarrow>
          if opt_isSelected sel' sendmmsg \<and>
             (opt_isSelected sel' liburing_recv \<or> opt_isSelected sel' liburing_send)
          then (Err LogicError ''Requested optimizations are incompatible'', toWord none)
          else (Ok 0, if sel' XOR toWord none \<noteq> 0 then sel' XOR toWord none else sel'))"

definition select_names :: "build_flags \<Rightarrow> string list \<Rightarrow> OptimizationsWord \<Rightarrow> int result \<times> OptimizationsWord" where
  "select_names b opts sel = select_codes b (map opt_fromString opts) sel"

definition selectedAsList :: "build_flags \<Rightarrow> OptimizationsWord \<Rightarrow> Code list" where
  "selectedAsList b sel = filter (opt_isSelected sel) (opt_available b)"

definition selectedAsStrings :: "build_flags \<Rightarrow> OptimizationsWord \<Rightarrow> string list" where
  "selectedAsStrings b sel = map opt_toString (selectedAsList b sel)"

definition selectedAsWord :: "build_flags \<Rightarrow> OptimizationsWord \<Rightarrow> OptimizationsWord" where
  "selectedAsWord b sel = codes_word (selectedAsList b sel)"

section \<open>Words as sets of codes\<close>

lemma code_value_less: "code_value c < 16"
  by (cases c) simp_all

lemma toWord_bit: "bit (toWord c) n \<longleftrightarrow> n = code_value c"
  using code_value_less[of c] by (auto simp: toWord_def bit_exp_iff)

lemma code_value_inj [simp]: "code_value a = code_value b \<longleftrightarrow> a = b"
  by (cases a; cases b) simp_all

lemma isSelected_bit: "opt_isSelected sel c \<longleftrightarrow> bit sel (code_value c)"
proof
  assume "bit sel (code_value c)"
  then have "bit (toWord c AND sel) (code_value c)" by (simp add: bit_and_iff toWord_bit)
  then show "opt_isSelected sel c" by (auto simp: opt_isSelected_def)
next
  assume "opt_isSelected sel c"
  then obtain n where "bit (toWord c AND sel) n"
    unfolding opt_isSelected_def by (metis bit_eq_iff bit_0_eq bot_apply bot_bool_def)
  then show "bit sel (code_value c)" by (auto simp: bit_and_iff toWord_bit)
qed

lemma isSelected_or [simp]:
  "opt_isSelected (a OR b) c \<longleftrightarrow> opt_isSelected a c \<or> opt_isSelected b c"
  by (simp add: isSelected_bit bit_or_iff)

lemma isSelected_toWord [simp]: "opt_isSelected (toWord c) d \<longleftrightarrow> c = d"
  by (auto simp: isSelected_bit toWord_bit)

lemma isSelected_xor [simp]:
  "opt_isSelected (a XOR b) c \<longleftrightarrow> opt_isSelected a c \<noteq> opt_isSelected b c"
  by (simp add: isSelected_bit bit_xor_iff)

lemma isSelected_0 [simp]: "\<not> opt_isSelected 0 c"
  by (simp add: isSelected_bit)

lemma isSelected_foldl:
  "opt_isSelected (foldl (\<lambda>ow c. ow OR toWord c) w cs) c \<longleftrightarrow> opt_isSelected w c \<or> c \<in> set cs"
  by (induction cs arbitrary: w) auto

lemma isSelected_codes_word [simp]: "opt_isSelected (codes_word cs) c \<longleftrightarrow> c \<in> set cs"
  by (simp add: codes_word_def isSelected_foldl)

lemma available_iff: "toWord c AND availableAsWord b \<noteq> 0 \<longleftrightarrow> c \<in> set (opt_available b)"
  using isSelected_codes_word[of "opt_available b" c] by (simp add: opt_isSelected_def availableAsWord_def)

section \<open>What a selection does\<close>

lemma select_loop_ok:
  "set cs \<subseteq> set (opt_available b) \<Longrightarrow>
     select_loop b cs sel = (Ok (), foldl (\<lambda>ow c. ow OR toWord c) sel cs)"
  by (induction cs arbitrary: sel) (auto simp: Let_def available_iff)

lemma select_loop_missing:
  assumes "\<not> set cs \<subseteq> set (opt_available b)"
  shows "\<exists>m. select_loop b cs sel = (Err NotFound m, toWord none)"
  using assms by (induction cs arbitrary: sel) (auto simp: Let_def available_iff)

text \<open>Codes the words of the program can hold: bits of the enumerators other than the reserved ones.\<close>

definition opt_conflict :: "OptimizationsWord \<Rightarrow> bool" where
  "opt_conflict sel \<longleftrightarrow> opt_isSelected sel sendmmsg \<and>
     (opt_isSelected sel liburing_recv \<or> opt_isSelected sel liburing_send)"

lemma select_codes_no_conflict:
  "snd (select_codes b opts sel) = sel' \<Longrightarrow> \<not> opt_conflict sel'"
proof -
  assume s: "snd (select_codes b opts sel) = sel'"
  obtain r w where l: "select_loop b opts sel = (r, w)" by fastforce
  show ?thesis
  proof (cases "set opts \<subseteq> set (opt_available b)")
    case True
    then have "r = Ok ()" using l by (simp add: select_loop_ok)
    then show ?thesis using s l
      by (auto simp: select_codes_def opt_conflict_def split: if_splits)
  next
    case False
    then obtain m where "r = Err NotFound m" "w = toWord none"
      using select_loop_missing[OF False, of sel] l by auto
    then show ?thesis using s l by (auto simp: select_codes_def opt_conflict_def)
  qed
qed

lemma select_codes_unavailable:
  "\<not> set opts \<subseteq> set (opt_available b) \<Longrightarrow>
     \<exists>m. select_codes b opts sel = (Err NotFound m, toWord none)"
  using select_loop_missing[of opts b sel] by (auto simp: select_codes_def)

lemma selected_member:
  assumes "set opts \<subseteq> set (opt_available b)"
    and "\<not> opt_conflict (foldl (\<lambda>ow c. ow OR toWord c) sel opts)" and "c \<noteq> none"
  shows "fst (select_codes b opts sel) = Ok 0"
    and "opt_isSelected (snd (select_codes b opts sel)) c \<longleftrightarrow> opt_isSelected sel c \<or> c \<in> set opts"
  using assms by (auto simp: select_codes_def select_loop_ok opt_conflict_def isSelected_foldl)

lemma fromString_toString: "opt_fromString (opt_toString c) = c"
  by (cases c) (simp_all add: opt_fromString_def)

end
