(* ===== verification/E2SAR_Queues.thy ===== *)
theory E2SAR_Queues
  imports E2SAR_Prelude
begin

text \<open>
  The containers of Boost that the data plane relies on.  The lock free queues are used through
  \<open>push\<close> (which may refuse), \<open>pop\<close> and nothing else: the locale \<open>event_fifo\<close> is that interface, with
  the facts its clients need; the segmenter's send queue and the reassembler's event queue interpret
  it.  The circular buffer of sync statistics and PID samples is the definition \<open>cb_push\<close>.
\<close>

section \<open>The interface of an event queue\<close>

locale event_fifo =
  fixes push :: "'e \<Rightarrow> 'q \<Rightarrow> 'q \<times> bool"
    and pop :: "'q \<Rightarrow> 'q \<times> 'e option"
    and elems :: "'q \<Rightarrow> 'e list"
  assumes push_accepted: "push e q = (q', True) \<Longrightarrow> elems q' = elems q @ [e]"
    and push_refused: "push e q = (q', False) \<Longrightarrow> elems q' = elems q"
    and pop_empty: "elems q = [] \<Longrightarrow> pop q = (q, None)"
    and pop_head: "elems q = e # es \<Longrightarrow> \<exists>q'. pop q = (q', Some e) \<and> elems q' = es"
begin

lemma pop_Some_iff: "snd (pop q) = Some e \<longleftrightarrow> (\<exists>es. elems q = e # es)"
  using pop_empty[of q] pop_head[of q] by (cases "elems q") auto

lemma pop_elems: "pop q = (q', Some e) \<Longrightarrow> elems q = e # elems q'"
  using pop_empty[of q] pop_head[of q] by (cases "elems q") auto

lemma pop_None_elems: "pop q = (q', None) \<Longrightarrow> q' = q \<and> elems q = []"
  using pop_empty[of q] pop_head[of q] by (cases "elems q") auto

text \<open>What goes in first comes out first, whatever else was pushed before the pop.\<close>

lemma push_pop_order:
  assumes "push e q = (q1, True)" and "pop q1 = (q2, Some x)"
  shows "x # elems q2 = elems q @ [e]"
  using push_accepted[OF assms(1)] pop_elems[OF assms(2)] by simp

text \<open>Only a push adds an element, and it adds at most one.\<close>

lemma push_length: "push e q = (q', ok) \<Longrightarrow> length (elems q') = length (elems q) + (if ok then 1 else 0)"
  using push_accepted[of e q q'] push_refused[of e q q'] by (cases ok) auto

end

section \<open>Circular buffers\<close>

text \<open>\<^verbatim>\<open>boost::circular_buffer::push_back\<close>: a full buffer ejects its oldest entry, one of capacity
  0 stays empty.\<close>

definition cb_push :: "nat \<Rightarrow> 'a \<Rightarrow> 'a list \<Rightarrow> 'a list" where
  "cb_push cap x xs =
     (if cap = 0 then xs else if length xs < cap then xs @ [x] else tl xs @ [x])"

lemma cb_push_length: "length xs \<le> cap \<Longrightarrow> length (cb_push cap x xs) \<le> cap"
  by (auto simp: cb_push_def)

lemma cb_push_last: "0 < cap \<Longrightarrow> last (cb_push cap x xs) = x"
  by (simp add: cb_push_def)

lemma cb_push_nonempty: "0 < cap \<Longrightarrow> cb_push cap x xs \<noteq> []"
  by (simp add: cb_push_def)

lemma drop_snoc_one: "drop k (xs @ [x]) = (if k \<le> length xs then drop k xs @ [x] else [])"
  by simp

text \<open>After any number of pushes the buffer holds the last \<open>cap\<close> values pushed.\<close>

lemma cb_push_fold:
  "length xs \<le> cap \<Longrightarrow>
     fold (cb_push cap) ys xs = drop (length xs + length ys - cap) (xs @ ys)"
proof (induction ys arbitrary: xs)
  case Nil
  then show ?case by simp
next
  case (Cons y ys)
  consider "cap = 0" | "0 < cap" "length xs < cap" | "0 < cap" "length xs = cap"
    using Cons.prems by linarith
  then show ?case
  proof cases
    case 1
    then show ?thesis using Cons.prems Cons.IH[of xs] by (simp add: cb_push_def)
  next
    case 2
    then show ?thesis using Cons.IH[of "xs @ [y]"] by (simp add: cb_push_def)
  next
    case 3
    then obtain z zs where xs: "xs = z # zs" by (cases xs) auto
    then show ?thesis using 3 Cons.IH[of "zs @ [y]"] by (simp add: cb_push_def)
  qed
qed

end
