(* ===== verification/E2SAR_Segmenter.thy ===== *)
theory E2SAR_Segmenter
  imports E2SAR_Headers E2SAR_Optimizations E2SAR_Queues
begin

text \<open>
  The sending side of the data plane, \<^verbatim>\<open>include/e2sarDPSegmenter.hpp\<close> and
  \<^verbatim>\<open>src/e2sarDPSegmenter.cpp\<close>: the fragmentation loop of \<open>SendThreadState::_send\<close> with its three
  transmission paths, the blocking \<open>sendEvent\<close>, the bounded send queue behind \<open>addToSendQueue\<close>, the
  step of the send thread that empties it, and the event rate and sync header arithmetic.

  The kernel is a parameter: an abstract world \<open>'w\<close> and, in \<open>net_ops\<close>, what \<open>sendmsg\<close>, \<open>sendmmsg\<close> and a
  ring submission answer.  Sizes (\<^verbatim>\<open>size_t\<close>) are natural numbers; the narrowing to \<^verbatim>\<open>u_int32_t\<close> that
  the code does is written out.  Time is read once per event and passed in.
\<close>

section \<open>State\<close>

text \<open>\<^verbatim>\<open>Segmenter::AtomicStats\<close>; the sync and the send thread have one each.\<close>

record seg_stats =
  st_msgCnt :: u64
  st_errCnt :: u64
  st_lastErrno :: int
  st_lastE2SARError :: E2SARErrorc

definition seg_stats_new :: seg_stats where
  "seg_stats_new = \<lparr>st_msgCnt = 0, st_errCnt = 0, st_lastErrno = 0, st_lastE2SARError = NoError\<rparr>"

text \<open>\<^verbatim>\<open>Segmenter::ReportedStats\<close>: the snapshot handed to the user.\<close>

definition seg_ReportedStats :: "seg_stats \<Rightarrow> u64 \<times> u64 \<times> int \<times> E2SARErrorc" where
  "seg_ReportedStats a = (st_msgCnt a, st_errCnt a, st_lastErrno a, st_lastE2SARError a)"

text \<open>\<^verbatim>\<open>Segmenter::EventQueueItem\<close>; a callback is a function number with its argument.\<close>

record seg_item =
  qi_bytes :: u32
  qi_eventNum :: u64
  qi_dataId :: u16
  qi_event :: "u8 list"
  qi_entropy :: u16
  qi_callback :: "nat option"
  qi_cbArg :: nat

record SendStats =
  lastSyncTimeNanos :: u64
  eventsSinceLastSync :: u64

text \<open>The members of \<^verbatim>\<open>Segmenter\<close> and of its send thread that never change after construction.\<close>

record seg_cfg =
  sg_dataId :: u16
  sg_eventSrcId :: u32
  sg_numSendSockets :: nat
  sg_lbHdrVersion :: u8
  sg_ticksAsREEventNum :: bool
  sg_addEntropy :: bool
  sg_useV6 :: bool
  sg_maxPldLen :: nat
  sg_syncPeriods :: nat

record seg_state =
  sg_queue :: "seg_item list"
  sg_userEventNum :: u64
  sg_roundRobinIndex :: nat
  sg_eventsInCurrentSync :: u64
  sg_currentSyncStartNano :: u64
  sg_eventStatsBuffer :: "SendStats list"
  sg_sendStats :: seg_stats
  sg_syncStats :: seg_stats
  sg_outstandingSends :: u32
  sg_callbacks :: "(nat \<times> nat) list"

definition SEG_QSIZE :: nat where
  "SEG_QSIZE = 2047"

definition seg_state_new :: seg_state where
  "seg_state_new = \<lparr>sg_queue = [], sg_userEventNum = 0, sg_roundRobinIndex = 0,
     sg_eventsInCurrentSync = 0, sg_currentSyncStartNano = 0, sg_eventStatsBuffer = [],
     sg_sendStats = seg_stats_new, sg_syncStats = seg_stats_new, sg_outstandingSends = 0,
     sg_callbacks = []\<rparr>"

text \<open>
  What the kernel answers: \<open>None\<close> for success and \<open>Some errno\<close> for a return of -1; \<open>sendmmsg\<close> returns
  the number of messages sent (or -1) and the \<^verbatim>\<open>errno\<close> it left behind.
\<close>

record 'w net_ops =
  op_sendmsg :: "nat \<Rightarrow> u8 list \<Rightarrow> 'w \<Rightarrow> int option \<times> 'w"
  op_sendmmsg :: "nat \<Rightarrow> u8 list list \<Rightarrow> 'w \<Rightarrow> int \<times> int \<times> 'w"
  op_uring_submit :: "nat \<Rightarrow> u8 list \<Rightarrow> (nat \<times> nat) option \<Rightarrow> 'w \<Rightarrow> 'w"
  op_strerror :: "int \<Rightarrow> string"

section \<open>Counters\<close>

definition stats_sent :: "u64 \<Rightarrow> seg_stats \<Rightarrow> seg_stats" where
  "stats_sent n a = a\<lparr>st_msgCnt := st_msgCnt a + n\<rparr>"

definition stats_failed :: "u64 \<Rightarrow> int \<Rightarrow> seg_stats \<Rightarrow> seg_stats" where
  "stats_failed n errno a = a\<lparr>st_errCnt := st_errCnt a + n, st_lastErrno := errno\<rparr>"

definition on_sendStats :: "(seg_stats \<Rightarrow> seg_stats) \<Rightarrow> seg_state \<Rightarrow> seg_state" where
  "on_sendStats f s = s\<lparr>sg_sendStats := f (sg_sendStats s)\<rparr>"

definition on_syncStats :: "(seg_stats \<Rightarrow> seg_stats) \<Rightarrow> seg_state \<Rightarrow> seg_state" where
  "on_syncStats f s = s\<lparr>sg_syncStats := f (sg_syncStats s)\<rparr>"

section \<open>The fragmentation loop\<close>

text \<open>
  One turn of the loop hands a datagram to the transmission path (an emitter), which may fail; the
  flag tells whether it is the last one of the event.  \<open>hdr off\<close> is the LB and RE header of the
  datagram at offset \<open>off\<close>.  With \<open>maxPldLen = 0\<close> the loop does not end, hence the option.
\<close>

type_synonym 's emitter = "bool \<Rightarrow> u8 list \<Rightarrow> 's \<Rightarrow> 's \<times> E2SARErrorInfo option"

partial_function (option) send_loop ::
  "(nat \<Rightarrow> u8 list) \<Rightarrow> 's emitter \<Rightarrow> u8 list \<Rightarrow> nat \<Rightarrow> nat \<Rightarrow> nat \<Rightarrow> nat \<Rightarrow> 's \<Rightarrow>
     ('s \<times> E2SARErrorInfo option) option" where
  "send_loop hdr emit event bytes maxPldLen curOffset curLen s =
     (if curOffset < bytes then
        (let frame = hdr curOffset @ slice_at curOffset curLen event;
             curOffset' = curOffset + curLen;
             curLen' = (if bytes > curOffset' + maxPldLen then maxPldLen else bytes - curOffset')
         in case emit (curOffset' \<ge> bytes) frame s of
              (s', Some e) \<Rightarrow> Some (s', Some e)
            | (s', None) \<Rightarrow> send_loop hdr emit event bytes maxPldLen curOffset' curLen' s')
      else Some (s, None))"

definition addClockEntropy :: "u64 \<Rightarrow> u8 \<Rightarrow> u64" where
  "addClockEntropy clockSample lsb = (clockSample AND NOT 0xFF) OR ucast lsb"

text \<open>The headers of the datagram at offset \<open>off\<close>; 'buffer length' is the length of the event.\<close>

definition seg_header ::
  "byte_order \<Rightarrow> seg_cfg \<Rightarrow> u16 \<Rightarrow> nat \<Rightarrow> u64 \<Rightarrow> u16 \<Rightarrow> u64 \<Rightarrow> nat \<Rightarrow> LBREHdr" where
  "seg_header h c dataId bytes eventNum entropy lbEventNum off =
     (let hdr = LBREHdr_new (sg_lbHdrVersion c);
          re = re_set h dataId (word_of_nat off) (word_of_nat bytes) eventNum (hdr_re hdr);
          lbu = (case hdr_lbu hdr of
                   LB3 x \<Rightarrow> LB3 (lb3_set h (ucast (lbEventNum AND 0xFFFF)) entropy lbEventNum x)
                 | LB2 x \<Rightarrow> LB2 (lb2_set h entropy lbEventNum x))
      in hdr\<lparr>hdr_lbu := lbu, hdr_re := re\<rparr>)"

text \<open>The three transmission paths.\<close>

definition emit_sendmsg :: "'w net_ops \<Rightarrow> nat \<Rightarrow> (seg_state \<times> 'w) emitter" where
  "emit_sendmsg net sock fin frame = (\<lambda>(s, w).
     let s1 = on_sendStats (stats_sent 1) s
     in case op_sendmsg net sock frame w of
          (None, w') \<Rightarrow> ((s1, w'), None)
        | (Some errno, w') \<Rightarrow>
            ((on_sendStats (stats_failed 1 errno) s1, w'),
             Some \<lparr>ec = SocketError, msg = op_strerror net errno\<rparr>))"

definition emit_mmsgvec :: "(seg_state \<times> 'w \<times> u8 list list) emitter" where
  "emit_mmsgvec fin frame = (\<lambda>(s, w, vec). ((s, w, vec @ [frame]), None))"

definition emit_uring ::
  "'w net_ops \<Rightarrow> nat \<Rightarrow> nat option \<Rightarrow> nat \<Rightarrow> (seg_state \<times> 'w) emitter" where
  "emit_uring net rri callback cbArg fin frame = (\<lambda>(s, w).
     ((on_sendStats (stats_sent 1) s,
       op_uring_submit net rri frame
         (if fin then map_option (\<lambda>f. (f, cbArg)) callback else None) w), None))"

definition numBuffers :: "nat \<Rightarrow> nat \<Rightarrow> nat" where
  "numBuffers maxPldLen bytes = (bytes + maxPldLen - 1) div maxPldLen"

definition event_sent :: "seg_state \<Rightarrow> seg_state" where
  "event_sent s = s\<lparr>sg_eventsInCurrentSync := sg_eventsInCurrentSync s + 1\<rparr>"

text \<open>
  \<^verbatim>\<open>SendThreadState::_send\<close>.  \<open>isSel\<close> is the selection of optimizations, \<open>now\<close> the clock sample in
  microseconds, \<open>lsb\<close> and \<open>rnd\<close> the random numbers it may draw.  The result is the value returned, the
  state and the world; \<open>None\<close> stands for a loop that does not end.
\<close>

definition seg_send ::
  "'w net_ops \<Rightarrow> byte_order \<Rightarrow> (Code \<Rightarrow> bool) \<Rightarrow> seg_cfg \<Rightarrow> u64 \<Rightarrow> u8 \<Rightarrow> u16 \<Rightarrow>
   u8 list \<Rightarrow> nat \<Rightarrow> u64 \<Rightarrow> u16 \<Rightarrow> u16 \<Rightarrow> nat \<Rightarrow> nat option \<Rightarrow> nat \<Rightarrow> seg_state \<Rightarrow> 'w \<Rightarrow>
   (int result \<times> seg_state \<times> 'w) option" where
  "seg_send net h isSel c now lsb rnd event bytes eventNum dataId entropy rri callback cbArg s w =
     (let nb = numBuffers (sg_maxPldLen c) bytes;
          curLen = (if bytes \<le> sg_maxPldLen c then bytes else sg_maxPldLen c);
          lbEventNum = (if sg_addEntropy c then addClockEntropy now lsb else now);
          eventNum' = (if sg_ticksAsREEventNum c then lbEventNum else eventNum);
          entropy' = (if entropy = 0 then rnd else entropy);
          hdr = (\<lambda>off. lbre_bytes h (seg_header h c dataId bytes eventNum' entropy' lbEventNum off))
      in
      if isSel sendmmsg then
        (case send_loop hdr emit_mmsgvec event bytes (sg_maxPldLen c) 0 curLen (s, w, []) of
           None \<Rightarrow> None
         | Some ((s1, w1, vec), _) \<Rightarrow>
             let s2 = on_sendStats (stats_sent (word_of_nat nb)) s1
             in case op_sendmmsg net rri vec w1 of (err, errno, w2) \<Rightarrow>
                  if err \<noteq> int nb then
                    let s3 = on_sendStats (\<lambda>a. a\<lparr>st_errCnt := st_errCnt a + (word_of_nat nb - word_of_int err)\<rparr>) s2;
                        s4 = (if errno \<noteq> 0 then on_sendStats (\<lambda>a. a\<lparr>st_lastErrno := errno\<rparr>) s3 else s3)
                    in Some (Err SocketError (op_strerror net errno), s4, w2)
                  else Some (Ok 0, event_sent s2, w2))
      else if isSel liburing_send then
        (case send_loop hdr (emit_uring net rri callback cbArg) event bytes (sg_maxPldLen c) 0 curLen (s, w) of
           None \<Rightarrow> None
         | Some ((s1, w1), _) \<Rightarrow>
             Some (Ok 0, event_sent (s1\<lparr>sg_outstandingSends := sg_outstandingSends s1 + word_of_nat nb\<rparr>), w1))
      else
        (case send_loop hdr (emit_sendmsg net rri) event bytes (sg_maxPldLen c) 0 curLen (s, w) of
           None \<Rightarrow> None
         | Some ((s1, w1), Some e) \<Rightarrow> Some (Inl e, s1, w1)
         | Some ((s1, w1), None) \<Rightarrow> Some (Ok 0, event_sent s1, w1)))"


section \<open>The loop refines a list of fragments\<close>

text \<open>Fragment \<open>i\<close> of an event: its offset and its length.\<close>

definition frag_off :: "nat \<Rightarrow> nat \<Rightarrow> nat" where
  "frag_off maxPld i = i * maxPld"

definition frag_len :: "nat \<Rightarrow> nat \<Rightarrow> nat \<Rightarrow> nat" where
  "frag_len maxPld bytes i = min maxPld (bytes - i * maxPld)"

definition frag_payload :: "nat \<Rightarrow> nat \<Rightarrow> u8 list \<Rightarrow> nat \<Rightarrow> u8 list" where
  "frag_payload maxPld bytes event i = slice_at (frag_off maxPld i) (frag_len maxPld bytes i) event"

definition frag_frame ::
  "(nat \<Rightarrow> u8 list) \<Rightarrow> nat \<Rightarrow> nat \<Rightarrow> u8 list \<Rightarrow> nat \<Rightarrow> u8 list" where
  "frag_frame hdr maxPld bytes event i = hdr (frag_off maxPld i) @ frag_payload maxPld bytes event i"

definition seg_frames :: "(nat \<Rightarrow> u8 list) \<Rightarrow> nat \<Rightarrow> nat \<Rightarrow> u8 list \<Rightarrow> u8 list list" where
  "seg_frames hdr maxPld bytes event =
     map (frag_frame hdr maxPld bytes event) [0..<numBuffers maxPld bytes]"

text \<open>Sending a list of frames, stopping at the first one the emitter refuses.\<close>

fun emit_all :: "'s emitter \<Rightarrow> u8 list list \<Rightarrow> 's \<Rightarrow> 's \<times> E2SARErrorInfo option" where
  "emit_all emit [] s = (s, None)"
| "emit_all emit (f # fs) s =
     (case emit (fs = []) f s of (s', Some e) \<Rightarrow> (s', Some e) | (s', None) \<Rightarrow> emit_all emit fs s')"

lemma numBuffers_bounds:
  assumes "0 < maxPld"
  shows "bytes \<le> numBuffers maxPld bytes * maxPld"
    and "0 < bytes \<Longrightarrow> (numBuffers maxPld bytes - 1) * maxPld < bytes"
proof -
  let ?n = "numBuffers maxPld bytes"
  have eq: "(bytes + maxPld - 1) = ?n * maxPld + (bytes + maxPld - 1) mod maxPld"
    by (simp add: numBuffers_def)
  have lt: "(bytes + maxPld - 1) mod maxPld < maxPld" using assms by simp
  show le: "bytes \<le> ?n * maxPld" using eq lt assms by linarith
  show "(?n - 1) * maxPld < bytes" if "0 < bytes"
    using eq that assms by (simp add: diff_mult_distrib)
qed

lemma numBuffers_0 [simp]: "0 < maxPld \<Longrightarrow> numBuffers maxPld 0 = 0"
  by (simp add: numBuffers_def)

lemma less_numBuffers:
  assumes "0 < maxPld"
  shows "i < numBuffers maxPld bytes \<longleftrightarrow> i * maxPld < bytes"
proof
  assume i: "i < numBuffers maxPld bytes"
  then have "0 < bytes" using assms by (cases "bytes = 0") auto
  moreover from i have "i * maxPld \<le> (numBuffers maxPld bytes - 1) * maxPld"
    by (intro mult_right_mono) auto
  ultimately show "i * maxPld < bytes" using numBuffers_bounds(2)[OF assms, of bytes] by linarith
next
  assume "i * maxPld < bytes"
  then have "i * maxPld < numBuffers maxPld bytes * maxPld"
    using numBuffers_bounds(1)[OF assms, of bytes] by linarith
  then show "i < numBuffers maxPld bytes" using assms by simp
qed

lemma next_frag_len:
  assumes "0 < maxPld" and "i * maxPld < bytes"
  shows "(if bytes > (i * maxPld + frag_len maxPld bytes i) + maxPld then maxPld
          else bytes - (i * maxPld + frag_len maxPld bytes i)) = frag_len maxPld bytes (Suc i)"
  using assms by (auto simp: frag_len_def min_def)

lemma frag_advance:
  assumes "0 < maxPld" and "Suc i * maxPld < bytes"
  shows "i * maxPld + frag_len maxPld bytes i = Suc i * maxPld"
  using assms by (auto simp: frag_len_def min_def)

lemma send_loop_step:
  assumes "off < bytes" and "off' = off + l"
    and "l' = (if bytes > off' + maxPld then maxPld else bytes - off')"
  shows "send_loop hdr emit event bytes maxPld off l s =
     (case emit (off' \<ge> bytes) (hdr off @ slice_at off l event) s of
        (s', Some e) \<Rightarrow> Some (s', Some e)
      | (s', None) \<Rightarrow> send_loop hdr emit event bytes maxPld off' l' s')"
  by (subst send_loop.simps) (simp add: assms Let_def)

lemma send_loop_done: "bytes \<le> off \<Longrightarrow> send_loop hdr emit event bytes maxPld off l s = Some (s, None)"
  by (subst send_loop.simps) simp

lemma send_loop_frames:
  assumes m: "0 < maxPld" and n: "n = numBuffers maxPld bytes" and "i < n"
  shows "send_loop hdr emit event bytes maxPld (i * maxPld) (frag_len maxPld bytes i) s =
     Some (emit_all emit (map (frag_frame hdr maxPld bytes event) [i..<n]) s)"
  using assms(3)
proof (induction "n - Suc i" arbitrary: i s)
  case 0
  then have last: "Suc i = n" by simp
  have lt: "i * maxPld < bytes" using less_numBuffers[OF m] 0(2) n by simp
  have "\<not> Suc i * maxPld < bytes" using less_numBuffers[OF m] last n by (metis less_irrefl)
  then have fin: "bytes \<le> i * maxPld + frag_len maxPld bytes i"
    by (auto simp: frag_len_def min_def)
  have "[i..<n] = [i]" using last by (metis upt_rec upt_conv_Nil lessI order_refl)
  then show ?case using lt fin
    by (simp add: send_loop_step[OF lt refl refl] send_loop_done frag_frame_def frag_off_def
        frag_payload_def split: prod.splits option.splits)
next
  case (Suc k)
  then have i: "Suc i < n" by linarith
  have lt: "i * maxPld < bytes" and lt2: "Suc i * maxPld < bytes"
    using less_numBuffers[OF m] Suc.prems i n by auto
  have adv: "i * maxPld + frag_len maxPld bytes i = Suc i * maxPld" by (rule frag_advance[OF m lt2])
  have up: "[i..<n] = i # [Suc i..<n]" using Suc.prems by (rule upt_step)
  have ne: "[Suc i..<n] \<noteq> []" using i by simp
  have k: "k = n - Suc (Suc i)" using Suc.hyps(2) by linarith
  have IH: "\<And>s. send_loop hdr emit event bytes maxPld (Suc i * maxPld) (frag_len maxPld bytes (Suc i)) s =
     Some (emit_all emit (map (frag_frame hdr maxPld bytes event) [Suc i..<n]) s)"
    using Suc.hyps(1)[OF k i] by blast
  show ?case
    unfolding send_loop_step[OF lt adv[symmetric] next_frag_len[OF m lt, unfolded adv, symmetric]]
    using lt2 ne by (simp add: up IH frag_frame_def frag_off_def frag_payload_def del: upt_Suc mult_Suc
        split: prod.splits option.splits)
qed

text \<open>The loop ends for every positive payload size and emits exactly the frames of the event.\<close>

lemma send_loop_refines:
  assumes m: "0 < maxPld"
  shows "send_loop hdr emit event bytes maxPld 0 (if bytes \<le> maxPld then bytes else maxPld) s =
     Some (emit_all emit (seg_frames hdr maxPld bytes event) s)"
proof (cases "bytes = 0")
  case True
  then show ?thesis using m by (simp add: send_loop.simps seg_frames_def)
next
  case False
  have l0: "(if bytes \<le> maxPld then bytes else maxPld) = frag_len maxPld bytes 0"
    by (simp add: frag_len_def min_def)
  have "0 < numBuffers maxPld bytes" using less_numBuffers[OF m, of 0] False by simp
  from send_loop_frames[OF m refl this, of hdr emit event s] show ?thesis
    by (simp add: l0 seg_frames_def)
qed

lemma length_seg_frames [simp]: "length (seg_frames hdr maxPld bytes event) = numBuffers maxPld bytes"
  by (simp add: seg_frames_def)

section \<open>The fragments cover the event\<close>

lemma frag_payload_prefix:
  assumes "0 < maxPld" and "k \<le> numBuffers maxPld bytes" and "bytes \<le> length event"
  shows "concat (map (frag_payload maxPld bytes event) [0..<k]) = take (min (k * maxPld) bytes) event"
  using assms(2)
proof (induction k)
  case 0
  then show ?case by simp
next
  case (Suc k)
  then have lt: "k * maxPld < bytes" using less_numBuffers[OF assms(1), of k bytes] by simp
  have "take (k * maxPld) event @ slice_at (k * maxPld) (frag_len maxPld bytes k) event
      = take (k * maxPld + frag_len maxPld bytes k) event"
    by (simp add: slice_at_def take_add)
  moreover have "k * maxPld + frag_len maxPld bytes k = min (Suc k * maxPld) bytes"
    using lt by (auto simp: frag_len_def min_def)
  ultimately show ?case
    using Suc lt by (simp add: frag_payload_def frag_off_def min_def del: mult_Suc)
qed

lemma frag_payloads_concat:
  assumes "0 < maxPld" and "bytes \<le> length event"
  shows "concat (map (frag_payload maxPld bytes event) [0..<numBuffers maxPld bytes]) = take bytes event"
  using frag_payload_prefix[OF assms(1) order_refl assms(2)] numBuffers_bounds(1)[OF assms(1), of bytes]
  by (simp add: min_absorb2)

lemma frag_range:
  assumes "0 < maxPld" and "i < numBuffers maxPld bytes"
  shows "frag_off maxPld i + frag_len maxPld bytes i \<le> bytes" and "0 < frag_len maxPld bytes i"
    and "frag_len maxPld bytes i \<le> maxPld" and "frag_off maxPld i < bytes"
  using less_numBuffers[OF assms(1), of i bytes] assms by (auto simp: frag_off_def frag_len_def)

lemma length_frag_payload:
  assumes "0 < maxPld" and "i < numBuffers maxPld bytes" and "bytes \<le> length event"
  shows "length (frag_payload maxPld bytes event i) = frag_len maxPld bytes i"
  using frag_range(1)[OF assms(1,2)] assms(3) by (simp add: frag_payload_def length_slice_at)

lemma length_lbre_bytes [simp]: "length (lbre_bytes h hdr) = sizeof_LBHdr + sizeof_REHdr"
  by (simp add: lbre_bytes_def re_wire.to_bytes_length)

section \<open>Sending, path by path\<close>

text \<open>The header function of one event, as \<open>seg_send\<close> builds it.\<close>

definition seg_lbEventNum :: "seg_cfg \<Rightarrow> u64 \<Rightarrow> u8 \<Rightarrow> u64" where
  "seg_lbEventNum c now lsb = (if sg_addEntropy c then addClockEntropy now lsb else now)"

definition seg_event_headers ::
  "byte_order \<Rightarrow> seg_cfg \<Rightarrow> u64 \<Rightarrow> u8 \<Rightarrow> u16 \<Rightarrow> nat \<Rightarrow> u64 \<Rightarrow> u16 \<Rightarrow> u16 \<Rightarrow> nat \<Rightarrow> u8 list" where
  "seg_event_headers h c now lsb rnd bytes eventNum dataId entropy off =
     lbre_bytes h (seg_header h c dataId bytes
       (if sg_ticksAsREEventNum c then seg_lbEventNum c now lsb else eventNum)
       (if entropy = 0 then rnd else entropy) (seg_lbEventNum c now lsb) off)"

lemma emit_all_mmsgvec: "emit_all emit_mmsgvec fs (s, w, vec) = ((s, w, vec @ fs), None)"
  by (induction fs arbitrary: vec) (simp_all add: emit_mmsgvec_def)

lemma seg_send_plain:
  assumes "0 < sg_maxPldLen c" and "\<not> isSel sendmmsg" and "\<not> isSel liburing_send"
  shows "seg_send net h isSel c now lsb rnd event bytes eventNum dataId entropy rri cb arg s w =
    Some (case emit_all (emit_sendmsg net rri)
        (seg_frames (seg_event_headers h c now lsb rnd bytes eventNum dataId entropy)
           (sg_maxPldLen c) bytes event) (s, w) of
      ((s1, w1), Some e) \<Rightarrow> (Inl e, s1, w1)
    | ((s1, w1), None) \<Rightarrow> (Ok 0, event_sent s1, w1))"
proof -
  obtain s1 w1 e where r: "emit_all (emit_sendmsg net rri)
      (seg_frames (seg_event_headers h c now lsb rnd bytes eventNum dataId entropy)
        (sg_maxPldLen c) bytes event) (s, w) = ((s1, w1), e)" by (metis surj_pair)
  note r' = r[unfolded seg_event_headers_def[abs_def] seg_lbEventNum_def]
  show ?thesis unfolding r using assms
    by (cases e) (simp_all add: seg_send_def Let_def send_loop_refines r')
qed

lemma seg_send_uring:
  assumes "0 < sg_maxPldLen c" and "\<not> isSel sendmmsg" and "isSel liburing_send"
  shows "seg_send net h isSel c now lsb rnd event bytes eventNum dataId entropy rri cb arg s w =
    Some (case emit_all (emit_uring net rri cb arg)
        (seg_frames (seg_event_headers h c now lsb rnd bytes eventNum dataId entropy)
           (sg_maxPldLen c) bytes event) (s, w) of
      ((s1, w1), e) \<Rightarrow> (Ok 0, event_sent (s1\<lparr>sg_outstandingSends := sg_outstandingSends s1 +
        word_of_nat (numBuffers (sg_maxPldLen c) bytes)\<rparr>), w1))"
proof -
  obtain s1 w1 e where r: "emit_all (emit_uring net rri cb arg)
      (seg_frames (seg_event_headers h c now lsb rnd bytes eventNum dataId entropy)
        (sg_maxPldLen c) bytes event) (s, w) = ((s1, w1), e)" by (metis surj_pair)
  note r' = r[unfolded seg_event_headers_def[abs_def] seg_lbEventNum_def]
  show ?thesis unfolding r using assms
    by (simp add: seg_send_def Let_def send_loop_refines r')
qed

lemma seg_send_mmsg:
  assumes "0 < sg_maxPldLen c" and "isSel sendmmsg"
    and "op_sendmmsg net rri (seg_frames (seg_event_headers h c now lsb rnd bytes eventNum dataId entropy)
           (sg_maxPldLen c) bytes event) w = (err, errno, w2)"
  shows "seg_send net h isSel c now lsb rnd event bytes eventNum dataId entropy rri cb arg s w =
    Some (let nb = numBuffers (sg_maxPldLen c) bytes;
              s2 = on_sendStats (stats_sent (word_of_nat nb)) s
          in if err \<noteq> int nb then
               (Err SocketError (op_strerror net errno),
                (let s3 = on_sendStats (\<lambda>a. a\<lparr>st_errCnt := st_errCnt a + (word_of_nat nb - word_of_int err)\<rparr>) s2
                 in if errno \<noteq> 0 then on_sendStats (\<lambda>a. a\<lparr>st_lastErrno := errno\<rparr>) s3 else s3), w2)
             else (Ok 0, event_sent s2, w2))"
  using assms(1,2) assms(3)[unfolded seg_event_headers_def[abs_def] seg_lbEventNum_def]
  by (simp add: seg_send_def Let_def send_loop_refines emit_all_mmsgvec)

section \<open>The blocking call and the send queue\<close>

text \<open>
  \<open>Segmenter::sendEvent\<close>.  The round robin index is taken modulo the number of sockets, which is
  undefined for 0 sockets: the result is then \<open>None\<close>, as for a send loop that does not end.
\<close>

definition seg_sendEvent ::
  "'w net_ops \<Rightarrow> byte_order \<Rightarrow> (Code \<Rightarrow> bool) \<Rightarrow> seg_cfg \<Rightarrow> u64 \<Rightarrow> u8 \<Rightarrow> u16 \<Rightarrow>
   u8 list \<Rightarrow> nat \<Rightarrow> u64 \<Rightarrow> u16 \<Rightarrow> u16 \<Rightarrow> seg_state \<Rightarrow> 'w \<Rightarrow> (int result \<times> seg_state \<times> 'w) option" where
  "seg_sendEvent net h isSel c now lsb rnd event bytes eventNum0 dataId0 entropy s w =
     (if sg_numSendSockets c = 0 then None else
      let s1 = (if eventNum0 \<noteq> 0 then s\<lparr>sg_userEventNum := eventNum0\<rparr> else s);
          rri = (sg_roundRobinIndex s1 + 1) mod sg_numSendSockets c;
          s2 = s1\<lparr>sg_roundRobinIndex := rri\<rparr>;
          ev = sg_userEventNum s2;
          s3 = s2\<lparr>sg_userEventNum := ev + 1\<rparr>
      in seg_send net h isSel c now lsb rnd event bytes ev
           (if dataId0 = 0 then sg_dataId c else dataId0) entropy rri None 0 s3 w)"

text \<open>The lock free queue of fixed size: a push on a full queue is refused.\<close>

definition seg_push :: "seg_item \<Rightarrow> seg_item list \<Rightarrow> seg_item list \<times> bool" where
  "seg_push item q = (if length q < SEG_QSIZE then (q @ [item], True) else (q, False))"

definition seg_pop :: "seg_item list \<Rightarrow> seg_item list \<times> seg_item option" where
  "seg_pop q = (case q of [] \<Rightarrow> ([], None) | x # xs \<Rightarrow> (xs, Some x))"

interpretation seg_fifo: event_fifo seg_push seg_pop "\<lambda>q. q"
  by unfold_locales (auto simp: seg_push_def seg_pop_def split: if_splits list.splits)

definition seg_addToSendQueue ::
  "seg_cfg \<Rightarrow> u8 list \<Rightarrow> nat \<Rightarrow> u64 \<Rightarrow> u16 \<Rightarrow> u16 \<Rightarrow> nat option \<Rightarrow> nat \<Rightarrow> seg_state \<Rightarrow> int result \<times> seg_state" where
  "seg_addToSendQueue c event bytes eventNum0 dataId0 entropy callback cbArg s =
     (let s1 = (if eventNum0 \<noteq> 0 then s\<lparr>sg_userEventNum := eventNum0\<rparr> else s);
          ev = sg_userEventNum s1;
          item = \<lparr>qi_bytes = word_of_nat bytes, qi_eventNum = ev,
                  qi_dataId = (if dataId0 = 0 then sg_dataId c else dataId0),
                  qi_event = event, qi_entropy = entropy, qi_callback = callback, qi_cbArg = cbArg\<rparr>;
          s2 = s1\<lparr>sg_userEventNum := ev + 1\<rparr>
      in case seg_push item (sg_queue s2) of
           (q, True) \<Rightarrow> (Ok 0, s2\<lparr>sg_queue := q\<rparr>)
         | (q, False) \<Rightarrow>
             (Err MemoryError ''Send queue is temporarily full, try again later'', s2\<lparr>sg_queue := q\<rparr>))"

text \<open>
  \<open>SendThreadState::_reap\<close>: the completions peeked in one batch; a negative result counts as an
  error, and the callback of the last segment of an event is called here.
\<close>

definition reap_one :: "int \<times> (nat \<times> nat) option \<Rightarrow> seg_state \<Rightarrow> seg_state" where
  "reap_one cqe s = (case cqe of (res, cb) \<Rightarrow>
     (let s1 = (if res < 0 then on_sendStats (stats_failed 1 res) s else s)
      in case cb of None \<Rightarrow> s1 | Some fa \<Rightarrow> s1\<lparr>sg_callbacks := sg_callbacks s1 @ [fa]\<rparr>))"

fun seg_reap :: "(int \<times> (nat \<times> nat) option) list list \<Rightarrow> seg_state \<Rightarrow> seg_state" where
  "seg_reap [] s = s"
| "seg_reap ([] # bs) s = s"
| "seg_reap ((e # es) # bs) s =
     (let s1 = fold reap_one (e # es) s
      in seg_reap bs (s1\<lparr>sg_outstandingSends := sg_outstandingSends s1 - word_of_nat (length (e # es))\<rparr>))"

text \<open>
  One turn of the send thread: pop an item, pick the next socket, send, then (unless the ring does
  it) call the callback.  The thread pool may run the handlers of different items concurrently; the
  model runs each to its end in the order of dispatch.
\<close>

definition seg_thread_step ::
  "'w net_ops \<Rightarrow> byte_order \<Rightarrow> (Code \<Rightarrow> bool) \<Rightarrow> seg_cfg \<Rightarrow> u64 \<Rightarrow> u8 \<Rightarrow> u16 \<Rightarrow>
   (int \<times> (nat \<times> nat) option) list list \<Rightarrow> seg_state \<Rightarrow> 'w \<Rightarrow> (seg_state \<times> 'w) option" where
  "seg_thread_step net h isSel c now lsb rnd cqes s w =
     (case seg_pop (sg_queue s) of
        (q, None) \<Rightarrow> Some (s, w)
      | (q, Some item) \<Rightarrow>
          if sg_numSendSockets c = 0 then None else
          let rri = (sg_roundRobinIndex s + 1) mod sg_numSendSockets c;
              s1 = s\<lparr>sg_queue := q, sg_roundRobinIndex := rri\<rparr>
          in (case seg_send net h isSel c now lsb rnd (qi_event item) (unat (qi_bytes item))
                    (qi_eventNum item) (qi_dataId item) (qi_entropy item) rri
                    (qi_callback item) (qi_cbArg item) s1 w of
               None \<Rightarrow> None
             | Some (_, s2, w2) \<Rightarrow>
                 if isSel liburing_send then Some (seg_reap cqes s2, w2)
                 else (case qi_callback item of
                         None \<Rightarrow> Some (s2, w2)
                       | Some f \<Rightarrow> Some (s2\<lparr>sg_callbacks := sg_callbacks s2 @ [(f, qi_cbArg item)]\<rparr>, w2))))"

section \<open>The sync thread\<close>

definition fillSyncHdr :: "byte_order \<Rightarrow> seg_cfg \<Rightarrow> u64 \<Rightarrow> u64 \<Rightarrow> SyncHdr" where
  "fillSyncHdr h c nowUsec tnano = sync_set h (sg_eventSrcId c) nowUsec 1000000 tnano SyncHdr_new"

definition sync_send ::
  "'w net_ops \<Rightarrow> nat \<Rightarrow> u8 list \<Rightarrow> seg_state \<Rightarrow> 'w \<Rightarrow> int result \<times> seg_state \<times> 'w" where
  "sync_send net sock hdr s w =
     (let s1 = on_syncStats (stats_sent 1) s
      in case op_sendmsg net sock hdr w of
           (None, w') \<Rightarrow> (Ok 0, s1, w')
         | (Some errno, w') \<Rightarrow>
             (Err SocketError (op_strerror net errno), on_syncStats (stats_failed 1 errno) s1, w'))"

text \<open>One turn of \<open>SyncThreadState::_threadBody\<close> at the clock reading given.\<close>

definition sync_tick ::
  "'w net_ops \<Rightarrow> byte_order \<Rightarrow> seg_cfg \<Rightarrow> nat \<Rightarrow> u64 \<Rightarrow> u64 \<Rightarrow> seg_state \<Rightarrow> 'w \<Rightarrow> seg_state \<times> 'w" where
  "sync_tick net h c sock currentTimeNanos nowUsec s w =
     (let s1 = (if sg_currentSyncStartNano s \<noteq> 0 then
                  s\<lparr>sg_eventStatsBuffer := cb_push (sg_syncPeriods c)
                       \<lparr>lastSyncTimeNanos = sg_currentSyncStartNano s,
                        eventsSinceLastSync = sg_eventsInCurrentSync s\<rparr> (sg_eventStatsBuffer s),
                    sg_currentSyncStartNano := currentTimeNanos,
                    sg_eventsInCurrentSync := 0\<rparr>
                else s\<lparr>sg_currentSyncStartNano := currentTimeNanos\<rparr>)
      in case sync_send net sock (sync_bytes h (fillSyncHdr h c nowUsec currentTimeNanos)) s1 w of
           (_, s2, w2) \<Rightarrow> (s2, w2))"

text \<open>
  \<open>stopThreads\<close> waits for an empty queue: the send thread runs until it has popped everything.  Each
  element is the clock sample and the random numbers of one turn; running out of them means waiting on.
\<close>

fun seg_drain ::
  "(u64 \<times> u8 \<times> u16) list \<Rightarrow> 'w net_ops \<Rightarrow> byte_order \<Rightarrow> (Code \<Rightarrow> bool) \<Rightarrow> seg_cfg \<Rightarrow>
   seg_state \<Rightarrow> 'w \<Rightarrow> (seg_state \<times> 'w) option" where
  "seg_drain [] net h isSel c s w = (if sg_queue s = [] then Some (s, w) else None)"
| "seg_drain ((now, lsb, rnd) # turns) net h isSel c s w =
     (if sg_queue s = [] then Some (s, w)
      else case seg_thread_step net h isSel c now lsb rnd [] s w of
             None \<Rightarrow> None
           | Some (s', w') \<Rightarrow> seg_drain turns net h isSel c s' w')"

end
