(* ===== verification/E2SAR_Reassembler.thy ===== *)
theory E2SAR_Reassembler
  imports E2SAR_Headers E2SAR_Errors E2SAR_Queues
begin

text \<open>
  The data path of the receiving side, \<^verbatim>\<open>include/e2sarDPReassembler.hpp\<close> and
  \<^verbatim>\<open>src/e2sarDPReassembler.cpp\<close>: what a receive thread does with one datagram, the garbage
  collection of events that stay incomplete, the event queue with its depth counter, the record of
  lost events, and the calls a user takes events and statistics with.

  A receive thread owns its table of events in progress (an association list: \<open>unordered_map\<close> gives
  no order) and its set of lost events; queue and statistics are shared.  \<open>None\<close> as the outcome of a
  step stands for a write outside the heap buffer, which the program does not check for.  Counters
  wrap at 64 bits as the atomics do; sizes are natural numbers, clock readings nanoseconds.
\<close>

section \<open>State\<close>

definition RECV_BUFFER_SIZE :: nat where
  "RECV_BUFFER_SIZE = 9000"

definition REAS_QSIZE :: nat where
  "REAS_QSIZE = 1000"

type_synonym event_key = "u64 \<times> u16"

text \<open>\<^verbatim>\<open>Reassembler::EventQueueItem\<close>.\<close>

record reas_item =
  ri_firstSegment :: int
  ri_numFragments :: nat
  ri_bytes :: nat
  ri_curBytes :: nat
  ri_eventNum :: u64
  ri_event :: buffer
  ri_dataId :: u16

definition initFromHeader :: "byte_order \<Rightarrow> int \<Rightarrow> REHdr \<Rightarrow> reas_item" where
  "initFromHeader h now rehdr =
     \<lparr>ri_firstSegment = now, ri_numFragments = 0, ri_bytes = unat (re_get_bufferLength h rehdr),
      ri_curBytes = 0, ri_eventNum = re_get_eventNum h rehdr,
      ri_event = new_buffer (unat (re_get_bufferLength h rehdr)), ri_dataId = re_get_dataId h rehdr\<rparr>"

definition item_key :: "reas_item \<Rightarrow> event_key" where
  "item_key i = (ri_eventNum i, ri_dataId i)"

text \<open>\<^verbatim>\<open>Reassembler::AtomicStats\<close> together with the queues: the state all threads share.\<close>

record reas_shared =
  rs_enqueueLoss :: u64
  rs_reassemblyLoss :: u64
  rs_eventSuccess :: u64
  rs_totalBytesReceived :: u64
  rs_totalPacketsReceived :: u64
  rs_badHeaderDiscards :: u64
  rs_lastErrno :: int
  rs_grpcErrCnt :: int
  rs_dataErrCnt :: int
  rs_lastE2SARError :: E2SARErrorc
  rs_lostEventsQueue :: "(u64 \<times> u16 \<times> nat) list"
  rs_fragmentsPerFd :: "nat list"
  rs_portPerFd :: "u16 list"
  rs_eventQueue :: "reas_item list"
  rs_eventQueueDepth :: nat

definition reas_shared_new :: reas_shared where
  "reas_shared_new = \<lparr>rs_enqueueLoss = 0, rs_reassemblyLoss = 0, rs_eventSuccess = 0,
     rs_totalBytesReceived = 0, rs_totalPacketsReceived = 0, rs_badHeaderDiscards = 0,
     rs_lastErrno = 0, rs_grpcErrCnt = 0, rs_dataErrCnt = 0, rs_lastE2SARError = NoError,
     rs_lostEventsQueue = [], rs_fragmentsPerFd = [], rs_portPerFd = [], rs_eventQueue = [],
     rs_eventQueueDepth = 0\<rparr>"

text \<open>\<^verbatim>\<open>Reassembler::RecvThreadState\<close>.\<close>

record recv_thread =
  rt_udpPorts :: "int list"
  rt_sockets :: "nat list"
  rt_maxFdPlusOne :: nat
  rt_eventsInProgress :: "(event_key \<times> reas_item) list"
  rt_lostEvents :: "event_key set"

definition recv_thread_new :: "int list \<Rightarrow> recv_thread" where
  "recv_thread_new ports = \<lparr>rt_udpPorts = ports, rt_sockets = [], rt_maxFdPlusOne = 0,
     rt_eventsInProgress = [], rt_lostEvents = {}\<rparr>"

section \<open>The event queue\<close>

text \<open>
  \<open>enqueue\<close> copies the item; the queue grows on demand, so a push is refused only when no node can
  be allocated (\<open>alloc_ok\<close> false).  \<open>dequeue\<close> keeps the depth counter in step.
\<close>

definition reas_enqueue :: "bool \<Rightarrow> reas_item \<Rightarrow> reas_shared \<Rightarrow> reas_shared \<times> int" where
  "reas_enqueue alloc_ok item g =
     (if alloc_ok then
        (g\<lparr>rs_eventQueue := rs_eventQueue g @ [item], rs_eventQueueDepth := rs_eventQueueDepth g + 1\<rparr>, 0)
      else (g, 1))"

definition reas_dequeue :: "reas_shared \<Rightarrow> reas_shared \<times> reas_item option" where
  "reas_dequeue g =
     (case rs_eventQueue g of
        [] \<Rightarrow> (g, None)
      | item # q \<Rightarrow>
          (g\<lparr>rs_eventQueue := q, rs_eventQueueDepth := rs_eventQueueDepth g - 1\<rparr>, Some item))"

definition reas_push :: "bool \<Rightarrow> reas_item \<Rightarrow> reas_shared \<Rightarrow> reas_shared \<times> bool" where
  "reas_push alloc_ok item g = (case reas_enqueue alloc_ok item g of (g', r) \<Rightarrow> (g', r = 0))"

interpretation reas_fifo: event_fifo "reas_push alloc_ok" reas_dequeue rs_eventQueue for alloc_ok
  by unfold_locales (auto simp: reas_push_def reas_enqueue_def reas_dequeue_def split: if_splits list.splits)

section \<open>Lost events\<close>

definition logLostEvent :: "reas_item \<Rightarrow> bool \<Rightarrow> event_key set \<Rightarrow> reas_shared \<Rightarrow> event_key set \<times> reas_shared" where
  "logLostEvent item enqueLoss lost g =
     (let evt = (ri_eventNum item, ri_dataId item) in
      if evt \<in> lost then (lost, g)
      else
        let lost' = insert evt lost;
            g1 = g\<lparr>rs_lostEventsQueue :=
                    rs_lostEventsQueue g @ [(ri_eventNum item, ri_dataId item, ri_numFragments item)]\<rparr>
        in (lost', if enqueLoss then g1\<lparr>rs_enqueueLoss := rs_enqueueLoss g1 + 1\<rparr>
                   else g1\<lparr>rs_reassemblyLoss := rs_reassemblyLoss g1 + 1\<rparr>))"

section \<open>One datagram\<close>

text \<open>
  What \<open>recvfrom\<close> returned for one socket: -1 with an \<^verbatim>\<open>errno\<close>, or a datagram.  \<open>ri_junk\<close> is the
  content the freshly allocated receive buffer has beyond the bytes received.
\<close>

datatype recv_outcome = RecvFail int | RecvData "u8 list"

record recv_input =
  in_fd :: nat
  in_now :: int
  in_junk :: "nat \<Rightarrow> u8"
  in_alloc :: bool
  in_outcome :: recv_outcome

definition recv_buffer :: "recv_input \<Rightarrow> u8 list \<Rightarrow> u8 list" where
  "recv_buffer x d =
     (let data = take RECV_BUFFER_SIZE d
      in data @ map (in_junk x) [length data..<RECV_BUFFER_SIZE])"

text \<open>Finding or starting the item a valid segment belongs to: offset 0 always starts a new one.\<close>

definition locate_item ::
  "byte_order \<Rightarrow> int \<Rightarrow> REHdr \<Rightarrow> (event_key \<times> reas_item) list \<Rightarrow>
     reas_item \<times> (event_key \<times> reas_item) list" where
  "locate_item h now rehdr prog =
     (let key = (re_get_eventNum h rehdr, re_get_dataId h rehdr);
          fresh = initFromHeader h now rehdr
      in if re_get_bufferOffset h rehdr = 0 then (fresh, AList.update key fresh prog)
         else (case map_of prog key of
                 Some item \<Rightarrow> (item, prog)
               | None \<Rightarrow> (fresh, AList.update key fresh prog)))"

text \<open>What follows once the segment has been copied: completion, and delivery or loss.\<close>

definition finish_item ::
  "bool \<Rightarrow> reas_item \<Rightarrow> (event_key \<times> reas_item) list \<Rightarrow> recv_thread \<times> reas_shared \<Rightarrow>
     recv_thread \<times> reas_shared" where
  "finish_item alloc_ok item prog = (\<lambda>(t, g).
     if ri_curBytes item = ri_bytes item then
       let prog' = AList.delete (ri_eventNum item, ri_dataId item) prog
       in (case reas_enqueue alloc_ok item g of (g1, ret) \<Rightarrow>
          (case (if ret = 1 then logLostEvent item True (rt_lostEvents t) g1 else (rt_lostEvents t, g1)) of
             (lost, g2) \<Rightarrow>
               (t\<lparr>rt_eventsInProgress := prog', rt_lostEvents := lost\<rparr>,
                g2\<lparr>rs_eventSuccess := rs_eventSuccess g2 + 1\<rparr>)))
     else (t\<lparr>rt_eventsInProgress := prog\<rparr>, g))"

text \<open>
  The body of the socket loop of \<open>RecvThreadState::_threadBody\<close>.  The item is shared between the
  local pointer and the table, so the table sees the copied bytes and the counts.  A payload size
  below 0 or a range outside the event buffer makes \<open>memcpy\<close> corrupt memory.
\<close>

definition recv_one ::
  "byte_order \<Rightarrow> bool \<Rightarrow> recv_input \<Rightarrow> recv_thread \<times> reas_shared \<Rightarrow> (recv_thread \<times> reas_shared) option" where
  "recv_one h withLBHeader x = (\<lambda>(t, g).
     case in_outcome x of
       RecvFail errno \<Rightarrow>
         Some (t, g\<lparr>rs_dataErrCnt := rs_dataErrCnt g + 1, rs_lastErrno := errno\<rparr>)
     | RecvData d \<Rightarrow>
         if in_fd x \<ge> length (rs_fragmentsPerFd g) then None else
         let buf = recv_buffer x d;
             received = length (take RECV_BUFFER_SIZE d);
             g1 = g\<lparr>rs_fragmentsPerFd := (rs_fragmentsPerFd g)[in_fd x := rs_fragmentsPerFd g ! in_fd x + 1],
                    rs_totalPacketsReceived := rs_totalPacketsReceived g + 1,
                    rs_totalBytesReceived := rs_totalBytesReceived g + word_of_nat received\<rparr>;
             start = (if withLBHeader then sizeof_LBHdr else 0);
             rehdr = re_cast h (drop start buf);
             nbytes = int received - int (start + sizeof_REHdr)
         in if \<not> re_validate rehdr then
              Some (t, g1\<lparr>rs_badHeaderDiscards := rs_badHeaderDiscards g1 + 1\<rparr>)
            else
              let (item, prog) = locate_item h (in_now x) rehdr (rt_eventsInProgress t);
                  payload = slice_at (start + sizeof_REHdr) (nat nbytes) buf
              in if nbytes < 0 then None
                 else (case memcpy_at (unat (re_get_bufferOffset h rehdr)) payload (ri_event item) of
                        None \<Rightarrow> None
                      | Some ev \<Rightarrow>
                          let item' = item\<lparr>ri_event := ev, ri_numFragments := ri_numFragments item + 1,
                                           ri_curBytes := ri_curBytes item + nat nbytes\<rparr>;
                              prog' = AList.update (re_get_eventNum h rehdr, re_get_dataId h rehdr) item' prog
                          in Some (finish_item (in_alloc x) item' prog' (t, g1))))"

fun recv_run ::
  "byte_order \<Rightarrow> bool \<Rightarrow> recv_input list \<Rightarrow> recv_thread \<times> reas_shared \<Rightarrow> (recv_thread \<times> reas_shared) option" where
  "recv_run h lb [] s = Some s"
| "recv_run h lb (x # xs) s = (case recv_one h lb x s of None \<Rightarrow> None | Some s' \<Rightarrow> recv_run h lb xs s')"

text \<open>
  One turn of the receive loop: \<open>select\<close> fails, or marks the readable descriptors, of which the ones
  among the thread's sockets are read in the order the sockets were opened.
\<close>

datatype select_outcome = SelectFail int | SelectReady "nat \<Rightarrow> recv_input option"

definition recv_turn ::
  "byte_order \<Rightarrow> bool \<Rightarrow> select_outcome \<Rightarrow> recv_thread \<times> reas_shared \<Rightarrow> (recv_thread \<times> reas_shared) option" where
  "recv_turn h lb sel = (\<lambda>(t, g).
     case sel of
       SelectFail errno \<Rightarrow> Some (t, g\<lparr>rs_dataErrCnt := rs_dataErrCnt g + 1, rs_lastErrno := errno\<rparr>)
     | SelectReady ready \<Rightarrow> recv_run h lb (List.map_filter ready (rt_sockets t)) (t, g))"

section \<open>Garbage collection\<close>

fun gc_scan ::
  "int \<Rightarrow> int \<Rightarrow> (event_key \<times> reas_item) list \<Rightarrow> event_key set \<Rightarrow> reas_shared \<Rightarrow>
     (event_key \<times> reas_item) list \<times> event_key set \<times> reas_shared" where
  "gc_scan nowT eventTimeout_ms [] lost g = ([], lost, g)"
| "gc_scan nowT eventTimeout_ms ((k, item) # prog) lost g =
     (if cpp_div (nowT - ri_firstSegment item) 1000000 > eventTimeout_ms then
        (case logLostEvent item False lost g of (lost', g') \<Rightarrow> gc_scan nowT eventTimeout_ms prog lost' g')
      else
        (case gc_scan nowT eventTimeout_ms prog lost g of (prog', lost', g') \<Rightarrow> ((k, item) # prog', lost', g')))"

definition gc_thread :: "int \<Rightarrow> int \<Rightarrow> recv_thread \<times> reas_shared \<Rightarrow> recv_thread \<times> reas_shared" where
  "gc_thread nowT eventTimeout_ms = (\<lambda>(t, g).
     case gc_scan nowT eventTimeout_ms (rt_eventsInProgress t) (rt_lostEvents t) g of
       (prog, lost, g') \<Rightarrow> (t\<lparr>rt_eventsInProgress := prog, rt_lostEvents := lost\<rparr>, g'))"

text \<open>One pass of \<open>GCThreadState::_threadBody\<close> over all receive threads, and the final drain.\<close>

fun gc_pass :: "int \<Rightarrow> int \<Rightarrow> recv_thread list \<Rightarrow> reas_shared \<Rightarrow> recv_thread list \<times> reas_shared" where
  "gc_pass nowT tmo [] g = ([], g)"
| "gc_pass nowT tmo (t # ts) g =
     (case gc_thread nowT tmo (t, g) of (t', g1) \<Rightarrow>
        (case gc_pass nowT tmo ts g1 of (ts', g2) \<Rightarrow> (t' # ts', g2)))"

definition gc_drain :: "recv_thread list \<Rightarrow> recv_thread list" where
  "gc_drain ts = map (\<lambda>t. t\<lparr>rt_eventsInProgress := []\<rparr>) ts"

section \<open>Taking events and statistics\<close>

text \<open>What a caller gets: the return value, and on 0 the event, its size, number and data id.\<close>

type_synonym got_event = "(buffer \<times> nat \<times> u64 \<times> u16) option"

definition item_out :: "reas_item \<Rightarrow> buffer \<times> nat \<times> u64 \<times> u16" where
  "item_out i = (ri_event i, ri_bytes i, ri_eventNum i, ri_dataId i)"

definition getEvent :: "reas_shared \<Rightarrow> int result \<times> got_event \<times> reas_shared" where
  "getEvent g =
     (case reas_dequeue g of
        (g', None) \<Rightarrow> (Ok (-1), None, g')
      | (g', Some item) \<Rightarrow> (Ok 0, Some (item_out item), g'))"

text \<open>
  \<open>recvEvent\<close> waits on the condition variable until an event arrives, the threads stop or \<open>wait_ms\<close>
  have passed.  Each element of the schedule is one wake up: what the other threads did to the shared
  state meanwhile, the stop flag and the clock then.  A schedule that runs out means still waiting.
\<close>

type_synonym wake_up = "(reas_shared \<Rightarrow> reas_shared) \<times> bool \<times> int"

fun recv_wait ::
  "int \<Rightarrow> nat \<Rightarrow> wake_up list \<Rightarrow> bool \<Rightarrow> bool \<Rightarrow> reas_item option \<Rightarrow> reas_shared \<Rightarrow>
     (reas_item option \<times> reas_shared) option" where
  "recv_wait nowT wait_ms ws stop overtime (Some item) g = Some (Some item, g)"
| "recv_wait nowT wait_ms ws stop overtime None g =
     (if stop \<or> overtime then Some (None, g)
      else case ws of
             [] \<Rightarrow> None
           | (env, stop', nextTimeT) # ws' \<Rightarrow>
               (case reas_dequeue (env g) of (g', eventItem) \<Rightarrow>
                  recv_wait nowT wait_ms ws' stop'
                    (wait_ms \<noteq> 0 \<and> nextTimeT - nowT > int wait_ms * 1000000) eventItem g'))"

definition recvEvent ::
  "int \<Rightarrow> nat \<Rightarrow> bool \<Rightarrow> wake_up list \<Rightarrow> reas_shared \<Rightarrow> (int result \<times> got_event \<times> reas_shared) option" where
  "recvEvent nowT wait_ms stop ws g =
     (case reas_dequeue g of (g1, eventItem) \<Rightarrow>
        (case recv_wait nowT wait_ms ws stop False eventItem g1 of
           None \<Rightarrow> None
         | Some (None, g2) \<Rightarrow> Some (Ok (-1), None, g2)
         | Some (Some item, g2) \<Rightarrow> Some (Ok 0, Some (item_out item), g2)))"

definition get_LostEvent :: "reas_shared \<Rightarrow> (u64 \<times> u16 \<times> nat) result \<times> reas_shared" where
  "get_LostEvent g =
     (case rs_lostEventsQueue g of
        [] \<Rightarrow> (Err NotFound ''Lost event queue is empty'', g)
      | e # es \<Rightarrow> (Ok e, g\<lparr>rs_lostEventsQueue := es\<rparr>))"

text \<open>
  \<open>get_FDStats\<close> walks \<open>fragmentsPerFd\<close> and reads \<open>portPerFd\<close> at the same index, which is undefined
  (\<open>None\<close>) when the port table is the shorter one.
\<close>

definition get_FDStats :: "bool \<Rightarrow> reas_shared \<Rightarrow> (u16 \<times> nat) list result option" where
  "get_FDStats threadsStop g =
     (if \<not> threadsStop then
        Some (Err LogicError ''This method should only be called after the threads have been stopped.'')
      else if length (rs_portPerFd g) < length (rs_fragmentsPerFd g) then None
      else Some (Ok (filter (\<lambda>(p, n). p \<noteq> 0) (zip (rs_portPerFd g) (rs_fragmentsPerFd g)))))"

record ReportedStats =
  rep_enqueueLoss :: u64
  rep_reassemblyLoss :: u64
  rep_eventSuccess :: u64
  rep_lastErrno :: int
  rep_grpcErrCnt :: int
  rep_dataErrCnt :: int
  rep_lastE2SARError :: E2SARErrorc
  rep_totalPackets :: u64
  rep_totalBytes :: u64
  rep_badHeaderDiscards :: u64

definition reas_getStats :: "reas_shared \<Rightarrow> ReportedStats" where
  "reas_getStats g = \<lparr>rep_enqueueLoss = rs_enqueueLoss g, rep_reassemblyLoss = rs_reassemblyLoss g,
     rep_eventSuccess = rs_eventSuccess g, rep_lastErrno = rs_lastErrno g,
     rep_grpcErrCnt = rs_grpcErrCnt g, rep_dataErrCnt = rs_dataErrCnt g,
     rep_lastE2SARError = rs_lastE2SARError g, rep_totalPackets = rs_totalPacketsReceived g,
     rep_totalBytes = rs_totalBytesReceived g, rep_badHeaderDiscards = rs_badHeaderDiscards g\<rparr>"

end
