(* ===== verification/E2SAR_Reassembly.thy ===== *)
theory E2SAR_Reassembly
  imports E2SAR_Reassembler
begin

text \<open>
  Correctness of the reassembler's data path: the well-formedness invariant of tables, queue and
  loss counters; that every step of a receive thread, the garbage collector and the user keeps it;
  and the reachable states of the whole component as an inductive relation over interleaved steps.
\<close>

section \<open>Well-formed states\<close>

definition item_ok :: "event_key \<times> reas_item \<Rightarrow> bool" where
  "item_ok e \<longleftrightarrow> fst e = item_key (snd e) \<and> length (ri_event (snd e)) = ri_bytes (snd e) \<and>
     ri_curBytes (snd e) \<noteq> ri_bytes (snd e) \<and> 0 < ri_numFragments (snd e)"

definition thread_ok :: "recv_thread \<Rightarrow> bool" where
  "thread_ok t \<longleftrightarrow> distinct (map fst (rt_eventsInProgress t)) \<and>
     (\<forall>e\<in>set (rt_eventsInProgress t). item_ok e) \<and> finite (rt_lostEvents t)"

definition queued_ok :: "reas_item \<Rightarrow> bool" where
  "queued_ok i \<longleftrightarrow> length (ri_event i) = ri_bytes i \<and> ri_curBytes i = ri_bytes i \<and> 0 < ri_numFragments i"

definition shared_ok :: "reas_shared \<Rightarrow> bool" where
  "shared_ok g \<longleftrightarrow> rs_eventQueueDepth g = length (rs_eventQueue g) \<and> (\<forall>i\<in>set (rs_eventQueue g). queued_ok i)"

text \<open>Two steps that keep a difference of counters keep it together.\<close>

lemma delta_trans:
  fixes a b c x y z :: "'x::ab_group_add"
  assumes "a + x = b + y" and "c + y = a + z"
  shows "c + x = b + z"
proof -
  have "a = b + y - x" "c = a + z - y" using assms by (simp_all add: eq_diff_eq)
  then show ?thesis by simp
qed

text \<open>All losses counted so far, of either kind.\<close>

definition losses :: "reas_shared \<Rightarrow> u64" where
  "losses g = rs_enqueueLoss g + rs_reassemblyLoss g"

definition lost_total :: "recv_thread list \<Rightarrow> nat" where
  "lost_total ts = sum_list (map (\<lambda>t. card (rt_lostEvents t)) ts)"

section \<open>Tables\<close>

lemma distinct_update_keys: "distinct (map fst xs) \<Longrightarrow> distinct (map fst (AList.update k v xs))"
  by (rule distinct_update)

lemma set_update_subset: "set (AList.update k v xs) \<subseteq> insert (k, v) (set xs)"
  by (induction xs) auto

lemma set_update_keys:
  "distinct (map fst xs) \<Longrightarrow> e \<in> set (AList.update k v xs) \<Longrightarrow> e = (k, v) \<or> (e \<in> set xs \<and> fst e \<noteq> k)"
  by (induction xs) (auto split: if_splits)

lemma set_delete_subset: "set (AList.delete k xs) \<subseteq> set xs"
  by (auto simp: AList.delete_eq)

lemma fst_not_in_delete: "e \<in> set (AList.delete k xs) \<Longrightarrow> fst e \<noteq> k"
  by (auto simp: AList.delete_eq)

section \<open>Logging a loss\<close>

lemma logLostEvent_cases:
  assumes "logLostEvent item b lost g = (lost', g')"
  obtains (known) "item_key item \<in> lost" "lost' = lost" "g' = g"
  | (new) "item_key item \<notin> lost" "lost' = insert (item_key item) lost" "losses g' = losses g + 1"
      "rs_lostEventsQueue g' = rs_lostEventsQueue g @ [(ri_eventNum item, ri_dataId item, ri_numFragments item)]"
      "rs_eventQueue g' = rs_eventQueue g" "rs_eventQueueDepth g' = rs_eventQueueDepth g"
  using assms by (auto simp: logLostEvent_def Let_def item_key_def losses_def split: if_splits)

lemma logLostEvent_shared: 
  "logLostEvent item b lost g = (lost', g') \<Longrightarrow>
     rs_eventQueue g' = rs_eventQueue g \<and> rs_eventQueueDepth g' = rs_eventQueueDepth g"
  by (erule logLostEvent_cases) auto

lemma logLostEvent_losses:
  assumes "logLostEvent item b lost g = (lost', g')" and "finite lost"
  shows "finite lost'" and "losses g' + word_of_nat (card lost) = losses g + word_of_nat (card lost')"
  using assms(1) by (cases rule: logLostEvent_cases; simp add: assms(2))+

lemma shared_ok_cong:
  "rs_eventQueue g' = rs_eventQueue g \<Longrightarrow> rs_eventQueueDepth g' = rs_eventQueueDepth g \<Longrightarrow>
     shared_ok g' = shared_ok g"
  by (simp add: shared_ok_def)

section \<open>Completing an item\<close>

lemma finish_item_ok:
  assumes f: "finish_item a item prog (t, g) = (t', g')"
    and d: "distinct (map fst prog)" and other: "\<And>e. e \<in> set prog \<Longrightarrow> fst e \<noteq> item_key item \<Longrightarrow> item_ok e"
    and self: "\<And>e. e \<in> set prog \<Longrightarrow> fst e = item_key item \<Longrightarrow> snd e = item"
    and item: "length (ri_event item) = ri_bytes item" "0 < ri_numFragments item"
    and ok: "finite (rt_lostEvents t)" "shared_ok g"
  shows "thread_ok t'" and "shared_ok g'"
    and "losses g' + word_of_nat (card (rt_lostEvents t)) = losses g + word_of_nat (card (rt_lostEvents t'))"
proof -
  have "thread_ok t' \<and> shared_ok g' \<and>
    losses g' + word_of_nat (card (rt_lostEvents t)) = losses g + word_of_nat (card (rt_lostEvents t'))"
  proof (cases "ri_curBytes item = ri_bytes item")
    case False
    then have "t' = t\<lparr>rt_eventsInProgress := prog\<rparr>" "g' = g"
      using f by (simp_all add: finish_item_def)
    then show ?thesis using d ok False other self item
      by (auto simp: thread_ok_def item_ok_def) metis+
  next
    case True
    obtain g1 ret where e: "reas_enqueue a item g = (g1, ret)" by fastforce
    obtain lost g2 where l: "(if ret = 1 then logLostEvent item True (rt_lostEvents t) g1
        else (rt_lostEvents t, g1)) = (lost, g2)" by fastforce
    have g1: "shared_ok g1" "losses g1 = losses g"
      using e ok(2) True item by (auto simp: reas_enqueue_def shared_ok_def queued_ok_def losses_def split: if_splits)
    have g2: "shared_ok g2 \<and> finite lost \<and>
        losses g2 + word_of_nat (card (rt_lostEvents t)) = losses g1 + word_of_nat (card lost)"
    proof (cases "ret = 1")
      case True
      then have ll: "logLostEvent item True (rt_lostEvents t) g1 = (lost, g2)" using l by simp
      show ?thesis
        using logLostEvent_losses[OF ll ok(1)] logLostEvent_shared[OF ll] g1(1) shared_ok_cong by blast
    next
      case False
      then show ?thesis using l g1 ok(1) by simp
    qed
    have t': "t' = t\<lparr>rt_eventsInProgress := AList.delete (item_key item) prog, rt_lostEvents := lost\<rparr>"
      and g': "g' = g2\<lparr>rs_eventSuccess := rs_eventSuccess g2 + 1\<rparr>"
      using f e l True by (simp_all add: finish_item_def Let_def item_key_def)
    have "thread_ok t'"
      using t' d g2 other set_delete_subset[of "item_key item" prog] fst_not_in_delete[of _ "item_key item" prog]
      by (auto simp: thread_ok_def distinct_delete)
    then show ?thesis using g2 g1 g' t' by (simp add: shared_ok_def losses_def)
  qed
  then show "thread_ok t'" and "shared_ok g'"
    and "losses g' + word_of_nat (card (rt_lostEvents t)) = losses g + word_of_nat (card (rt_lostEvents t'))"
    by auto
qed


section \<open>One datagram keeps the invariant\<close>

text \<open>The datagrams that reach the reassembly proper, with their header and payload.\<close>

definition seg_in ::
  "byte_order \<Rightarrow> bool \<Rightarrow> recv_input \<Rightarrow> u8 list \<Rightarrow> REHdr \<times> int \<times> u8 list" where
  "seg_in h lb x d =
     (let start = (if lb then sizeof_LBHdr else 0);
          buf = recv_buffer x d;
          nbytes = int (length (take RECV_BUFFER_SIZE d)) - int (start + sizeof_REHdr)
      in (re_cast h (drop start buf), nbytes, slice_at (start + sizeof_REHdr) (nat nbytes) buf))"

definition count_packet :: "nat \<Rightarrow> u8 list \<Rightarrow> reas_shared \<Rightarrow> reas_shared" where
  "count_packet fd d g =
     g\<lparr>rs_fragmentsPerFd := (rs_fragmentsPerFd g)[fd := rs_fragmentsPerFd g ! fd + 1],
       rs_totalPacketsReceived := rs_totalPacketsReceived g + 1,
       rs_totalBytesReceived := rs_totalBytesReceived g + word_of_nat (length (take RECV_BUFFER_SIZE d))\<rparr>"

definition hdr_key :: "byte_order \<Rightarrow> REHdr \<Rightarrow> event_key" where
  "hdr_key h hdr = (re_get_eventNum h hdr, re_get_dataId h hdr)"

definition absorb :: "buffer \<Rightarrow> nat \<Rightarrow> reas_item \<Rightarrow> reas_item" where
  "absorb ev n item = item\<lparr>ri_event := ev, ri_numFragments := ri_numFragments item + 1,
     ri_curBytes := ri_curBytes item + n\<rparr>"

lemma recv_one_fail:
  "in_outcome x = RecvFail e \<Longrightarrow> recv_one h lb x (t, g) =
     Some (t, g\<lparr>rs_dataErrCnt := rs_dataErrCnt g + 1, rs_lastErrno := e\<rparr>)"
  by (simp add: recv_one_def)

lemma recv_one_data:
  assumes "in_outcome x = RecvData d" and "seg_in h lb x d = (hdr, nbytes, payload)"
    and "locate_item h (in_now x) hdr (rt_eventsInProgress t) = (item, prog)"
  shows "recv_one h lb x (t, g) =
    (if in_fd x \<ge> length (rs_fragmentsPerFd g) then None
     else if \<not> re_validate hdr then
       Some (t, (count_packet (in_fd x) d g)\<lparr>rs_badHeaderDiscards := rs_badHeaderDiscards g + 1\<rparr>)
     else if nbytes < 0 then None
     else case memcpy_at (unat (re_get_bufferOffset h hdr)) payload (ri_event item) of
            None \<Rightarrow> None
          | Some ev \<Rightarrow> Some (finish_item (in_alloc x) (absorb ev (nat nbytes) item)
              (AList.update (hdr_key h hdr) (absorb ev (nat nbytes) item) prog)
              (t, count_packet (in_fd x) d g)))"
  using assms unfolding seg_in_def Let_def prod.inject
  by (clarsimp simp: recv_one_def count_packet_def hdr_key_def absorb_def Let_def cong: if_cong option.case_cong)

lemma locate_item_cases:
  assumes "locate_item h now hdr prog = (item, prog')"
  obtains (fresh) "item = initFromHeader h now hdr" "prog' = AList.update (hdr_key h hdr) item prog"
      "re_get_bufferOffset h hdr = 0 \<or> map_of prog (hdr_key h hdr) = None"
  | (known) "map_of prog (hdr_key h hdr) = Some item" "prog' = prog" "re_get_bufferOffset h hdr \<noteq> 0"
  using assms by (auto simp: locate_item_def hdr_key_def Let_def split: if_splits option.splits)

lemma item_key_init [simp]: "item_key (initFromHeader h now hdr) = hdr_key h hdr"
  by (simp add: item_key_def initFromHeader_def hdr_key_def)

lemma item_key_absorb [simp]: "item_key (absorb ev n i) = item_key i"
  by (simp add: item_key_def absorb_def)

lemma absorb_simps [simp]:
  "ri_event (absorb ev n i) = ev" "ri_bytes (absorb ev n i) = ri_bytes i"
  "ri_curBytes (absorb ev n i) = ri_curBytes i + n" "ri_numFragments (absorb ev n i) = ri_numFragments i + 1"
  "ri_eventNum (absorb ev n i) = ri_eventNum i" "ri_dataId (absorb ev n i) = ri_dataId i"
  by (simp_all add: absorb_def)

text \<open>The located item has the key of the header, a buffer of its size, and the table stays keyed.\<close>

lemma locate_item_ok:
  assumes l: "locate_item h now hdr prog = (item, prog')"
    and d: "distinct (map fst prog)" and ok: "\<forall>e\<in>set prog. item_ok e"
  shows "item_key item = hdr_key h hdr" and "length (ri_event item) = ri_bytes item"
    and "distinct (map fst prog')" and "\<And>e. e \<in> set prog' \<Longrightarrow> fst e \<noteq> hdr_key h hdr \<Longrightarrow> item_ok e"
proof -
  have "item_key item = hdr_key h hdr \<and> length (ri_event item) = ri_bytes item \<and> distinct (map fst prog') \<and>
    (\<forall>e\<in>set prog'. fst e \<noteq> hdr_key h hdr \<longrightarrow> item_ok e)"
    using l
  proof (cases rule: locate_item_cases)
    case fresh
    then show ?thesis
      using distinct_update_keys[OF d] set_update_keys[OF d] ok by (fastforce simp: initFromHeader_def item_key_def hdr_key_def)
  next
    case known
    then have "(hdr_key h hdr, item) \<in> set prog" by (meson map_of_SomeD)
    then have "item_ok (hdr_key h hdr, item)" using ok by blast
    then show ?thesis using d ok known by (simp add: item_ok_def)
  qed
  then show "item_key item = hdr_key h hdr" and "length (ri_event item) = ri_bytes item"
    and "distinct (map fst prog')" and "\<And>e. e \<in> set prog' \<Longrightarrow> fst e \<noteq> hdr_key h hdr \<Longrightarrow> item_ok e"
    by auto
qed

lemma count_packet_simps [simp]:
  "rs_eventQueue (count_packet fd d g) = rs_eventQueue g"
  "rs_eventQueueDepth (count_packet fd d g) = rs_eventQueueDepth g"
  "losses (count_packet fd d g) = losses g"
  "rs_badHeaderDiscards (count_packet fd d g) = rs_badHeaderDiscards g"
  "length (rs_fragmentsPerFd (count_packet fd d g)) = length (rs_fragmentsPerFd g)"
  by (simp_all add: count_packet_def losses_def)

lemma recv_one_ok:
  assumes r: "recv_one h lb x (t, g) = Some (t', g')" and t: "thread_ok t" and g: "shared_ok g"
  shows "thread_ok t' \<and> shared_ok g' \<and>
    losses g' + word_of_nat (card (rt_lostEvents t)) = losses g + word_of_nat (card (rt_lostEvents t'))"
proof (cases "in_outcome x")
  case (RecvFail e)
  then show ?thesis using r t g by (auto simp: recv_one_fail shared_ok_def losses_def)
next
  case (RecvData d)
  obtain hdr nbytes payload where s: "seg_in h lb x d = (hdr, nbytes, payload)" by (metis prod_cases3)
  obtain item prog where l: "locate_item h (in_now x) hdr (rt_eventsInProgress t) = (item, prog)" by fastforce
  have T: "distinct (map fst (rt_eventsInProgress t))" "\<forall>e\<in>set (rt_eventsInProgress t). item_ok e"
    "finite (rt_lostEvents t)" using t by (simp_all add: thread_ok_def)
  note L = locate_item_ok[OF l T(1,2)]
  note eq = r[unfolded recv_one_data[OF RecvData s l]]
  show ?thesis
  proof (cases "re_validate hdr")
    case False
    then show ?thesis using eq t g by (auto simp: shared_ok_def losses_def count_packet_def split: if_splits)
  next
    case True
    then obtain ev where ev: "memcpy_at (unat (re_get_bufferOffset h hdr)) payload (ri_event item) = Some ev"
      and fin: "finish_item (in_alloc x) (absorb ev (nat nbytes) item)
        (AList.update (hdr_key h hdr) (absorb ev (nat nbytes) item) prog) (t, count_packet (in_fd x) d g) = (t', g')"
      using eq by (auto split: if_splits option.splits)
    have len: "length ev = ri_bytes item" using ev L(2) by (simp add: memcpy_at_Some)
    have sg: "shared_ok (count_packet (in_fd x) d g)" using g by (simp add: shared_ok_def)
    let ?it = "absorb ev (nat nbytes) item" and ?pr = "AList.update (hdr_key h hdr) (absorb ev (nat nbytes) item) prog"
    have other: "item_ok e" if "e \<in> set ?pr" "fst e \<noteq> item_key ?it" for e
      using set_update_keys[OF L(3) that(1)] L(4)[of e] that(2) L(1) by auto
    have self: "snd e = ?it" if "e \<in> set ?pr" "fst e = item_key ?it" for e
      using set_update_keys[OF L(3) that(1)] that(2) L(1) by auto
    have len': "length (ri_event ?it) = ri_bytes ?it" "0 < ri_numFragments ?it" using len by simp_all
    show ?thesis
      using finish_item_ok[OF fin distinct_update_keys[OF L(3)] other self len' T(3) sg] by simp
  qed
qed

section \<open>Garbage collection\<close>

definition expired :: "int \<Rightarrow> int \<Rightarrow> reas_item \<Rightarrow> bool" where
  "expired nowT tmo i \<longleftrightarrow> cpp_div (nowT - ri_firstSegment i) 1000000 > tmo"

text \<open>The table afterwards is the old one without the expired items, in the old order.\<close>

lemma gc_scan_table:
  "gc_scan nowT tmo prog lost g = (prog', lost', g') \<Longrightarrow>
     prog' = filter (\<lambda>e. \<not> expired nowT tmo (snd e)) prog"
proof (induction prog arbitrary: lost g prog' lost' g')
  case Nil
  then show ?case by simp
next
  case (Cons e prog)
  then show ?case
    by (cases e) (auto simp: expired_def split: if_splits prod.splits)
qed

lemma gc_scan_lost:
  "gc_scan nowT tmo prog lost g = (prog', lost', g') \<Longrightarrow>
     lost' = lost \<union> item_key ` snd ` set (filter (\<lambda>e. expired nowT tmo (snd e)) prog)"
proof (induction prog arbitrary: lost g prog' lost' g')
  case Nil
  then show ?case by simp
next
  case (Cons e prog)
  obtain k i where e: "e = (k, i)" by fastforce
  obtain l1 g1 where l: "logLostEvent i False lost g = (l1, g1)" by fastforce
  have l1: "l1 = insert (item_key i) lost"
    using l by (cases rule: logLostEvent_cases) auto
  show ?case
  proof (cases "expired nowT tmo i")
    case True
    then have "gc_scan nowT tmo prog l1 g1 = (prog', lost', g')"
      using Cons.prems e l by (simp add: expired_def)
    from Cons.IH[OF this] show ?thesis using True l1 e by auto
  next
    case False
    then obtain p2 where "gc_scan nowT tmo prog lost g = (p2, lost', g')"
      using Cons.prems e by (auto simp: expired_def split: prod.splits)
    from Cons.IH[OF this] show ?thesis using False e by auto
  qed
qed

lemma gc_scan_shared:
  "gc_scan nowT tmo prog lost g = (prog', lost', g') \<Longrightarrow> finite lost \<Longrightarrow>
     rs_eventQueue g' = rs_eventQueue g \<and> rs_eventQueueDepth g' = rs_eventQueueDepth g \<and> finite lost' \<and>
     losses g' + word_of_nat (card lost) = losses g + word_of_nat (card lost')"
proof (induction prog arbitrary: lost g prog' lost' g')
  case Nil
  then show ?case by simp
next
  case (Cons e prog)
  obtain k i where e: "e = (k, i)" by fastforce
  obtain l1 g1 where l: "logLostEvent i False lost g = (l1, g1)" by fastforce
  note ll = logLostEvent_losses[OF l Cons.prems(2)] logLostEvent_shared[OF l]
  show ?case
  proof (cases "expired nowT tmo i")
    case True
    then have "gc_scan nowT tmo prog l1 g1 = (prog', lost', g')"
      using Cons.prems(1) e l by (simp add: expired_def)
    note IH = Cons.IH[OF this ll(1)]
    then show ?thesis using ll(3) delta_trans[OF ll(2)] by auto
  next
    case False
    then obtain p2 where "gc_scan nowT tmo prog lost g = (p2, lost', g')"
      using Cons.prems(1) e by (auto simp: expired_def split: prod.splits)
    from Cons.IH[OF this Cons.prems(2)] show ?thesis .
  qed
qed

text \<open>Every expired event that was not logged before is logged once, in table order, as a reassembly loss.\<close>

definition lost_entry :: "reas_item \<Rightarrow> u64 \<times> u16 \<times> nat" where
  "lost_entry i = (ri_eventNum i, ri_dataId i, ri_numFragments i)"

definition newly_lost :: "int \<Rightarrow> int \<Rightarrow> event_key set \<Rightarrow> (event_key \<times> reas_item) list \<Rightarrow> reas_item list" where
  "newly_lost nowT tmo lost prog = map snd (filter (\<lambda>e. expired nowT tmo (snd e) \<and> fst e \<notin> lost) prog)"

lemma newly_lost_insert:
  "k \<notin> fst ` set prog \<Longrightarrow> newly_lost nowT tmo (insert k lost) prog = newly_lost nowT tmo lost prog"
  unfolding newly_lost_def by (intro arg_cong[of _ _ "map snd"] filter_cong) auto

lemma gc_scan_logs:
  assumes "gc_scan nowT tmo prog lost g = (prog', lost', g')" and "distinct (map fst prog)"
    and "\<forall>e\<in>set prog. fst e = item_key (snd e)"
  shows "rs_lostEventsQueue g' = rs_lostEventsQueue g @ map lost_entry (newly_lost nowT tmo lost prog) \<and>
    rs_reassemblyLoss g' = rs_reassemblyLoss g + word_of_nat (length (newly_lost nowT tmo lost prog)) \<and>
    rs_enqueueLoss g' = rs_enqueueLoss g \<and> rs_eventSuccess g' = rs_eventSuccess g"
  using assms
proof (induction prog arbitrary: lost g prog' lost' g')
  case Nil
  then show ?case by (simp add: newly_lost_def)
next
  case (Cons e prog)
  obtain k i where e: "e = (k, i)" by fastforce
  have k: "k = item_key i" "k \<notin> fst ` set prog" using Cons.prems e by auto
  have rest: "distinct (map fst prog)" "\<forall>e\<in>set prog. fst e = item_key (snd e)" using Cons.prems by auto
  show ?case
  proof (cases "expired nowT tmo i")
    case False
    then obtain p2 where "gc_scan nowT tmo prog lost g = (p2, lost', g')"
      using Cons.prems(1) e by (auto simp: expired_def split: prod.splits)
    from Cons.IH[OF this rest] False e show ?thesis by (simp add: newly_lost_def)
  next
    case True
    obtain l1 g1 where l: "logLostEvent i False lost g = (l1, g1)" by fastforce
    then have sc: "gc_scan nowT tmo prog l1 g1 = (prog', lost', g')"
      using Cons.prems(1) e True by (simp add: expired_def)
    note IH = Cons.IH[OF sc rest]
    show ?thesis
    proof (cases "k \<in> lost")
      case known: True
      then have "l1 = lost" "g1 = g" using l k(1) by (auto simp: logLostEvent_def item_key_def)
      then show ?thesis using IH known e by (simp add: newly_lost_def)
    next
      case new: False
      then have "l1 = insert k lost" and g1: "rs_lostEventsQueue g1 = rs_lostEventsQueue g @ [lost_entry i]"
        "rs_reassemblyLoss g1 = rs_reassemblyLoss g + 1" "rs_enqueueLoss g1 = rs_enqueueLoss g"
        "rs_eventSuccess g1 = rs_eventSuccess g"
        using l k(1) by (auto simp: logLostEvent_def item_key_def lost_entry_def Let_def)
      then have "newly_lost nowT tmo l1 prog = newly_lost nowT tmo lost prog"
        using newly_lost_insert[OF k(2)] by simp
      moreover have "newly_lost nowT tmo lost (e # prog) = i # newly_lost nowT tmo lost prog"
        using True new e by (simp add: newly_lost_def)
      ultimately show ?thesis using IH g1 by (simp add: algebra_simps)
    qed
  qed
qed

lemma gc_thread_ok:
  assumes r: "gc_thread nowT tmo (t, g) = (t', g')" and t: "thread_ok t" and g: "shared_ok g"
  shows "thread_ok t' \<and> shared_ok g' \<and>
    losses g' + word_of_nat (card (rt_lostEvents t)) = losses g + word_of_nat (card (rt_lostEvents t'))"
proof -
  obtain prog lost g1 where s: "gc_scan nowT tmo (rt_eventsInProgress t) (rt_lostEvents t) g = (prog, lost, g1)"
    by (metis prod_cases3)
  have f: "finite (rt_lostEvents t)" using t by (simp add: thread_ok_def)
  note S = gc_scan_shared[OF s f] gc_scan_table[OF s]
  have "t' = t\<lparr>rt_eventsInProgress := prog, rt_lostEvents := lost\<rparr>" "g' = g1"
    using r s by (simp_all add: gc_thread_def)
  then show ?thesis using S t g by (auto simp: thread_ok_def shared_ok_def distinct_map_filter)
qed

section \<open>Interleaved threads\<close>

text \<open>
  The receive threads, the collector and the user take turns: each step is one datagram handled by
  one receive thread, one pass of the collector over all threads, or one call of the user.  Accesses
  to a table are guarded by its mutex in the code, so a step is what runs between two of them; the
  exception, a copy into a buffer that the collector frees meanwhile, is outside this relation and the
  subject of \<open>E2SAR_Memory\<close>.
\<close>

type_synonym reas_system = "recv_thread list \<times> reas_shared"

inductive reas_step :: "byte_order \<Rightarrow> bool \<Rightarrow> int \<Rightarrow> reas_system \<Rightarrow> reas_system \<Rightarrow> bool"
  for h :: byte_order and lb :: bool and tmo :: int where
  step_recv: "i < length ts \<Longrightarrow> recv_one h lb x (ts ! i, g) = Some (t', g') \<Longrightarrow>
     reas_step h lb tmo (ts, g) (ts[i := t'], g')"
| step_gc: "gc_pass nowT tmo ts g = (ts', g') \<Longrightarrow> reas_step h lb tmo (ts, g) (ts', g')"
| step_get: "getEvent g = (r, out, g') \<Longrightarrow> reas_step h lb tmo (ts, g) (ts, g')"
| step_lost: "get_LostEvent g = (r, g') \<Longrightarrow> reas_step h lb tmo (ts, g) (ts, g')"

inductive_cases reas_stepE: "reas_step h lb tmo (ts, g) (ts', g')"

definition reas_initial :: "nat list \<Rightarrow> u16 list \<Rightarrow> recv_thread list \<Rightarrow> reas_system" where
  "reas_initial frags ports ts =
     (map (\<lambda>t. t\<lparr>rt_eventsInProgress := [], rt_lostEvents := {}\<rparr>) ts,
      reas_shared_new\<lparr>rs_fragmentsPerFd := frags, rs_portPerFd := ports\<rparr>)"

inductive reas_reachable :: "byte_order \<Rightarrow> bool \<Rightarrow> int \<Rightarrow> reas_system \<Rightarrow> bool"
  for h :: byte_order and lb :: bool and tmo :: int where
  reach_init: "reas_reachable h lb tmo (reas_initial frags ports ts)"
| reach_step: "reas_reachable h lb tmo s \<Longrightarrow> reas_step h lb tmo s s' \<Longrightarrow> reas_reachable h lb tmo s'"

definition system_ok :: "reas_system \<Rightarrow> bool" where
  "system_ok s \<longleftrightarrow> (\<forall>t\<in>set (fst s). thread_ok t) \<and> shared_ok (snd s) \<and>
     losses (snd s) = word_of_nat (lost_total (fst s))"

lemma lost_total_update:
  "i < length ts \<Longrightarrow> lost_total (ts[i := t']) + card (rt_lostEvents (ts ! i)) =
     lost_total ts + card (rt_lostEvents t')"
proof (induction ts arbitrary: i)
  case Nil
  then show ?case by simp
next
  case (Cons t ts)
  then show ?case by (cases i) (fastforce simp: lost_total_def)+
qed

lemma gc_pass_ok:
  assumes "gc_pass nowT tmo ts g = (ts', g')" and "\<forall>t\<in>set ts. thread_ok t" and "shared_ok g"
  shows "(\<forall>t\<in>set ts'. thread_ok t) \<and> shared_ok g' \<and>
    losses g' + word_of_nat (lost_total ts) = losses g + word_of_nat (lost_total ts')"
  using assms
proof (induction ts arbitrary: g ts' g')
  case Nil
  then show ?case by simp
next
  case (Cons t ts)
  obtain t1 g1 where a: "gc_thread nowT tmo (t, g) = (t1, g1)" by fastforce
  obtain ts2 g2 where b: "gc_pass nowT tmo ts g1 = (ts2, g2)" by fastforce
  have res: "ts' = t1 # ts2" "g' = g2" using Cons.prems(1) a b by simp_all
  have A: "thread_ok t1 \<and> shared_ok g1 \<and>
      losses g1 + word_of_nat (card (rt_lostEvents t)) = losses g + word_of_nat (card (rt_lostEvents t1))"
    using gc_thread_ok[OF a] Cons.prems by simp
  have B: "(\<forall>t\<in>set ts2. thread_ok t) \<and> shared_ok g2 \<and>
      losses g2 + word_of_nat (lost_total ts) = losses g1 + word_of_nat (lost_total ts2)"
    using Cons.IH[OF b] A Cons.prems by simp
  have "losses g2 + (word_of_nat (lost_total ts) + word_of_nat (card (rt_lostEvents t))) =
      losses g + (word_of_nat (lost_total ts2) + word_of_nat (card (rt_lostEvents t1)))"
    using A B by (metis (no_types, lifting) add.assoc add.commute)
  then show ?case using A B res by (simp add: lost_total_def add.commute)
qed

lemma reas_step_ok:
  assumes "reas_step h lb tmo s s'" and "system_ok s"
  shows "system_ok s'"
  using assms
proof (induction rule: reas_step.induct)
  case (step_recv i ts x g t' g')
  have ti: "thread_ok (ts ! i)" and g: "shared_ok g" and l: "losses g = word_of_nat (lost_total ts)"
    using step_recv by (auto simp: system_ok_def)
  note R = recv_one_ok[OF step_recv(2) ti g]
  have "word_of_nat (lost_total (ts[i := t'])) + word_of_nat (card (rt_lostEvents (ts ! i))) =
      (word_of_nat (lost_total ts) + word_of_nat (card (rt_lostEvents t')) :: u64)"
    using lost_total_update[OF step_recv(1), of t'] by (metis of_nat_add)
  then have "losses g' = word_of_nat (lost_total (ts[i := t']))"
    using R l by (metis add_right_cancel)
  moreover have "\<forall>t\<in>set (ts[i := t']). thread_ok t"
    using step_recv R set_update_subset_insert[of ts i t'] by (auto simp: system_ok_def)
  ultimately show ?case using R by (simp add: system_ok_def)
next
  case (step_gc nowT ts g ts' g')
  then show ?case using gc_pass_ok[OF step_gc(1)] by (auto simp: system_ok_def)
next
  case (step_get g r out g' ts)
  then show ?case
    by (auto simp: system_ok_def getEvent_def reas_dequeue_def shared_ok_def losses_def split: list.splits)
next
  case (step_lost g r g' ts)
  then show ?case
    by (auto simp: system_ok_def get_LostEvent_def shared_ok_def losses_def split: list.splits)
qed

lemma reas_initial_ok: "system_ok (reas_initial frags ports ts)"
  by (auto simp: system_ok_def reas_initial_def thread_ok_def shared_ok_def reas_shared_new_def
      losses_def lost_total_def comp_def)

lemma reachable_ok: "reas_reachable h lb tmo s \<Longrightarrow> system_ok s"
  by (induction rule: reas_reachable.induct) (auto intro: reas_initial_ok reas_step_ok)

end
