(* ===== verification/E2SAR_DataPlane.thy ===== *)
theory E2SAR_DataPlane
  imports E2SAR_Segmenter E2SAR_Reassembly
begin

text \<open>
  Segmenter and reassembler together.  The abstract view of an event in assembly is the set of its
  fragments that have been copied since its item was started (\<open>holds\<close>); the lemmas show that one
  received fragment adds itself to that set, that fragment 0 starts the set afresh, and that the item
  is complete exactly when the set is full.  From this follow delivery for every order of arrival in
  which fragment 0 comes first, and the loss of the event for every order in which it does not.
\<close>

section \<open>The abstract state of an item\<close>

definition holds :: "nat \<Rightarrow> u8 list \<Rightarrow> event_key \<Rightarrow> nat set \<Rightarrow> reas_item \<Rightarrow> bool" where
  "holds m ev k S item \<longleftrightarrow>
     item_key item = k \<and> ri_bytes item = length ev \<and> length (ri_event item) = length ev \<and>
     (\<forall>j<length ev. ri_event item ! j = (if j div m \<in> S then Some (ev ! j) else None)) \<and>
     ri_curBytes item = (\<Sum>i\<in>S. frag_len m (length ev) i)"

definition all_frags :: "nat \<Rightarrow> u8 list \<Rightarrow> nat set" where
  "all_frags m ev = {..<numBuffers m (length ev)}"

lemma sum_frag_len:
  assumes "0 < m"
  shows "k \<le> numBuffers m n \<Longrightarrow> (\<Sum>i<k. frag_len m n i) = min (k * m) n"
proof (induction k)
  case 0
  then show ?case by simp
next
  case (Suc k)
  then have "k * m < n" using less_numBuffers[OF assms, of k n] by simp
  then show ?case using Suc by (auto simp: frag_len_def min_def)
qed

lemma sum_all_frags: "0 < m \<Longrightarrow> (\<Sum>i\<in>all_frags m ev. frag_len m (length ev) i) = length ev"
  using sum_frag_len[of m "numBuffers m (length ev)" "length ev"] numBuffers_bounds(1)[of m "length ev"]
  by (simp add: all_frags_def min_absorb2)

lemma sum_frags_full:
  assumes "0 < m" and "S \<subseteq> all_frags m ev"
  shows "(\<Sum>i\<in>S. frag_len m (length ev) i) = length ev \<longleftrightarrow> S = all_frags m ev"
proof
  assume eq: "(\<Sum>i\<in>S. frag_len m (length ev) i) = length ev"
  show "S = all_frags m ev"
  proof (rule ccontr)
    assume "S \<noteq> all_frags m ev"
    then obtain j where j: "j \<in> all_frags m ev" "j \<notin> S" using assms(2) by blast
    have fin: "finite (all_frags m ev)" by (simp add: all_frags_def)
    have "0 < frag_len m (length ev) j"
      using frag_range(2)[OF assms(1), of j "length ev"] j(1) by (simp add: all_frags_def)
    then have "(\<Sum>i\<in>S. frag_len m (length ev) i) < (\<Sum>i\<in>all_frags m ev. frag_len m (length ev) i)"
      by (intro sum_strict_mono2[OF fin assms(2), of j]) (use j in auto)
    then show False using eq sum_all_frags[OF assms(1)] by simp
  qed
next
  assume "S = all_frags m ev"
  then show "(\<Sum>i\<in>S. frag_len m (length ev) i) = length ev" using sum_all_frags[OF assms(1)] by simp
qed

lemma holds_complete:
  assumes "0 < m" and "S \<subseteq> all_frags m ev" and "holds m ev k S item"
  shows "ri_curBytes item = ri_bytes item \<longleftrightarrow> S = all_frags m ev"
  using assms sum_frags_full by (simp add: holds_def)

lemma div_in_all_frags: "0 < m \<Longrightarrow> j < length ev \<Longrightarrow> j div m \<in> all_frags m ev"
  unfolding all_frags_def using less_numBuffers[of m "j div m" "length ev"]
  by (simp add: div_mult2_eq le_less_trans[OF div_times_less_eq_dividend])

lemma holds_full_event:
  assumes "0 < m" and "holds m ev k (all_frags m ev) item"
  shows "ri_event item = map Some ev"
  using assms div_in_all_frags by (intro nth_equalityI) (auto simp: holds_def)

lemma frag_cell:
  assumes "0 < m" and "j < n"
  shows "i * m \<le> j \<and> j < i * m + frag_len m n i \<longleftrightarrow> j div m = i"
proof
  assume a: "i * m \<le> j \<and> j < i * m + frag_len m n i"
  then have "i \<le> j div m" using assms by (simp add: less_eq_div_iff_mult_less_eq)
  moreover have "j < Suc i * m" using a by (auto simp: frag_len_def)
  then have "j div m < Suc i" using assms by (simp add: div_less_iff_less_mult)
  ultimately show "j div m = i" by linarith
next
  assume i: "j div m = i"
  have "j = i * m + j mod m" using i by auto
  moreover have "j mod m < m" using assms by simp
  ultimately show "i * m \<le> j \<and> j < i * m + frag_len m n i"
    using assms(2) by (auto simp: frag_len_def min_def)
qed

lemma holds_absorb:
  assumes m: "0 < m" and i: "i \<in> all_frags m ev" and new: "i \<notin> S" and fin: "finite S"
    and h: "holds m ev k S item"
  obtains b where "memcpy_at (i * m) (frag_payload m (length ev) ev i) (ri_event item) = Some b"
    and "holds m ev k (insert i S) (absorb b (frag_len m (length ev) i) item)"
proof -
  let ?p = "frag_payload m (length ev) ev i" and ?n = "length ev"
  have iN: "i < numBuffers m ?n" using i by (simp add: all_frags_def)
  have lp: "length ?p = frag_len m ?n i" by (rule length_frag_payload[OF m iN order_refl])
  have range: "i * m + frag_len m ?n i \<le> ?n" using frag_range(1)[OF m iN] by (simp add: frag_off_def)
  have le: "i * m + length ?p \<le> length (ri_event item)" using range lp h by (simp add: holds_def)
  let ?b = "buf_write (i * m) ?p (ri_event item)"
  have cells: "?b ! j = (if j div m \<in> insert i S then Some (ev ! j) else None)" if j: "j < ?n" for j
  proof (cases "j div m = i")
    case True
    then have r: "i * m \<le> j" "j < i * m + frag_len m ?n i" using frag_cell[OF m j, of i] by auto
    then have "?p ! (j - i * m) = ev ! j"
      using range lp by (simp add: frag_payload_def frag_off_def slice_at_def)
    then show ?thesis using r lp le j h True by (simp add: nth_buf_write holds_def)
  next
    case False
    then have "\<not> (i * m \<le> j \<and> j < i * m + length ?p)" using frag_cell[OF m j, of i] lp by simp
    then have "?b ! j = ri_event item ! j" using le j h by (auto simp: nth_buf_write holds_def)
    then show ?thesis using False j h by (simp add: holds_def)
  qed
  have "holds m ev k (insert i S) (absorb ?b (frag_len m ?n i) item)"
    using h cells le new fin by (simp add: holds_def)
  then show ?thesis using that[of ?b] le by (simp add: memcpy_at_def)
qed

section \<open>Datagrams of one event\<close>

text \<open>Input \<open>x\<close> carries fragment \<open>i\<close> of event \<open>ev\<close> under key \<open>k\<close>; or it does not concern \<open>k\<close>.\<close>

definition carries ::
  "byte_order \<Rightarrow> bool \<Rightarrow> nat \<Rightarrow> u8 list \<Rightarrow> event_key \<Rightarrow> recv_input \<Rightarrow> nat \<Rightarrow> bool" where
  "carries h lb m ev k x i \<longleftrightarrow> (case in_outcome x of RecvFail _ \<Rightarrow> False | RecvData d \<Rightarrow>
     (case seg_in h lb x d of (hdr, nbytes, payload) \<Rightarrow>
        re_validate hdr \<and> hdr_key h hdr = k \<and> unat (re_get_bufferOffset h hdr) = i * m \<and>
        unat (re_get_bufferLength h hdr) = length ev \<and> nbytes = int (frag_len m (length ev) i) \<and>
        payload = frag_payload m (length ev) ev i))"

definition foreign :: "byte_order \<Rightarrow> bool \<Rightarrow> event_key \<Rightarrow> recv_input \<Rightarrow> bool" where
  "foreign h lb k x \<longleftrightarrow> (case in_outcome x of RecvFail _ \<Rightarrow> True | RecvData d \<Rightarrow>
     (case seg_in h lb x d of (hdr, nbytes, payload) \<Rightarrow> \<not> re_validate hdr \<or> hdr_key h hdr \<noteq> k))"

text \<open>The events of one key in the queue, and the two states an event can be in.\<close>

definition queued :: "event_key \<Rightarrow> reas_shared \<Rightarrow> reas_item list" where
  "queued k g = filter (\<lambda>i. item_key i = k) (rs_eventQueue g)"

definition in_assembly ::
  "nat \<Rightarrow> u8 list \<Rightarrow> event_key \<Rightarrow> reas_item list \<Rightarrow> nat set \<Rightarrow> recv_thread \<times> reas_shared \<Rightarrow> bool" where
  "in_assembly m ev k q S s \<longleftrightarrow> queued k (snd s) = q \<and> S \<noteq> all_frags m ev \<and> S \<subseteq> all_frags m ev \<and>
     (case map_of (rt_eventsInProgress (fst s)) k of
        None \<Rightarrow> S = {}
      | Some item \<Rightarrow> holds m ev k S item)"

definition delivered ::
  "u8 list \<Rightarrow> event_key \<Rightarrow> reas_item list \<Rightarrow> recv_thread \<times> reas_shared \<Rightarrow> bool" where
  "delivered ev k q s \<longleftrightarrow> map_of (rt_eventsInProgress (fst s)) k = None \<and>
     (\<exists>item. queued k (snd s) = q @ [item] \<and> item_out item = (map Some ev, length ev, fst k, snd k))"

definition reassembly_ok :: "recv_thread \<times> reas_shared \<Rightarrow> bool" where
  "reassembly_ok s \<longleftrightarrow> thread_ok (fst s) \<and> shared_ok (snd s)"

lemma reassembly_ok_step:
  "recv_one h lb x s = Some s' \<Longrightarrow> reassembly_ok s \<Longrightarrow> reassembly_ok s'"
  using recv_one_ok[of h lb x "fst s" "snd s" "fst s'" "snd s'"] by (simp add: reassembly_ok_def)

lemma queued_cong: "rs_eventQueue g' = rs_eventQueue g \<Longrightarrow> queued k g' = queued k g"
  by (simp add: queued_def)

text \<open>The effect of \<open>finish_item\<close> on the table and the queue.\<close>

lemma finish_item_effect:
  assumes "finish_item a item prog (t, g) = (t', g')"
  shows "map_of (rt_eventsInProgress t') =
      (if ri_curBytes item = ri_bytes item then (map_of prog)(item_key item := None) else map_of prog)"
    and "rs_eventQueue g' = (if ri_curBytes item = ri_bytes item \<and> a then rs_eventQueue g @ [item] else rs_eventQueue g)"
  using assms logLostEvent_shared
  by (auto simp: finish_item_def Let_def item_key_def delete_conv reas_enqueue_def
      split: if_splits prod.splits)

lemma foreign_step:
  assumes r: "recv_one h lb x (t, g) = Some (t', g')" and f: "foreign h lb k x"
    and ok: "reassembly_ok (t, g)"
  shows "map_of (rt_eventsInProgress t') k = map_of (rt_eventsInProgress t) k" and "queued k g' = queued k g"
proof -
  have "map_of (rt_eventsInProgress t') k = map_of (rt_eventsInProgress t) k \<and> queued k g' = queued k g"
  proof (cases "in_outcome x")
    case (RecvFail e)
    then show ?thesis using r by (auto simp: recv_one_fail queued_def)
  next
    case (RecvData d)
    obtain hdr nbytes payload where s: "seg_in h lb x d = (hdr, nbytes, payload)" by (metis prod_cases3)
    obtain item prog where l: "locate_item h (in_now x) hdr (rt_eventsInProgress t) = (item, prog)" by fastforce
    note eq = r[unfolded recv_one_data[OF RecvData s l]]
    show ?thesis
    proof (cases "re_validate hdr")
      case False
      then show ?thesis using eq by (auto simp: queued_def split: if_splits)
    next
      case True
      then have k: "hdr_key h hdr \<noteq> k" using f RecvData s by (simp add: foreign_def)
      have ik: "item_key item = hdr_key h hdr"
        using locate_item_ok(1)[OF l] ok by (simp add: reassembly_ok_def thread_ok_def)
      have look: "map_of prog k = map_of (rt_eventsInProgress t) k"
        using l by (cases rule: locate_item_cases) (use k in \<open>simp_all add: update_conv\<close>)
      obtain b where fin: "finish_item (in_alloc x) (absorb b (nat nbytes) item)
          (AList.update (hdr_key h hdr) (absorb b (nat nbytes) item) prog) (t, count_packet (in_fd x) d g) = (t', g')"
        using eq True by (auto split: if_splits option.splits)
      show ?thesis using finish_item_effect[OF fin] look k ik
        by (auto simp: update_conv queued_def)
    qed
  qed
  then show "map_of (rt_eventsInProgress t') k = map_of (rt_eventsInProgress t) k" and "queued k g' = queued k g"
    by auto
qed

lemma holds_init:
  assumes "unat (re_get_bufferLength h hdr) = length ev" and "hdr_key h hdr = k"
  shows "holds m ev k {} (initFromHeader h now hdr)"
  using assms by (simp add: holds_def) (simp add: initFromHeader_def new_buffer_def)

text \<open>One fragment of the event: it is added to the set, fragment 0 to an empty one.\<close>

definition after_frag :: "nat \<Rightarrow> nat set \<Rightarrow> nat set" where
  "after_frag i S = (if i = 0 then {0} else insert i S)"

lemma carries_step:
  assumes m: "0 < m" and st: "in_assembly m ev k q S (t, g)" and c: "carries h lb m ev k x i"
    and i: "i \<in> all_frags m ev" "i \<notin> S" and fd: "in_fd x < length (rs_fragmentsPerFd g)"
    and alloc: "in_alloc x"
  shows "\<exists>s'. recv_one h lb x (t, g) = Some s' \<and>
    length (rs_fragmentsPerFd (snd s')) = length (rs_fragmentsPerFd g) \<and>
    (if after_frag i S = all_frags m ev then delivered ev k q s' else in_assembly m ev k q (after_frag i S) s')"
proof -
  obtain d where d: "in_outcome x = RecvData d" using c by (auto simp: carries_def split: recv_outcome.splits)
  obtain hdr nbytes payload where s: "seg_in h lb x d = (hdr, nbytes, payload)" by (metis prod_cases3)
  have C: "re_validate hdr" "hdr_key h hdr = k" "unat (re_get_bufferOffset h hdr) = i * m"
    "unat (re_get_bufferLength h hdr) = length ev" "nbytes = int (frag_len m (length ev) i)"
    "payload = frag_payload m (length ev) ev i"
    using c d s by (simp_all add: carries_def)
  have off0: "re_get_bufferOffset h hdr = 0 \<longleftrightarrow> i = 0"
    using C(3) m by (metis mult_is_0 not_gr_zero unat_eq_zero)
  obtain item prog where l: "locate_item h (in_now x) hdr (rt_eventsInProgress t) = (item, prog)" by fastforce
  let ?S = "if i = 0 then {} else S"
  have S: "S \<subseteq> all_frags m ev" "S \<noteq> all_frags m ev" using st by (simp_all add: in_assembly_def)
  have fS: "finite S" using S(1) by (auto simp: all_frags_def intro: finite_subset)
  have hold: "holds m ev k ?S item"
    using l
  proof (cases rule: locate_item_cases)
    case fresh
    then have "?S = {}" using st off0 C(2) by (auto simp: in_assembly_def split: option.splits)
    then show ?thesis using fresh holds_init[OF C(4,2)] by simp
  next
    case known
    then show ?thesis using st off0 C(2) by (simp add: in_assembly_def)
  qed
  have ins: "insert i ?S = after_frag i S" by (simp add: after_frag_def)
  have "i \<notin> ?S" "finite ?S" using i(2) fS by auto
  from holds_absorb[OF m i(1) this hold] obtain b where
    b: "memcpy_at (i * m) (frag_payload m (length ev) ev i) (ri_event item) = Some b"
    and H: "holds m ev k (after_frag i S) (absorb b (frag_len m (length ev) i) item)"
    unfolding ins by blast
  let ?it = "absorb b (frag_len m (length ev) i) item"
  obtain t' g' where fin: "finish_item (in_alloc x) ?it (AList.update k ?it prog)
      (t, count_packet (in_fd x) d g) = (t', g')" by fastforce
  have run: "recv_one h lb x (t, g) = Some (t', g')"
    using recv_one_data[OF d s l, of g] C fd b fin by simp
  have fds: "length (rs_fragmentsPerFd g') = length (rs_fragmentsPerFd g)"
    using fin logLostEvent_def[of ?it] alloc
    by (auto simp: finish_item_def Let_def reas_enqueue_def count_packet_def split: if_splits)
  have sub: "after_frag i S \<subseteq> all_frags m ev" using S(1) i(1) by (auto simp: after_frag_def)
  have comp: "ri_curBytes ?it = ri_bytes ?it \<longleftrightarrow> after_frag i S = all_frags m ev"
    by (rule holds_complete[OF m sub H])
  have key: "item_key ?it = k" using H by (simp add: holds_def)
  have q: "queued k g = q" using st by (simp add: in_assembly_def)
  show ?thesis
  proof (cases "after_frag i S = all_frags m ev")
    case True
    have "ri_event ?it = map Some ev" by (rule holds_full_event[OF m H[unfolded True]])
    moreover have "ri_bytes ?it = length ev" using H by (simp add: holds_def)
    ultimately have out: "item_out ?it = (map Some ev, length ev, fst k, snd k)"
      using key by (auto simp: item_out_def item_key_def)
    then have "delivered ev k q (t', g')"
      using finish_item_effect[OF fin] True comp key alloc q by (auto simp: delivered_def queued_def)
    then show ?thesis using run fds True by simp
  next
    case False
    then have "in_assembly m ev k q (after_frag i S) (t', g')"
      using finish_item_effect[OF fin] comp q H sub by (simp add: in_assembly_def queued_def update_conv)
    then show ?thesis using run fds False by simp
  qed
qed

section \<open>Runs over the datagrams of many events\<close>

text \<open>
  A trace labels every datagram with the event key and the fragment it carries; \<open>E\<close> gives the
  content of each event.  \<open>frags_of k\<close> is the order in which the fragments of event \<open>k\<close> arrive, and
  \<open>assembled\<close> the set of those that survive: fragment 0 restarts the item.
\<close>

type_synonym labelled = "recv_input \<times> event_key \<times> nat"

definition frags_of :: "event_key \<Rightarrow> labelled list \<Rightarrow> nat list" where
  "frags_of k xs = map (\<lambda>(x, k', i). i) (filter (\<lambda>(x, k', i). k' = k) xs)"

definition trace_ok ::
  "byte_order \<Rightarrow> bool \<Rightarrow> nat \<Rightarrow> (event_key \<Rightarrow> u8 list) \<Rightarrow> nat \<Rightarrow> labelled list \<Rightarrow> bool" where
  "trace_ok h lb m E nfd xs \<longleftrightarrow>
     list_all (\<lambda>(x, k, i). carries h lb m (E k) k x i \<and> i < numBuffers m (length (E k)) \<and>
       in_fd x < nfd \<and> in_alloc x \<and> distinct (frags_of k xs)) xs"

definition assembled :: "nat list \<Rightarrow> nat set" where
  "assembled is = fold after_frag is {}"

lemma assembled_snoc [simp]: "assembled (is @ [i]) = after_frag i (assembled is)"
  by (simp add: assembled_def)

lemma assembled_Nil [simp]: "assembled [] = {}"
  by (simp add: assembled_def)

lemma assembled_subset: "assembled is \<subseteq> set is"
  by (induction "is" rule: rev_induct) (auto simp: after_frag_def)

text \<open>Nothing is dropped when fragment 0 comes first; otherwise the fragments before it are.\<close>

lemma assembled_first: "distinct is \<Longrightarrow> is \<noteq> [] \<Longrightarrow> hd is = 0 \<Longrightarrow> assembled is = set is"
proof (induction "is" rule: rev_induct)
  case Nil
  then show ?case by simp
next
  case (snoc i "is")
  show ?case
  proof (cases "is = []")
    case True
    then show ?thesis using snoc.prems by (simp add: assembled_def after_frag_def)
  next
    case False
    then have "0 \<in> set is" using snoc.prems by (metis hd_append2 list.set_sel(1))
    then have "i \<noteq> 0" using snoc.prems(1) by (cases "i = 0") auto
    then show ?thesis using snoc False by (simp add: after_frag_def)
  qed
qed

lemma assembled_late: "distinct is \<Longrightarrow> 0 \<in> set is \<Longrightarrow> hd is \<noteq> 0 \<Longrightarrow> hd is \<notin> assembled is"
proof (induction "is" rule: rev_induct)
  case Nil
  then show ?case by simp
next
  case (snoc i "is")
  show ?case
  proof (cases "i = 0")
    case True
    then show ?thesis using snoc.prems by (simp add: after_frag_def)
  next
    case False
    then have "is \<noteq> []" using snoc.prems by auto
    then show ?thesis using snoc False by (auto simp: after_frag_def)
  qed
qed

lemma recv_run_snoc:
  "recv_run h lb (xs @ [x]) s = (case recv_run h lb xs s of None \<Rightarrow> None | Some s' \<Rightarrow> recv_one h lb x s')"
  by (induction xs arbitrary: s) (auto split: option.splits)

lemma carries_foreign: "carries h lb m ev k x i \<Longrightarrow> k' \<noteq> k \<Longrightarrow> foreign h lb k' x"
  by (auto simp: carries_def foreign_def split: recv_outcome.splits)

text \<open>The stage of event \<open>k\<close> once the fragments \<open>S\<close> are in.\<close>

definition stage ::
  "nat \<Rightarrow> u8 list \<Rightarrow> event_key \<Rightarrow> reas_item list \<Rightarrow> nat set \<Rightarrow> recv_thread \<times> reas_shared \<Rightarrow> bool" where
  "stage m ev k q S s \<longleftrightarrow>
     (if S = all_frags m ev then delivered ev k q s else in_assembly m ev k q S s)"

lemma stage_cong:
  "map_of (rt_eventsInProgress (fst s')) k = map_of (rt_eventsInProgress (fst s)) k \<Longrightarrow>
     queued k (snd s') = queued k (snd s) \<Longrightarrow> stage m ev k q S s' = stage m ev k q S s"
  by (simp add: stage_def delivered_def in_assembly_def)

lemma frags_of_snoc: "frags_of k (xs @ [(x, k', i)]) = (if k' = k then frags_of k xs @ [i] else frags_of k xs)"
  by (simp add: frags_of_def)

lemma trace_ok_snoc:
  assumes "trace_ok h lb m E nfd (xs @ [(x, k, i)])"
  shows "trace_ok h lb m E nfd xs" and "carries h lb m (E k) k x i" and "i \<in> all_frags m (E k)"
    and "in_fd x < nfd" and "in_alloc x" and "distinct (frags_of k xs @ [i])"
  using assms by (auto simp: trace_ok_def frags_of_snoc all_frags_def list_all_iff split: if_splits)

lemma recv_run_stages:
  assumes "0 < m" and "trace_ok h lb m E (length (rs_fragmentsPerFd g)) xs"
    and "reassembly_ok (t, g)" and "\<And>k. map_of (rt_eventsInProgress t) k = None"
  shows "\<exists>s'. recv_run h lb (map fst xs) (t, g) = Some s' \<and> reassembly_ok s' \<and>
     length (rs_fragmentsPerFd (snd s')) = length (rs_fragmentsPerFd g) \<and>
     (\<forall>k. E k \<noteq> [] \<longrightarrow> stage m (E k) k (queued k g) (assembled (frags_of k xs)) s')"
  using assms(2)
proof (induction xs rule: rev_induct)
  case Nil
  have "{} \<noteq> all_frags m (E k)" if "E k \<noteq> []" for k
    using less_numBuffers[OF assms(1), of 0 "length (E k)"] that by (auto simp: all_frags_def)
  then show ?case using assms(3,4) by (auto simp: stage_def in_assembly_def frags_of_def)
next
  case (snoc l xs)
  obtain x k i where l: "l = (x, k, i)" by (metis prod_cases3)
  note T = trace_ok_snoc[OF snoc.prems[unfolded l]]
  obtain t1 g1 where run: "recv_run h lb (map fst xs) (t, g) = Some (t1, g1)" and ok: "reassembly_ok (t1, g1)"
    and len: "length (rs_fragmentsPerFd g1) = length (rs_fragmentsPerFd g)"
    and st: "\<And>k. E k \<noteq> [] \<Longrightarrow> stage m (E k) k (queued k g) (assembled (frags_of k xs)) (t1, g1)"
    using snoc.IH[OF T(1)] by auto
  have fresh: "i \<notin> assembled (frags_of k xs)" using T(6) assembled_subset by fastforce
  have ne: "E k \<noteq> []" using T(3) assms(1) by (auto simp: all_frags_def)
  have "in_assembly m (E k) k (queued k g) (assembled (frags_of k xs)) (t1, g1)"
    using st[OF ne] fresh T(3) unfolding stage_def by metis
  from carries_step[OF assms(1) this T(2,3) fresh _ T(5)] T(4) len obtain s' where
    one: "recv_one h lb x (t1, g1) = Some s'" and len': "length (rs_fragmentsPerFd (snd s')) = length (rs_fragmentsPerFd g)"
    and st': "stage m (E k) k (queued k g) (after_frag i (assembled (frags_of k xs))) s'"
    unfolding stage_def by auto
  have "stage m (E k') k' (queued k' g) (assembled (frags_of k' (xs @ [l]))) s'" if "E k' \<noteq> []" for k'
  proof (cases "k' = k")
    case True
    then show ?thesis using st' by (simp add: l frags_of_snoc)
  next
    case False
    obtain t2 g2 where s': "s' = (t2, g2)" by fastforce
    note F = foreign_step[OF one[unfolded s'] carries_foreign[OF T(2) False] ok]
    have "stage m (E k') k' (queued k' g) (assembled (frags_of k' xs)) s'"
      using st[OF that] stage_cong[of s' k' "(t1, g1)"] F s' by simp
    then show ?thesis using False by (simp add: l frags_of_snoc)
  qed
  then show ?case using run one len' reassembly_ok_step[OF one ok] by (auto simp: l recv_run_snoc)
qed

section \<open>The segmenter's datagrams\<close>

text \<open>
  Between the two the load balancer takes its header off, unless it is told to leave it
  (\<open>lb\<close>, the reassembler's \<open>withLBHeader\<close>).
\<close>

definition lb_forward :: "bool \<Rightarrow> u8 list \<Rightarrow> u8 list" where
  "lb_forward lb frame = (if lb then frame else drop sizeof_LBHdr frame)"

definition sent_eventNum :: "seg_cfg \<Rightarrow> u64 \<Rightarrow> u8 \<Rightarrow> u64 \<Rightarrow> u64" where
  "sent_eventNum c now lsb eventNum = (if sg_ticksAsREEventNum c then seg_lbEventNum c now lsb else eventNum)"

definition sent_frame ::
  "byte_order \<Rightarrow> seg_cfg \<Rightarrow> u64 \<Rightarrow> u8 \<Rightarrow> u16 \<Rightarrow> u8 list \<Rightarrow> u64 \<Rightarrow> u16 \<Rightarrow> u16 \<Rightarrow> nat \<Rightarrow> u8 list" where
  "sent_frame h c now lsb rnd ev eventNum dataId entropy i =
     frag_frame (seg_event_headers h c now lsb rnd (length ev) eventNum dataId entropy)
       (sg_maxPldLen c) (length ev) ev i"

lemma seg_event_headers_split:
  "\<exists>lbh. length lbh = sizeof_LBHdr \<and>
     seg_event_headers h c now lsb rnd bytes eventNum dataId entropy off =
     lbh @ re_bytes h (re_set h dataId (word_of_nat off) (word_of_nat bytes)
       (sent_eventNum c now lsb eventNum) REHdr_new)"
  by (simp add: seg_event_headers_def lbre_bytes_def seg_header_def Let_def LBREHdr_new_def
      sent_eventNum_def)

lemma unat_word_of_nat_32: "n < 2 ^ 32 \<Longrightarrow> unat (word_of_nat n :: u32) = n"
  by (simp add: unat_of_nat take_bit_eq_mod)

lemma sent_frame_carries:
  assumes m: "0 < sg_maxPldLen c" and i: "i < numBuffers (sg_maxPldLen c) (length ev)"
    and ev: "length ev < 2 ^ 32" and mtu: "sizeof_LBHdr + sizeof_REHdr + sg_maxPldLen c \<le> RECV_BUFFER_SIZE"
    and x: "in_outcome x = RecvData (lb_forward lb (sent_frame h1 c now lsb rnd ev eventNum dataId entropy i))"
  shows "carries h2 lb (sg_maxPldLen c) ev (sent_eventNum c now lsb eventNum, dataId) x i"
proof -
  let ?m = "sg_maxPldLen c" and ?n = "length ev"
  let ?p = "frag_payload ?m ?n ev i" and ?off = "frag_off ?m i"
  let ?re = "re_bytes h1 (re_set h1 dataId (word_of_nat ?off) (word_of_nat ?n)
    (sent_eventNum c now lsb eventNum) REHdr_new)"
  obtain lbh where l: "length lbh = sizeof_LBHdr"
    and hd: "seg_event_headers h1 c now lsb rnd ?n eventNum dataId entropy ?off = lbh @ ?re"
    using seg_event_headers_split by blast
  let ?pre = "if lb then lbh else []"
  define d where "d = ?pre @ ?re @ ?p"
  have d: "in_outcome x = RecvData d"
    using x l by (simp add: d_def lb_forward_def sent_frame_def frag_frame_def hd)
  note R = frag_range[OF m i]
  have lp: "length ?p = frag_len ?m ?n i" by (rule length_frag_payload[OF m i order_refl])
  have lre: "length ?re = sizeof_REHdr" by (rule re_wire.to_bytes_length)
  have len: "length d \<le> RECV_BUFFER_SIZE" using R(3) mtu l lp lre by (simp add: d_def)
  obtain junk where buf: "recv_buffer x d = d @ junk" using len by (simp add: recv_buffer_def)
  let ?start = "if lb then sizeof_LBHdr else 0"
  have start: "length ?pre = ?start" using l by simp
  have cast: "drop ?start (d @ junk) = ?re @ ?p @ junk" using start by (simp add: d_def)
  have nb: "int (length d) - int (?start + sizeof_REHdr) = int (frag_len ?m ?n i)"
    using start lp lre by (simp add: d_def)
  have pay: "slice_at (?start + sizeof_REHdr) (frag_len ?m ?n i) (d @ junk) = ?p"
    using start lp lre by (simp add: d_def slice_at_def)
  have seg: "seg_in h2 lb x d = (re_cast h2 (?re @ ?p @ junk), int (frag_len ?m ?n i), ?p)"
    using len nb cast pay by (simp add: seg_in_def Let_def buf)
  note G = re_cross_get[OF refl, of h2 h1 dataId "word_of_nat ?off" "word_of_nat ?n"
      "sent_eventNum c now lsb eventNum" REHdr_new "?p @ junk"]
  have "?off < 2 ^ 32" using R(4) ev by linarith
  then have o: "unat (word_of_nat ?off :: u32) = ?off" "unat (word_of_nat ?n :: u32) = ?n"
    using ev by (simp_all add: unat_word_of_nat_32)
  show ?thesis unfolding carries_def d recv_outcome.case seg prod.case
    using G o re_cross_validate by (simp add: hdr_key_def frag_off_def)
qed

section \<open>A network that keeps what is sent\<close>

text \<open>The kernel accepts every datagram; the world is the list of datagrams on their way.\<close>

definition wire_net :: "u8 list list net_ops" where
  "wire_net = \<lparr>op_sendmsg = (\<lambda>sock f w. (None, w @ [f])),
     op_sendmmsg = (\<lambda>sock fs w. (int (length fs), 0, w @ fs)),
     op_uring_submit = (\<lambda>sock f cb w. w @ [f]), op_strerror = (\<lambda>e. [])\<rparr>"

lemma emit_sendmsg_wire_step:
  "emit_sendmsg wire_net rri fin f (s, w) = ((on_sendStats (stats_sent 1) s, w @ [f]), None)"
  by (simp add: emit_sendmsg_def wire_net_def Let_def)

lemma emit_sendmsg_wire:
  "\<exists>s'. emit_all (emit_sendmsg wire_net rri) fs (s, w) = ((s', w @ fs), None)"
proof (induction fs arbitrary: s w)
  case (Cons f fs)
  from Cons[of "on_sendStats (stats_sent 1) s" "w @ [f]"] show ?case
    by (simp add: emit_sendmsg_wire_step)
qed simp

lemma emit_uring_wire_step:
  "emit_uring wire_net rri cb arg fin f (s, w) = ((on_sendStats (stats_sent 1) s, w @ [f]), None)"
  by (simp add: emit_uring_def wire_net_def Let_def)

lemma emit_uring_wire:
  "\<exists>s'. emit_all (emit_uring wire_net rri cb arg) fs (s, w) = ((s', w @ fs), None)"
proof (induction fs arbitrary: s w)
  case (Cons f fs)
  from Cons[of "on_sendStats (stats_sent 1) s" "w @ [f]"] show ?case
    by (simp add: emit_uring_wire_step)
qed simp

lemma seg_send_wire:
  assumes "0 < sg_maxPldLen c"
  shows "\<exists>s'. seg_send wire_net h isSel c now lsb rnd event bytes eventNum dataId entropy rri cb arg s w =
    Some (Ok 0, s', w @ seg_frames (seg_event_headers h c now lsb rnd bytes eventNum dataId entropy)
      (sg_maxPldLen c) bytes event)"
proof -
  let ?fs = "seg_frames (seg_event_headers h c now lsb rnd bytes eventNum dataId entropy)
    (sg_maxPldLen c) bytes event"
  show ?thesis
  proof (cases "isSel sendmmsg")
    case True
    have "op_sendmmsg wire_net rri ?fs w = (int (length ?fs), 0, w @ ?fs)" by (simp add: wire_net_def)
    from seg_send_mmsg[OF assms, where isSel = isSel, OF True this, of cb arg s]
    show ?thesis by (auto simp: Let_def)
  next
    case False
    note mm = this
    show ?thesis
    proof (cases "isSel liburing_send")
      case True
      obtain s1 where "emit_all (emit_uring wire_net rri cb arg) ?fs (s, w) = ((s1, w @ ?fs), None)"
        using emit_uring_wire by blast
      then show ?thesis by (simp add: seg_send_uring[OF assms mm True])
    next
      case False
      obtain s1 where "emit_all (emit_sendmsg wire_net rri) ?fs (s, w) = ((s1, w @ ?fs), None)"
        using emit_sendmsg_wire by blast
      then show ?thesis by (simp add: seg_send_plain[OF assms mm False])
    qed
  qed
qed

lemma seg_frames_sent:
  "seg_frames (seg_event_headers h c now lsb rnd (length ev) eventNum dataId entropy) (sg_maxPldLen c) (length ev) ev =
     map (sent_frame h c now lsb rnd ev eventNum dataId entropy) [0..<numBuffers (sg_maxPldLen c) (length ev)]"
  by (simp add: seg_frames_def sent_frame_def)

text \<open>The number and data id an event is sent under by \<open>sendEvent\<close>.\<close>

definition sendEvent_key :: "seg_cfg \<Rightarrow> u64 \<Rightarrow> u8 \<Rightarrow> u64 \<Rightarrow> u16 \<Rightarrow> seg_state \<Rightarrow> event_key" where
  "sendEvent_key c now lsb eventNum0 dataId0 s =
     (sent_eventNum c now lsb (if eventNum0 \<noteq> 0 then eventNum0 else sg_userEventNum s),
      if dataId0 = 0 then sg_dataId c else dataId0)"

lemma seg_sendEvent_wire:
  assumes "0 < sg_maxPldLen c" and "sg_numSendSockets c \<noteq> 0"
  shows "\<exists>s'. seg_sendEvent wire_net h isSel c now lsb rnd ev (length ev) eventNum0 dataId0 entropy s w =
    Some (Ok 0, s', w @ map (sent_frame h c now lsb rnd ev
       (if eventNum0 \<noteq> 0 then eventNum0 else sg_userEventNum s)
       (if dataId0 = 0 then sg_dataId c else dataId0) entropy)
      [0..<numBuffers (sg_maxPldLen c) (length ev)])"
proof -
  let ?e = "if eventNum0 \<noteq> 0 then eventNum0 else sg_userEventNum s"
  let ?rri = "(sg_roundRobinIndex s + 1) mod sg_numSendSockets c"
  let ?s = "s\<lparr>sg_roundRobinIndex := ?rri, sg_userEventNum := ?e + 1\<rparr>"
  have eq: "seg_sendEvent wire_net h isSel c now lsb rnd ev (length ev) eventNum0 dataId0 entropy s w =
      seg_send wire_net h isSel c now lsb rnd ev (length ev) ?e
        (if dataId0 = 0 then sg_dataId c else dataId0) entropy ?rri None 0 ?s w"
    using assms(2) by (simp add: seg_sendEvent_def Let_def)
  show ?thesis unfolding eq
    using seg_send_wire[OF assms(1), of h isSel now lsb rnd ev "length ev" ?e
        "if dataId0 = 0 then sg_dataId c else dataId0" entropy ?rri None 0 ?s w]
    by (simp only: seg_frames_sent)
qed

section \<open>One event, from sender to receiver\<close>

text \<open>The datagrams \<open>frames\<close> arrive in the order \<open>is\<close> as the inputs \<open>xs\<close> of one receive thread.\<close>

definition arrives :: "bool \<Rightarrow> u8 list list \<Rightarrow> nat \<Rightarrow> nat list \<Rightarrow> recv_input list \<Rightarrow> bool" where
  "arrives lb frames nfd is xs \<longleftrightarrow> length xs = length is \<and>
     list_all (\<lambda>(x, i). i < length frames \<and> in_outcome x = RecvData (lb_forward lb (frames ! i)) \<and>
       in_fd x < nfd \<and> in_alloc x) (zip xs is)"

lemma frags_of_zip:
  "length xs = length is \<Longrightarrow>
     frags_of k' (zip xs (map (Pair k) is)) = (if k' = k then is else [])"
  by (induction xs "is" rule: list_induct2) (auto simp: frags_of_def)

lemma arrives_carries:
  assumes m: "0 < sg_maxPldLen c" and ev: "length ev < 2 ^ 32"
    and mtu: "sizeof_LBHdr + sizeof_REHdr + sg_maxPldLen c \<le> RECV_BUFFER_SIZE"
    and frames: "frames = map (sent_frame h1 c now lsb rnd ev eventNum dataId entropy)
      [0..<numBuffers (sg_maxPldLen c) (length ev)]"
    and arr: "arrives lb frames nfd is xs" and x: "(x, i) \<in> set (zip xs is)"
  shows "carries h2 lb (sg_maxPldLen c) ev (sent_eventNum c now lsb eventNum, dataId) x i \<and>
    i < numBuffers (sg_maxPldLen c) (length ev) \<and> in_fd x < nfd \<and> in_alloc x"
proof -
  have a: "i < length frames" "in_outcome x = RecvData (lb_forward lb (frames ! i))"
    "in_fd x < nfd" "in_alloc x"
    using arr x by (auto simp: arrives_def list_all_iff)
  then have i: "i < numBuffers (sg_maxPldLen c) (length ev)" by (simp add: frames)
  have "frames ! i = sent_frame h1 c now lsb rnd ev eventNum dataId entropy i"
    using i by (simp add: frames)
  then show ?thesis using a i sent_frame_carries[OF m i ev mtu] by simp
qed

lemma single_event_stage:
  assumes m: "0 < sg_maxPldLen c" and ev: "ev \<noteq> []" "length ev < 2 ^ 32"
    and mtu: "sizeof_LBHdr + sizeof_REHdr + sg_maxPldLen c \<le> RECV_BUFFER_SIZE"
    and frames: "frames = map (sent_frame h1 c now lsb rnd ev eventNum dataId entropy)
      [0..<numBuffers (sg_maxPldLen c) (length ev)]"
    and arr: "arrives lb frames (length (rs_fragmentsPerFd g)) is xs" and d: "distinct is"
    and ok: "reassembly_ok (t, g)" "rt_eventsInProgress t = []"
  shows "\<exists>s'. recv_run h2 lb xs (t, g) = Some s' \<and> reassembly_ok s' \<and>
    stage (sg_maxPldLen c) ev (sent_eventNum c now lsb eventNum, dataId)
      (queued (sent_eventNum c now lsb eventNum, dataId) g) (assembled is) s'"
proof -
  let ?k = "(sent_eventNum c now lsb eventNum, dataId)" and ?E = "\<lambda>k. ev"
  let ?ls = "zip xs (map (Pair ?k) is)"
  have len: "length xs = length is" using arr by (simp add: arrives_def)
  note each = arrives_carries[OF m ev(2) mtu frames arr, of _ _ h2]
  have zip: "?ls = map (\<lambda>(x, i). (x, ?k, i)) (zip xs is)" by (simp add: zip_map2)
  have T: "trace_ok h2 lb (sg_maxPldLen c) ?E (length (rs_fragmentsPerFd g)) ?ls"
    using each d frags_of_zip[OF len, of ?k ?k] unfolding trace_ok_def list_all_iff
    by (auto simp: zip)
  have fst: "map fst ?ls = xs" using len by simp
  have none: "\<And>k. map_of (rt_eventsInProgress t) k = None" using ok(2) by simp
  from recv_run_stages[OF m T ok(1) none, unfolded fst] obtain s' where
    s': "recv_run h2 lb xs (t, g) = Some s'" "reassembly_ok s'" and
    st: "\<And>k. ev \<noteq> [] \<longrightarrow> stage (sg_maxPldLen c) ev k (queued k g) (assembled (frags_of k ?ls)) s'"
    by blast
  show ?thesis using s' st[of ?k] ev(1) unfolding frags_of_zip[OF len] by simp
qed

definition fresh_receiver :: "nat \<Rightarrow> recv_thread \<times> reas_shared \<Rightarrow> bool" where
  "fresh_receiver nfd s \<longleftrightarrow> rt_eventsInProgress (fst s) = [] \<and> rt_lostEvents (fst s) = {} \<and>
     rs_eventQueue (snd s) = [] \<and> rs_eventQueueDepth (snd s) = 0 \<and> length (rs_fragmentsPerFd (snd s)) = nfd"

lemma fresh_receiver_ok: "fresh_receiver nfd (t, g) \<Longrightarrow> reassembly_ok (t, g)"
  by (simp add: fresh_receiver_def reassembly_ok_def thread_ok_def shared_ok_def)

lemma queue_of_one:
  "(\<And>k'. k' \<noteq> k \<Longrightarrow> queued k' g = []) \<Longrightarrow> queued k g = rs_eventQueue g"
  unfolding queued_def filter_empty_conv filter_id_conv by blast

lemma single_event_queue:
  assumes "recv_run h lb xs (t, g) = Some (t', g')" and "rs_eventQueue g = []"
    and "\<And>x. x \<in> set xs \<Longrightarrow> \<exists>i. carries h lb m ev k x i" and "reassembly_ok (t, g)"
  shows "queued k g' = rs_eventQueue g'"
proof -
  have "queued k' g' = queued k' g" if "k' \<noteq> k" for k'
    using assms(1,3,4)
  proof (induction xs arbitrary: t g)
    case Nil
    then show ?case by simp
  next
    case (Cons x xs)
    obtain t1 g1 where one: "recv_one h lb x (t, g) = Some (t1, g1)"
      and rest: "recv_run h lb xs (t1, g1) = Some (t', g')"
      using Cons.prems(1) by (auto split: option.splits)
    obtain i where "carries h lb m ev k x i" using Cons.prems(2) by auto
    from foreign_step(2)[OF one carries_foreign[OF this that] Cons.prems(3)]
    have "queued k' g1 = queued k' g" .
    then show ?case using Cons.IH[OF rest _ reassembly_ok_step[OF one Cons.prems(3)]] Cons.prems(2) by simp
  qed
  then show ?thesis using assms(2) by (intro queue_of_one) (simp add: queued_def)
qed

lemma arrives_set:
  assumes "arrives lb frames nfd is xs" and "x \<in> set xs"
  shows "\<exists>i. (x, i) \<in> set (zip xs is)"
  using assms by (metis arrives_def in_set_impl_in_set_zip1)

text \<open>A complete event that arrived with fragment 0 first is the one event of the queue.\<close>

lemma single_event_delivered:
  assumes m: "0 < sg_maxPldLen c" and ev: "ev \<noteq> []" "length ev < 2 ^ 32"
    and mtu: "sizeof_LBHdr + sizeof_REHdr + sg_maxPldLen c \<le> RECV_BUFFER_SIZE"
    and frames: "frames = map (sent_frame h1 c now lsb rnd ev eventNum dataId entropy)
      [0..<numBuffers (sg_maxPldLen c) (length ev)]"
    and arr: "arrives lb frames nfd is xs" and d: "distinct is" "set is = {..<length frames}" "hd is = 0"
    and fresh: "fresh_receiver nfd (t, g)"
  shows "\<exists>t' g'. recv_run h2 lb xs (t, g) = Some (t', g') \<and>
    (\<exists>g''. getEvent g' = (Ok 0, Some (map Some ev, length ev, sent_eventNum c now lsb eventNum, dataId), g''))"
proof -
  let ?k = "(sent_eventNum c now lsb eventNum, dataId)"
  have F: "rt_eventsInProgress t = []" "rs_eventQueue g = []" "length (rs_fragmentsPerFd g) = nfd"
    using fresh by (simp_all add: fresh_receiver_def)
  note ok = fresh_receiver_ok[OF fresh]
  note arr' = arr[folded F(3)]
  obtain t' g' where run: "recv_run h2 lb xs (t, g) = Some (t', g')"
    and st: "stage (sg_maxPldLen c) ev ?k (queued ?k g) (assembled is) (t', g')"
    using single_event_stage[OF m ev mtu frames arr' d(1) ok F(1), of h2] by fastforce
  have "0 < length frames" using less_numBuffers[OF m, of 0] ev(1) by (simp add: frames)
  then have "0 \<in> set is" unfolding d(2) by simp
  then have ne: "is \<noteq> []" by auto
  then have "assembled is = all_frags (sg_maxPldLen c) ev"
    using assembled_first[OF d(1) ne d(3)] d(2) by (simp add: all_frags_def frames)
  then obtain item where q: "queued ?k g' = [item]" and out: "item_out item = (map Some ev, length ev, fst ?k, snd ?k)"
    using st F(2) by (auto simp: stage_def delivered_def queued_def)
  have c: "\<exists>i. carries h2 lb (sg_maxPldLen c) ev ?k x i" if "x \<in> set xs" for x
    using arrives_carries[OF m ev(2) mtu frames arr] arrives_set[OF arr that] by blast
  have "rs_eventQueue g' = [item]"
    using single_event_queue[OF run F(2) c ok] q by simp
  then show ?thesis using run out by (auto simp: getEvent_def reas_dequeue_def)
qed

text \<open>With fragment 0 late it stays in the table, incomplete, and the queue stays as it was.\<close>

lemma single_event_lost:
  assumes m: "0 < sg_maxPldLen c" and ev: "ev \<noteq> []" "length ev < 2 ^ 32"
    and mtu: "sizeof_LBHdr + sizeof_REHdr + sg_maxPldLen c \<le> RECV_BUFFER_SIZE"
    and frames: "frames = map (sent_frame h1 c now lsb rnd ev eventNum dataId entropy)
      [0..<numBuffers (sg_maxPldLen c) (length ev)]"
    and arr: "arrives lb frames nfd is xs" and d: "distinct is" "set is = {..<length frames}" "hd is \<noteq> 0"
    and fresh: "fresh_receiver nfd (t, g)"
  shows "\<exists>t' g'. recv_run h2 lb xs (t, g) = Some (t', g') \<and> rs_eventQueue g' = [] \<and>
    (\<exists>item. map_of (rt_eventsInProgress t') (sent_eventNum c now lsb eventNum, dataId) = Some item \<and>
       ri_curBytes item < ri_bytes item)"
proof -
  let ?k = "(sent_eventNum c now lsb eventNum, dataId)" and ?m = "sg_maxPldLen c"
  have F: "rt_eventsInProgress t = []" "rs_eventQueue g = []" "length (rs_fragmentsPerFd g) = nfd"
    using fresh by (simp_all add: fresh_receiver_def)
  note ok = fresh_receiver_ok[OF fresh]
  note arr' = arr[folded F(3)]
  obtain t' g' where run: "recv_run h2 lb xs (t, g) = Some (t', g')"
    and st: "stage ?m ev ?k (queued ?k g) (assembled is) (t', g')"
    using single_event_stage[OF m ev mtu frames arr' d(1) ok F(1), of h2] by fastforce
  have N: "0 < length frames" using less_numBuffers[OF m, of 0] ev(1) by (simp add: frames)
  then have z: "0 \<in> set is" unfolding d(2) by simp
  then have ne: "is \<noteq> []" by auto
  have all: "set is = all_frags ?m ev" using d(2) by (simp add: all_frags_def frames)
  have sub: "assembled is \<subseteq> all_frags ?m ev" using assembled_subset all by blast
  have part: "assembled is \<noteq> all_frags ?m ev"
    using assembled_late[OF d(1) z d(3)] all hd_in_set[OF ne] by blast
  have "0 \<in> assembled is"
    using z by (induction "is" rule: rev_induct) (auto simp: after_frag_def)
  then obtain item where item: "map_of (rt_eventsInProgress t') ?k = Some item" and H: "holds ?m ev ?k (assembled is) item"
    using st part by (auto simp: stage_def in_assembly_def split: option.splits)
  have "(\<Sum>i\<in>assembled is. frag_len ?m (length ev) i) \<le> (\<Sum>i\<in>all_frags ?m ev. frag_len ?m (length ev) i)"
    using sub by (intro sum_mono2) (auto simp: all_frags_def)
  then have "ri_curBytes item \<le> ri_bytes item" using H sum_all_frags[OF m] by (simp add: holds_def)
  then have inc: "ri_curBytes item < ri_bytes item" using holds_complete[OF m sub H] part by simp
  have c: "\<exists>i. carries h2 lb ?m ev ?k x i" if "x \<in> set xs" for x
    using arrives_carries[OF m ev(2) mtu frames arr] arrives_set[OF arr that] by blast
  have "rs_eventQueue g' = queued ?k g'" using single_event_queue[OF run F(2) c ok] by simp
  then have "rs_eventQueue g' = []" using st part F(2) by (simp add: stage_def in_assembly_def queued_def)
  then show ?thesis using run item inc by blast
qed

text \<open>A datagram as the next input of a thread, and the datagrams of an event in some order.\<close>

definition input_of :: "u8 list \<Rightarrow> recv_input" where
  "input_of d = \<lparr>in_fd = 0, in_now = 0, in_junk = (\<lambda>_. 0), in_alloc = True, in_outcome = RecvData d\<rparr>"

lemma arrives_inputs:
  "set is \<subseteq> {..<length frames} \<Longrightarrow>
     arrives lb frames (Suc 0) is (map (\<lambda>i. input_of (lb_forward lb (frames ! i))) is)"
  by (induction "is") (auto simp: arrives_def input_of_def)

end
