(* ===== verification/E2SAR_Sending.thy ===== *)
theory E2SAR_Sending
  imports E2SAR_DataPlane
begin

text \<open>
  What a sender does beyond one successful event: it stops at the first datagram the kernel refuses,
  it counts a failed \<open>sendmmsg\<close>, and on \<open>stopThreads\<close> it sends everything that is still queued.
\<close>

section \<open>What sending leaves alone\<close>

text \<open>Sending an event touches the counters only.\<close>

definition counters_only :: "seg_state \<Rightarrow> seg_state \<Rightarrow> bool" where
  "counters_only s s' \<longleftrightarrow> sg_queue s' = sg_queue s \<and> sg_userEventNum s' = sg_userEventNum s \<and>
     sg_roundRobinIndex s' = sg_roundRobinIndex s \<and> sg_callbacks s' = sg_callbacks s \<and>
     sg_eventStatsBuffer s' = sg_eventStatsBuffer s \<and> sg_syncStats s' = sg_syncStats s"

lemma counters_only_simps [simp]:
  "counters_only s s" "counters_only s (on_sendStats f s') = counters_only s s'"
  "counters_only s (event_sent s') = counters_only s s'"
  "counters_only s (s'\<lparr>sg_outstandingSends := n\<rparr>) = counters_only s s'"
  by (simp_all add: counters_only_def on_sendStats_def event_sent_def)

lemma emit_all_keeps:
  assumes "\<And>fin f x. P x \<Longrightarrow> P (fst (emit fin f x))" and "P x"
  shows "P (fst (emit_all emit fs x))"
  using assms(2)
proof (induction fs arbitrary: x)
  case Nil
  then show ?case by simp
next
  case (Cons f fs)
  then show ?case using assms(1)[of x "fs = []" f] by (auto split: prod.splits option.splits)
qed

lemma emit_all_sendmsg_counters:
  "emit_all (emit_sendmsg net rri) fs (s, w) = ((s', w'), e) \<Longrightarrow> counters_only s s'"
  using emit_all_keeps[of "\<lambda>x. counters_only s (fst x)" "emit_sendmsg net rri" "(s, w)" fs]
  by (auto simp: emit_sendmsg_def Let_def split: prod.splits option.splits)

lemma emit_all_uring_counters:
  "emit_all (emit_uring net rri cb arg) fs (s, w) = ((s', w'), e) \<Longrightarrow> counters_only s s'"
  using emit_all_keeps[of "\<lambda>x. counters_only s (fst x)" "emit_uring net rri cb arg" "(s, w)" fs]
  by (auto simp: emit_uring_def Let_def split: prod.splits)

lemma seg_send_counters:
  assumes m: "0 < sg_maxPldLen c"
    and r: "seg_send net h isSel c now lsb rnd event bytes eventNum dataId entropy rri cb arg s w = Some (r, s', w')"
  shows "counters_only s s'"
proof -
  let ?fs = "seg_frames (seg_event_headers h c now lsb rnd bytes eventNum dataId entropy) (sg_maxPldLen c) bytes event"
  consider (mmsg) "isSel sendmmsg" | (uring) "\<not> isSel sendmmsg" "isSel liburing_send"
    | (plain) "\<not> isSel sendmmsg" "\<not> isSel liburing_send" by blast
  then show ?thesis
  proof cases
    case mmsg
    obtain err errno w2 where o: "op_sendmmsg net rri ?fs w = (err, errno, w2)" by (metis prod_cases3)
    from r show ?thesis unfolding seg_send_mmsg[where isSel = isSel, OF m mmsg o]
      by (auto simp: Let_def split: if_splits)
  next
    case uring
    obtain s1 w1 e where o: "emit_all (emit_uring net rri cb arg) ?fs (s, w) = ((s1, w1), e)" by (metis surj_pair)
    from r show ?thesis unfolding seg_send_uring[where isSel = isSel, OF m uring] o
      using emit_all_uring_counters[OF o] by auto
  next
    case plain
    obtain s1 w1 e where o: "emit_all (emit_sendmsg net rri) ?fs (s, w) = ((s1, w1), e)" by (metis surj_pair)
    from r show ?thesis unfolding seg_send_plain[where isSel = isSel, OF m plain] o
      using emit_all_sendmsg_counters[OF o] by (auto split: option.splits)
  qed
qed

section \<open>The first refusal ends an event\<close>

text \<open>A kernel that takes \<open>k\<close> datagrams and refuses the next one with \<open>errno\<close>.\<close>

definition faulty_net :: "nat \<Rightarrow> int \<Rightarrow> u8 list list net_ops" where
  "faulty_net k errno = wire_net\<lparr>op_sendmsg := (\<lambda>sock f w. if length w = k then (Some errno, w) else (None, w @ [f]))\<rparr>"

lemma stats_sent_add:
  "on_sendStats (stats_sent n) (on_sendStats (stats_sent m) s) = on_sendStats (stats_sent (m + n)) s"
  by (simp add: on_sendStats_def stats_sent_def add.assoc)

lemma emit_faulty:
  "emit_sendmsg (faulty_net k e) rri fin f (s, w) =
     (if length w = k then ((on_sendStats (stats_failed 1 e) (on_sendStats (stats_sent 1) s), w), Some \<lparr>ec = SocketError, msg = []\<rparr>)
      else ((on_sendStats (stats_sent 1) s, w @ [f]), None))"
  by (simp add: emit_sendmsg_def faulty_net_def wire_net_def Let_def)

lemma emit_all_faulty:
  assumes "length w \<le> k" and "k < length w + length fs"
  shows "emit_all (emit_sendmsg (faulty_net k e) rri) fs (s, w) =
    ((on_sendStats (stats_failed 1 e) (on_sendStats (stats_sent (word_of_nat (Suc (k - length w)))) s),
      w @ take (k - length w) fs), Some \<lparr>ec = SocketError, msg = []\<rparr>)"
  using assms
proof (induction fs arbitrary: s w)
  case Nil
  then show ?case by simp
next
  case (Cons f fs)
  show ?case
  proof (cases "length w = k")
    case True
    then show ?thesis by (simp add: emit_faulty)
  next
    case False
    then have "k - length w = Suc (k - length (w @ [f]))" using Cons.prems by simp
    then show ?thesis
      using False Cons.prems Cons.IH[of "w @ [f]" "on_sendStats (stats_sent 1) s"]
      by (simp add: emit_faulty stats_sent_add)
  qed
qed

section \<open>Emptying the queue\<close>

definition item_frames :: "byte_order \<Rightarrow> seg_cfg \<Rightarrow> (u64 \<times> u8 \<times> u16) \<times> seg_item \<Rightarrow> u8 list list" where
  "item_frames h c = (\<lambda>((now, lsb, rnd), i).
     seg_frames (seg_event_headers h c now lsb rnd (unat (qi_bytes i)) (qi_eventNum i) (qi_dataId i) (qi_entropy i))
       (sg_maxPldLen c) (unat (qi_bytes i)) (qi_event i))"

definition item_callback :: "seg_item \<Rightarrow> (nat \<times> nat) list" where
  "item_callback i = (case qi_callback i of None \<Rightarrow> [] | Some f \<Rightarrow> [(f, qi_cbArg i)])"

lemma seg_thread_step_wire:
  assumes m: "0 < sg_maxPldLen c" and n: "sg_numSendSockets c \<noteq> 0" and q: "sg_queue s = i # q"
  shows "\<exists>s'. seg_thread_step wire_net h isSel c now lsb rnd [] s w =
      Some (s', w @ item_frames h c ((now, lsb, rnd), i)) \<and> sg_queue s' = q \<and>
      sg_callbacks s' = sg_callbacks s @ (if isSel liburing_send then [] else item_callback i)"
proof -
  let ?rri = "(sg_roundRobinIndex s + 1) mod sg_numSendSockets c"
  let ?s1 = "s\<lparr>sg_queue := q, sg_roundRobinIndex := ?rri\<rparr>"
  obtain s2 where r: "seg_send wire_net h isSel c now lsb rnd (qi_event i) (unat (qi_bytes i)) (qi_eventNum i)
      (qi_dataId i) (qi_entropy i) ?rri (qi_callback i) (qi_cbArg i) ?s1 w =
      Some (Ok 0, s2, w @ item_frames h c ((now, lsb, rnd), i))"
    using seg_send_wire[OF m] unfolding item_frames_def prod.case by blast
  have k: "sg_queue s2 = q" "sg_callbacks s2 = sg_callbacks s"
    using seg_send_counters[OF m r] by (simp_all add: counters_only_def)
  have p: "seg_pop (sg_queue s) = (q, Some i)" by (simp add: seg_pop_def q)
  show ?thesis
    unfolding seg_thread_step_def p prod.case option.case if_not_P[OF n] Let_def r
    using k by (cases "qi_callback i") (auto simp: item_callback_def)
qed

lemma seg_drain_wire:
  assumes m: "0 < sg_maxPldLen c" and n: "sg_numSendSockets c \<noteq> 0" and t: "length (sg_queue s) \<le> length turns"
  shows "\<exists>s'. seg_drain turns wire_net h isSel c s w =
      Some (s', w @ concat (map (item_frames h c) (zip turns (sg_queue s)))) \<and> sg_queue s' = [] \<and>
      sg_callbacks s' = sg_callbacks s @ (if isSel liburing_send then [] else concat (map item_callback (sg_queue s)))"
  using t
proof (induction turns arbitrary: s w)
  case Nil
  then show ?case by simp
next
  case (Cons turn turns)
  obtain now lsb rnd where turn: "turn = (now, lsb, rnd)" by (metis prod_cases3)
  show ?case
  proof (cases "sg_queue s")
    case Nil
    then show ?thesis by (simp add: turn)
  next
    case (Cons i q)
    obtain s1 where st: "seg_thread_step wire_net h isSel c now lsb rnd [] s w =
        Some (s1, w @ item_frames h c ((now, lsb, rnd), i))" "sg_queue s1 = q"
      "sg_callbacks s1 = sg_callbacks s @ (if isSel liburing_send then [] else item_callback i)"
      using seg_thread_step_wire[OF m n Cons] by blast
    have "length (sg_queue s1) \<le> length turns" using Cons.prems Cons st(2) by simp
    from Cons.IH[OF this, of "w @ item_frames h c ((now, lsb, rnd), i)"]
    show ?thesis using st Cons by (auto simp: turn)
  qed
qed

section \<open>What a receiver or load balancer of any byte order reads in a datagram\<close>

lemma sent_headers_length: "length (seg_event_headers h c now lsb rnd bytes eventNum dataId entropy off) = sizeof_LBHdr + sizeof_REHdr"
  by (simp add: seg_event_headers_def)

lemma sent_headers_re:
  "re_get_Fields h2 (re_cast h2 (drop sizeof_LBHdr
     (seg_event_headers h c now lsb rnd bytes eventNum dataId entropy off @ payload))) =
   (dataId, word_of_nat off, word_of_nat bytes, sent_eventNum c now lsb eventNum)"
proof -
  obtain lbh where "length lbh = sizeof_LBHdr"
    and "seg_event_headers h c now lsb rnd bytes eventNum dataId entropy off =
     lbh @ re_bytes h (re_set h dataId (word_of_nat off) (word_of_nat bytes) (sent_eventNum c now lsb eventNum) REHdr_new)"
    using seg_event_headers_split by blast
  then show ?thesis by (simp add: re_cross_fields)
qed

lemma sent_headers_lb2:
  assumes "sg_lbHdrVersion c = 2"
  shows "lb2_get_Fields h2 (lb2_cast h2 (seg_event_headers h c now lsb rnd bytes eventNum dataId entropy off @ payload)) =
    (lbhdrVersion2, rehdrVersion, (if entropy = 0 then rnd else entropy), seg_lbEventNum c now lsb)"
proof -
  have "seg_event_headers h c now lsb rnd bytes eventNum dataId entropy off =
      lb2_bytes h (lb2_set h (if entropy = 0 then rnd else entropy) (seg_lbEventNum c now lsb) LBHdrV2_new) @
      re_bytes h (hdr_re (seg_header h c dataId bytes
        (if sg_ticksAsREEventNum c then seg_lbEventNum c now lsb else eventNum)
        (if entropy = 0 then rnd else entropy) (seg_lbEventNum c now lsb) off))"
    using assms by (simp add: seg_event_headers_def lbre_bytes_def seg_header_def LBREHdr_new_def LBHdrU_new_def Let_def)
  then show ?thesis by (simp add: lb2_cross_fields)
qed

lemma sent_headers_lb3:
  assumes "sg_lbHdrVersion c = 3"
  shows "lb3_get_Fields h2 (lb3_cast h2 (seg_event_headers h c now lsb rnd bytes eventNum dataId entropy off @ payload)) =
    (lbhdrVersion3, rehdrVersion, ucast (seg_lbEventNum c now lsb AND 0xFFFF), (if entropy = 0 then rnd else entropy),
     seg_lbEventNum c now lsb)"
proof -
  have "seg_event_headers h c now lsb rnd bytes eventNum dataId entropy off =
      lb3_bytes h (lb3_set h (ucast (seg_lbEventNum c now lsb AND 0xFFFF)) (if entropy = 0 then rnd else entropy)
        (seg_lbEventNum c now lsb) LBHdrV3_new) @
      re_bytes h (hdr_re (seg_header h c dataId bytes
        (if sg_ticksAsREEventNum c then seg_lbEventNum c now lsb else eventNum)
        (if entropy = 0 then rnd else entropy) (seg_lbEventNum c now lsb) off))"
    using assms by (simp add: seg_event_headers_def lbre_bytes_def seg_header_def LBREHdr_new_def LBHdrU_new_def Let_def)
  then show ?thesis by (simp add: lb3_cross_fields)
qed

lemma seg_frames_nth:
  "i < numBuffers m bytes \<Longrightarrow> seg_frames hdr m bytes event ! i = hdr (i * m) @ frag_payload m bytes event i"
  by (simp add: seg_frames_def frag_frame_def frag_off_def)

lemma seg_frames_payloads:
  assumes "0 < m" and "bytes \<le> length event" and "\<And>off. length (hdr off) = n"
  shows "concat (map (drop n) (seg_frames hdr m bytes event)) = take bytes event"
proof -
  have "map (drop n) (seg_frames hdr m bytes event) = map (frag_payload m bytes event) [0..<numBuffers m bytes]"
    by (simp add: seg_frames_def frag_frame_def comp_def assms(3))
  then show ?thesis using frag_payloads_concat[OF assms(1,2)] by simp
qed

lemma seg_frames_size:
  assumes "0 < m" and "bytes \<le> length event" and "\<And>off. length (hdr off) = n" and "f \<in> set (seg_frames hdr m bytes event)"
  shows "n < length f" and "length f \<le> n + m"
proof -
  obtain i where i: "i < numBuffers m bytes" and f: "f = hdr (i * m) @ frag_payload m bytes event i"
    using assms(4) by (auto simp: seg_frames_def frag_frame_def frag_off_def)
  show "n < length f" "length f \<le> n + m"
    using frag_range(2,3)[OF assms(1) i] length_frag_payload[OF assms(1) i assms(2)] by (simp_all add: f assms(3))
qed

text \<open>A \<^verbatim>\<open>sendmmsg\<close> that fails as a whole (-1) adds one error more than there were datagrams, and counts them as sent.\<close>

lemma failed_sendmmsg_miscounts:
  assumes "0 < sg_maxPldLen c" and "isSel sendmmsg" and "\<And>sock fs w. op_sendmmsg net sock fs w = (-1, errno, w)"
  shows "\<exists>s' e. seg_send net h isSel c now lsb rnd event bytes eventNum dataId entropy rri cb arg s w = Some (Inl e, s', w) \<and>
    st_errCnt (sg_sendStats s') = st_errCnt (sg_sendStats s) + word_of_nat (numBuffers (sg_maxPldLen c) bytes) + 1 \<and>
    st_msgCnt (sg_sendStats s') = st_msgCnt (sg_sendStats s) + word_of_nat (numBuffers (sg_maxPldLen c) bytes)"
  unfolding seg_send_mmsg[where isSel = isSel, OF assms]
  by (simp add: Let_def on_sendStats_def stats_sent_def)

end
