(* ===== verification/E2SAR_Faults.thy ===== *)
theory E2SAR_Faults
  imports E2SAR_DataPlane
begin

text \<open>
  Where the receive path relies on its input: a duplicated fragment counts twice towards completion,
  a range outside the event buffer is not checked, and a run of a receive thread is a path of the
  interleaved system.
\<close>

section \<open>Runs are reachable\<close>

lemma recv_run_reachable:
  assumes "recv_run h lb xs (ts ! i, g) = Some (t', g')" and "i < length ts" and "reas_reachable h lb tmo (ts, g)"
  shows "reas_reachable h lb tmo (ts[i := t'], g')"
  using assms
proof (induction xs arbitrary: ts g)
  case Nil
  then show ?case using list_update_id[of ts i] by auto
next
  case (Cons x xs)
  obtain t1 g1 where one: "recv_one h lb x (ts ! i, g) = Some (t1, g1)"
    and rest: "recv_run h lb xs (t1, g1) = Some (t', g')"
    using Cons.prems(1) by (auto split: option.splits)
  have "reas_step h lb tmo (ts, g) (ts[i := t1], g1)" by (rule step_recv[OF Cons.prems(2) one])
  then have "reas_reachable h lb tmo (ts[i := t1], g1)" by (rule reach_step[OF Cons.prems(3)])
  from Cons.IH[OF _ _ this] show ?case using rest Cons.prems(2) by simp
qed

text \<open>The table of counts per descriptor never changes its length.\<close>

lemma recv_one_fds:
  assumes "recv_one h lb x (t, g) = Some (t', g')"
  shows "length (rs_fragmentsPerFd g') = length (rs_fragmentsPerFd g)"
proof (cases "in_outcome x")
  case (RecvFail e)
  then show ?thesis using assms by (auto simp: recv_one_fail)
next
  case (RecvData d)
  obtain hdr nbytes payload where s: "seg_in h lb x d = (hdr, nbytes, payload)" by (metis prod_cases3)
  obtain item prog where l: "locate_item h (in_now x) hdr (rt_eventsInProgress t) = (item, prog)" by fastforce
  show ?thesis using assms unfolding recv_one_data[OF RecvData s l]
    by (auto simp: finish_item_def reas_enqueue_def logLostEvent_def Let_def count_packet_def
        split: if_splits option.splits)
qed

lemma recv_run_fds:
  "recv_run h lb xs (t, g) = Some (t', g') \<Longrightarrow> length (rs_fragmentsPerFd g') = length (rs_fragmentsPerFd g)"
proof (induction xs arbitrary: t g)
  case Nil
  then show ?case by simp
next
  case (Cons x xs)
  then obtain t1 g1 where "recv_one h lb x (t, g) = Some (t1, g1)" "recv_run h lb xs (t1, g1) = Some (t', g')"
    by (auto split: option.splits)
  then show ?case using Cons.IH recv_one_fds by metis
qed

section \<open>Duplicates\<close>

lemma duplicate_step:
  assumes m: "0 < m" and st: "in_assembly m ev k q S (t, g)" and c: "carries h lb m ev k x i"
    and i: "i \<in> S" "i \<noteq> 0" and fd: "in_fd x < length (rs_fragmentsPerFd g)" and alloc: "in_alloc x"
    and total: "(\<Sum>j\<in>S. frag_len m (length ev) j) + frag_len m (length ev) i = length ev"
  shows "\<exists>t' g' item. recv_one h lb x (t, g) = Some (t', g') \<and> queued k g' = q @ [item] \<and>
    item_key item = k \<and> ri_bytes item = length ev \<and>
    (\<forall>j<length ev. ri_event item ! j = (if j div m \<in> S then Some (ev ! j) else None))"
proof -
  let ?n = "length ev" and ?p = "frag_payload m (length ev) ev i"
  obtain d where d: "in_outcome x = RecvData d" using c by (auto simp: carries_def split: recv_outcome.splits)
  obtain hdr nbytes payload where s: "seg_in h lb x d = (hdr, nbytes, payload)" by (metis prod_cases3)
  have C: "re_validate hdr" "hdr_key h hdr = k" "unat (re_get_bufferOffset h hdr) = i * m"
    "nbytes = int (frag_len m ?n i)" "payload = ?p"
    using c d s by (simp_all add: carries_def)
  have off: "re_get_bufferOffset h hdr \<noteq> 0"
  proof
    assume "re_get_bufferOffset h hdr = 0"
    then have "i * m = 0" using C(3) by simp
    then show False using m i(2) by simp
  qed
  obtain item where tab: "map_of (rt_eventsInProgress t) k = Some item" and H: "holds m ev k S item"
    using st i(1) by (auto simp: in_assembly_def split: option.splits)
  have l: "locate_item h (in_now x) hdr (rt_eventsInProgress t) = (item, rt_eventsInProgress t)"
    using tab off C(2) by (simp add: locate_item_def hdr_key_def Let_def)
  have iN: "i < numBuffers m ?n" using st i(1) by (auto simp: in_assembly_def all_frags_def)
  have lp: "length ?p = frag_len m ?n i" by (rule length_frag_payload[OF m iN order_refl])
  have range: "i * m + frag_len m ?n i \<le> ?n" using frag_range(1)[OF m iN] by (simp add: frag_off_def)
  have le: "i * m + length ?p \<le> length (ri_event item)" using range lp H by (simp add: holds_def)
  let ?b = "buf_write (i * m) ?p (ri_event item)"
  have b: "memcpy_at (i * m) ?p (ri_event item) = Some ?b" using le by (simp add: memcpy_at_def)
  have cells: "?b ! j = (if j div m \<in> S then Some (ev ! j) else None)" if j: "j < ?n" for j
  proof (cases "j div m = i")
    case True
    then have r: "i * m \<le> j" "j < i * m + frag_len m ?n i" using frag_cell[OF m j, of i] by auto
    then have "?p ! (j - i * m) = ev ! j"
      using range lp by (simp add: frag_payload_def frag_off_def slice_at_def)
    then show ?thesis using r lp le j H True i(1) by (simp add: nth_buf_write holds_def)
  next
    case False
    then have "\<not> (i * m \<le> j \<and> j < i * m + length ?p)" using frag_cell[OF m j, of i] lp by simp
    then show ?thesis using le j H by (auto simp: nth_buf_write holds_def)
  qed
  let ?it = "absorb ?b (frag_len m ?n i) item"
  obtain t' g' where fin: "finish_item (in_alloc x) ?it (AList.update k ?it (rt_eventsInProgress t))
      (t, count_packet (in_fd x) d g) = (t', g')" by fastforce
  have run: "recv_one h lb x (t, g) = Some (t', g')"
    using recv_one_data[OF d s l, of g] C fd b fin by simp
  have comp: "ri_curBytes ?it = ri_bytes ?it" "ri_bytes ?it = ?n" "item_key ?it = k"
    using H total by (simp_all add: holds_def)
  have "queued k g' = q @ [?it]"
    using finish_item_effect[OF fin] comp(1,3) alloc st by (simp add: in_assembly_def queued_def)
  then show ?thesis using run comp cells by (intro exI[of _ t'] exI[of _ g'] exI[of _ ?it]) simp
qed

text \<open>
  An event of three full datagrams of which the second arrives twice and the third not at all: it is
  delivered, its last third never written.
\<close>

lemma duplicate_delivers:
  assumes m: "0 < sg_maxPldLen c" and ev: "length ev = 3 * sg_maxPldLen c" "length ev < 2 ^ 32"
    and mtu: "sizeof_LBHdr + sizeof_REHdr + sg_maxPldLen c \<le> RECV_BUFFER_SIZE"
    and frames: "frames = map (sent_frame h1 c now lsb rnd ev eventNum dataId entropy)
      [0..<numBuffers (sg_maxPldLen c) (length ev)]"
    and arr: "arrives lb frames nfd [0, 1, 1] xs" and fresh: "fresh_receiver nfd (t, g)"
  shows "\<exists>t' g' b g''. recv_run h2 lb xs (t, g) = Some (t', g') \<and>
    getEvent g' = (Ok 0, Some (b, length ev, sent_eventNum c now lsb eventNum, dataId), g'') \<and>
    (\<forall>j<length ev. b ! j = (if j < 2 * sg_maxPldLen c then Some (ev ! j) else None))"
proof -
  let ?m = "sg_maxPldLen c" and ?k = "(sent_eventNum c now lsb eventNum, dataId)"
  obtain x0 x1 x2 where xs: "xs = [x0, x1] @ [x2]"
    using arr by (auto simp: arrives_def length_Suc_conv eval_nat_numeral)
  have arr2: "arrives lb frames nfd [0, 1] [x0, x1]" using arr by (simp add: arrives_def xs)
  have F: "rt_eventsInProgress t = []" "rs_eventQueue g = []" "length (rs_fragmentsPerFd g) = nfd"
    using fresh by (simp_all add: fresh_receiver_def)
  note ok = fresh_receiver_ok[OF fresh]
  have ne: "ev \<noteq> []" using ev(1) m by auto
  obtain t1 g1 where run: "recv_run h2 lb [x0, x1] (t, g) = Some (t1, g1)" and ok1: "reassembly_ok (t1, g1)"
    and st: "stage ?m ev ?k (queued ?k g) (assembled [0, 1]) (t1, g1)"
    using single_event_stage[OF m ne ev(2) mtu frames arr2[folded F(3)] _ ok F(1), of h2] by fastforce
  have N: "numBuffers ?m (length ev) = 3" using m ev(1) by (simp add: numBuffers_def div_nat_eqI)
  have S: "assembled [0, 1] = {0, 1}" by (auto simp: assembled_def after_frag_def)
  have st': "in_assembly ?m ev ?k [] {0, 1} (t1, g1)"
  proof -
    have "2 \<in> all_frags ?m ev" by (simp add: all_frags_def N)
    moreover have "2 \<notin> {0, 1 :: nat}" by simp
    ultimately have "{0, 1} \<noteq> all_frags ?m ev" by blast
    then show ?thesis using st F(2) unfolding S by (simp add: stage_def queued_def)
  qed
  have fds: "length (rs_fragmentsPerFd g1) = nfd"
    using recv_run_fds[OF run] F(3) by simp
  have c2: "carries h2 lb ?m ev ?k x2 1 \<and> in_fd x2 < nfd \<and> in_alloc x2"
    using arrives_carries[OF m ev(2) mtu frames arr, of x2 1 h2] by (simp add: xs)
  have total: "(\<Sum>j\<in>{0, 1}. frag_len ?m (length ev) j) + frag_len ?m (length ev) 1 = length ev"
    using ev(1) by (simp add: frag_len_def)
  have fd2: "in_fd x2 < length (rs_fragmentsPerFd g1)" "in_alloc x2" using c2 fds by simp_all
  have one_in: "1 \<in> {0, 1 :: nat}" "1 \<noteq> (0 :: nat)" by simp_all
  obtain t' g' item where one: "recv_one h2 lb x2 (t1, g1) = Some (t', g')" "queued ?k g' = [] @ [item]"
    "item_key item = ?k" "ri_bytes item = length ev"
    "\<forall>j<length ev. ri_event item ! j = (if j div ?m \<in> {0, 1} then Some (ev ! j) else None)"
    using duplicate_step[OF m st' conjunct1[OF c2] one_in fd2 total] by blast
  have full: "recv_run h2 lb xs (t, g) = Some (t', g')" unfolding xs recv_run_snoc run by (simp add: one(1))
  have c: "\<exists>i. carries h2 lb ?m ev ?k x i" if "x \<in> set xs" for x
    using arrives_carries[OF m ev(2) mtu frames arr] arrives_set[OF arr that] by blast
  have "rs_eventQueue g' = [item]"
    using single_event_queue[OF full F(2) c ok] one(2) by simp
  moreover have "ri_event item ! j = (if j < 2 * ?m then Some (ev ! j) else None)" if "j < length ev" for j
  proof -
    have "j div ?m \<in> {0, 1} \<longleftrightarrow> j div ?m < 2" by auto
    also have "\<dots> \<longleftrightarrow> j < 2 * ?m" using m by (simp add: div_less_iff_less_mult)
    finally show ?thesis using one(5) that by simp
  qed
  ultimately show ?thesis using full one(3,4)
    by (auto simp: getEvent_def reas_dequeue_def item_out_def item_key_def)
qed

section \<open>The first datagram of an event\<close>

text \<open>What a plain datagram (no LB header) is to \<open>recv_one\<close>.\<close>

lemma seg_in_plain:
  assumes "seg_in h2 False x (re_bytes h1 (re_set h1 d off len ev REHdr_new) @ payload) = (hdr, nbytes, pl)"
    and "sizeof_REHdr + length payload \<le> RECV_BUFFER_SIZE"
  shows "re_validate hdr" "re_get_dataId h2 hdr = d" "re_get_bufferOffset h2 hdr = off"
    "re_get_bufferLength h2 hdr = len" "re_get_eventNum h2 hdr = ev"
    "nbytes = int (length payload)" "pl = payload"
proof -
  let ?d = "re_bytes h1 (re_set h1 d off len ev REHdr_new) @ payload"
  have lr: "length (re_bytes h1 (re_set h1 d off len ev REHdr_new)) = sizeof_REHdr" by (rule re_wire.to_bytes_length)
  have tk: "take RECV_BUFFER_SIZE ?d = ?d" using assms(2) lr by simp
  have H: "hdr = re_cast h2 (re_bytes h1 (re_set h1 d off len ev REHdr_new) @ payload @ map (in_junk x) [length ?d..<RECV_BUFFER_SIZE])"
    "nbytes = int (length payload)" "pl = payload"
    using assms(1) unfolding seg_in_def Let_def recv_buffer_def tk by (auto simp: lr slice_at_def)
  show "re_validate hdr" unfolding H(1) by (rule re_cross_validate)
  show "re_get_dataId h2 hdr = d" "re_get_bufferOffset h2 hdr = off" "re_get_bufferLength h2 hdr = len"
    "re_get_eventNum h2 hdr = ev" by (rule re_cross_get[OF H(1)])+
  show "nbytes = int (length payload)" "pl = payload" by (rule H)+
qed

lemma recv_starts_event:
  assumes x: "in_outcome x = RecvData (re_bytes h1 (re_set h1 d off len ev REHdr_new) @ payload)"
    and fd: "in_fd x < length (rs_fragmentsPerFd g)" and size: "sizeof_REHdr + length payload \<le> RECV_BUFFER_SIZE"
    and range: "unat off + length payload \<le> unat len" "length payload < unat len"
    and new: "rt_eventsInProgress t = []"
  shows "\<exists>b. length b = unat len \<and> recv_one h2 False x (t, g) = Some
    (t\<lparr>rt_eventsInProgress := [((ev, d), \<lparr>ri_firstSegment = in_now x, ri_numFragments = 1, ri_bytes = unat len,
        ri_curBytes = length payload, ri_eventNum = ev, ri_event = b, ri_dataId = d\<rparr>)]\<rparr>,
     count_packet (in_fd x) (re_bytes h1 (re_set h1 d off len ev REHdr_new) @ payload) g)"
proof -
  let ?d = "re_bytes h1 (re_set h1 d off len ev REHdr_new) @ payload"
  obtain hdr nbytes pl where s: "seg_in h2 False x ?d = (hdr, nbytes, pl)" by (metis prod_cases3)
  note G = seg_in_plain[OF s size]
  have l: "locate_item h2 (in_now x) hdr (rt_eventsInProgress t) =
      (initFromHeader h2 (in_now x) hdr, [((ev, d), initFromHeader h2 (in_now x) hdr)])"
    by (simp add: locate_item_def new G Let_def)
  have le: "unat off + length payload \<le> length (ri_event (initFromHeader h2 (in_now x) hdr))"
    using range(1) by (simp add: initFromHeader_def G)
  let ?b = "buf_write (unat off) payload (ri_event (initFromHeader h2 (in_now x) hdr))"
  have b: "memcpy_at (unat off) payload (ri_event (initFromHeader h2 (in_now x) hdr)) = Some ?b"
    using le by (simp add: memcpy_at_def)
  have "length ?b = unat len" using le by (simp add: initFromHeader_def G)
  then show ?thesis using recv_one_data[OF x s l, of g] fd range(2) b
    by (intro exI[of _ ?b]) (simp add: G finish_item_def hdr_key_def absorb_def initFromHeader_def)
qed

section \<open>Ranges outside the buffer\<close>

text \<open>A first datagram longer than the event it announces is copied past the end of the buffer.\<close>

lemma overlong_first_fragment:
  assumes "in_outcome x = RecvData (re_bytes h1 (re_set h1 d 0 len ev REHdr_new) @ payload)"
    and "in_fd x < length (rs_fragmentsPerFd g)" and "unat len < length payload"
    and "sizeof_REHdr + length payload \<le> RECV_BUFFER_SIZE"
  shows "recv_one h2 False x (t, g) = None"
proof -
  obtain hdr nbytes pl where s: "seg_in h2 False x (re_bytes h1 (re_set h1 d 0 len ev REHdr_new) @ payload) = (hdr, nbytes, pl)"
    by (metis prod_cases3)
  note G = seg_in_plain[OF s assms(4)]
  obtain item prog where l: "locate_item h2 (in_now x) hdr (rt_eventsInProgress t) = (item, prog)" by fastforce
  have "item = initFromHeader h2 (in_now x) hdr" using l by (simp add: locate_item_def G Let_def)
  then have "length (ri_event item) = unat len" by (simp add: initFromHeader_def G)
  then have "memcpy_at 0 payload (ri_event item) = None" using assms(3) by (simp add: memcpy_at_def)
  then show ?thesis using recv_one_data[OF assms(1) s l, of g] assms(2) by (simp add: G)
qed

section \<open>Rejected datagrams\<close>

lemma recv_buffer_nth: "i < length d \<Longrightarrow> length d \<le> RECV_BUFFER_SIZE \<Longrightarrow> recv_buffer x d ! i = d ! i"
  by (simp add: recv_buffer_def nth_append)

text \<open>A datagram whose header does not validate is counted and leaves tables, losses and queue alone.\<close>

lemma rejected_datagram:
  assumes "in_outcome x = RecvData d" and "in_fd x < length (rs_fragmentsPerFd g)"
    and "\<not> re_validate (fst (seg_in h lb x d))"
  shows "recv_one h lb x (t, g) = Some (t, (count_packet (in_fd x) d g)\<lparr>rs_badHeaderDiscards := rs_badHeaderDiscards g + 1\<rparr>)"
proof -
  obtain hdr nbytes pl where s: "seg_in h lb x d = (hdr, nbytes, pl)" by (metis prod_cases3)
  obtain item prog where l: "locate_item h (in_now x) hdr (rt_eventsInProgress t) = (item, prog)" by fastforce
  show ?thesis using recv_one_data[OF assms(1) s l, of g] assms(2,3) s by simp
qed

text \<open>What a datagram whose RE header does not validate changes: the counts of what was received and of discards.\<close>

lemma bad_header_discarded:
  assumes "in_outcome x = RecvData d" and "in_fd x < length (rs_fragmentsPerFd g)"
    and "\<not> re_validate (re_cast h (drop (if lb then sizeof_LBHdr else 0) (recv_buffer x d)))"
    and "recv_one h lb x (t, g) = Some (t', g')"
  shows "t' = t \<and> rs_eventQueue g' = rs_eventQueue g \<and> rs_badHeaderDiscards g' = rs_badHeaderDiscards g + 1 \<and>
    rs_totalPacketsReceived g' = rs_totalPacketsReceived g + 1 \<and>
    rs_totalBytesReceived g' = rs_totalBytesReceived g + word_of_nat (min (length d) RECV_BUFFER_SIZE) \<and>
    rs_fragmentsPerFd g' = (rs_fragmentsPerFd g)[in_fd x := rs_fragmentsPerFd g ! in_fd x + 1] \<and>
    rs_lostEventsQueue g' = rs_lostEventsQueue g \<and> rs_enqueueLoss g' = rs_enqueueLoss g \<and>
    rs_reassemblyLoss g' = rs_reassemblyLoss g \<and> rs_eventSuccess g' = rs_eventSuccess g"
proof -
  have "\<not> re_validate (fst (seg_in h lb x d))" using assms(3) by (simp add: seg_in_def Let_def)
  from rejected_datagram[OF assms(1,2) this] assms(4)
  have "t' = t" "g' = (count_packet (in_fd x) d g)\<lparr>rs_badHeaderDiscards := rs_badHeaderDiscards g + 1\<rparr>" by auto
  then show ?thesis by (simp add: count_packet_def min.commute)
qed

end
