(* ===== verification/E2SAR_Net.thy ===== *)
theory E2SAR_Net
  imports E2SAR_Errors "HOL-Library.Char_ord"
begin

text \<open>
  The small parsers and helpers of \<^verbatim>\<open>include/e2sarUtil.hpp\<close> and \<^verbatim>\<open>src/e2sarUtil.cpp\<close>, the host
  queries of \<^verbatim>\<open>src/e2sarNetUtil.cpp\<close>, the affinity calls of \<^verbatim>\<open>src/e2sarAffinity.cpp\<close> and \<open>get_PortRange\<close>
  of \<^verbatim>\<open>include/e2sarCP.hpp\<close>.

  Boost and the operating system are parameters: the record \<open>host_ops\<close> says what
  \<open>make_address\<close> reads in a string (\<open>None\<close> when it throws), how an address prints, what a name
  resolves to, and what the environment holds.
\<close>

section \<open>Numbers in strings\<close>

definition digit_char :: "nat \<Rightarrow> char" where
  "digit_char n = char_of (48 + n)"

definition digit_value :: "char \<Rightarrow> nat" where
  "digit_value c = (of_char c :: nat) - 48"

definition is_digit :: "char \<Rightarrow> bool" where
  "is_digit c \<longleftrightarrow> 48 \<le> (of_char c :: nat) \<and> (of_char c :: nat) \<le> 57"

definition is_space :: "char \<Rightarrow> bool" where
  "is_space c \<longleftrightarrow> c = CHR '' '' \<or> (9 \<le> (of_char c :: nat) \<and> (of_char c :: nat) \<le> 13)"

text \<open>\<^verbatim>\<open>std::to_string\<close> of an unsigned number.\<close>

fun nat_str :: "nat \<Rightarrow> string" where
  "nat_str n = (if n < 10 then [digit_char n] else nat_str (n div 10) @ [digit_char (n mod 10)])"

declare nat_str.simps [simp del]

definition digits_value :: "string \<Rightarrow> nat" where
  "digits_value ds = fold (\<lambda>c v. 10 * v + digit_value c) ds 0"

text \<open>
  \<^verbatim>\<open>std::stoi\<close>: white space and a sign are skipped, the longest run of digits is read, what follows
  is ignored; no digit or a value outside \<^verbatim>\<open>int\<close> throws.
\<close>

definition stoi :: "string \<Rightarrow> int option" where
  "stoi s =
     (let s1 = dropWhile is_space s;
          neg = (s1 \<noteq> [] \<and> hd s1 = CHR ''-'');
          s2 = (if s1 \<noteq> [] \<and> (hd s1 = CHR ''-'' \<or> hd s1 = CHR ''+'') then tl s1 else s1);
          ds = takeWhile is_digit s2;
          v = (if neg then - int (digits_value ds) else int (digits_value ds))
      in if ds = [] \<or> v < - (2 ^ 31) \<or> v > 2 ^ 31 - 1 then None else Some v)"

lemma of_char_digit [simp]: "n < 10 \<Longrightarrow> (of_char (digit_char n) :: nat) = 48 + n"
  by (simp add: digit_char_def)

lemma digit_char_props [simp]:
  "n < 10 \<Longrightarrow> is_digit (digit_char n)" "n < 10 \<Longrightarrow> digit_value (digit_char n) = n"
  by (simp_all add: is_digit_def digit_value_def)

lemma nat_str_digits: "list_all is_digit (nat_str n)"
  by (induction n rule: nat_str.induct) (subst nat_str.simps, simp)

lemma nat_str_not_Nil [simp]: "nat_str n \<noteq> []"
  by (subst nat_str.simps) simp

lemma digits_value_nat_str: "digits_value (nat_str n) = n"
proof (induction n rule: nat_str.induct)
  case (1 n)
  then show ?case by (subst nat_str.simps) (simp add: digits_value_def)
qed

lemma is_digit_not_special:
  assumes "is_digit c"
  shows "\<not> is_space c" "c \<noteq> CHR ''-''" "c \<noteq> CHR ''+''" "c \<noteq> CHR '':''" "c \<noteq> CHR '']''" "c \<noteq> CHR ''[''"
  using assms by (auto simp: is_digit_def is_space_def)

lemma takeWhile_all: "list_all P xs \<Longrightarrow> takeWhile P xs = xs"
  by (simp add: list_all_iff)

lemma stoi_nat_str: "n < 2 ^ 31 \<Longrightarrow> stoi (nat_str n) = Some (int n)"
proof -
  assume n: "n < 2 ^ 31"
  obtain c cs where s: "nat_str n = c # cs" by (cases "nat_str n") auto
  have c: "is_digit c" using nat_str_digits[of n] s by simp
  have ds: "takeWhile is_digit (nat_str n) = nat_str n" by (rule takeWhile_all[OF nat_str_digits])
  have skip: "dropWhile is_space (nat_str n) = nat_str n" using is_digit_not_special(1)[OF c] s by simp
  have hd: "hd (nat_str n) \<noteq> CHR ''-''" "hd (nat_str n) \<noteq> CHR ''+''"
    using is_digit_not_special[OF c] s by simp_all
  have "int n \<le> 2 ^ 31 - 1" using n by simp
  then show ?thesis using hd
    unfolding stoi_def Let_def skip by (simp add: ds digits_value_nat_str)
qed

section \<open>Addresses\<close>

datatype ip_address = V4 u32 | V6 "128 word"

definition is_v4 :: "ip_address \<Rightarrow> bool" where
  "is_v4 a = (case a of V4 _ \<Rightarrow> True | V6 _ \<Rightarrow> False)"

definition is_v6 :: "ip_address \<Rightarrow> bool" where
  "is_v6 a = (case a of V4 _ \<Rightarrow> False | V6 _ \<Rightarrow> True)"

text \<open>A default constructed address is 0.0.0.0.\<close>

definition ip_default :: ip_address where
  "ip_default = V4 0"

lemma is_v4_v6 [simp]: "is_v4 (V4 a)" "\<not> is_v4 (V6 b)" "is_v6 (V6 b)" "\<not> is_v6 (V4 a)"
  by (simp_all add: is_v4_def is_v6_def)

lemma not_is_v4: "\<not> is_v4 a \<longleftrightarrow> is_v6 a"
  by (cases a) simp_all

record host_ops =
  make_address :: "string \<Rightarrow> ip_address option"
  addr_str :: "ip_address \<Rightarrow> string"
  resolve :: "string \<Rightarrow> ip_address list option"
  getenv :: "string \<Rightarrow> string option"

definition string_to_ip :: "host_ops \<Rightarrow> string \<Rightarrow> ip_address result" where
  "string_to_ip h addr =
     (let text = (if addr \<noteq> [] \<and> hd addr = CHR ''['' then take (length addr - 2) (tl addr) else addr)
      in case make_address h text of
           Some a \<Rightarrow> Ok a
         | None \<Rightarrow> Err ParameterError (''Unable to convert IP address from '' @ addr))"

text \<open>The number read is narrowed to 16 bits before its range is looked at.\<close>

definition string_to_port :: "string \<Rightarrow> u16 result" where
  "string_to_port port_string =
     (case stoi port_string of
        None \<Rightarrow> Err ParameterError (''Unable to convert '' @ port_string @ '' to integer'')
      | Some v \<Rightarrow>
          (let port = (word_of_int v :: u16)
           in if unat port < 1024 \<or> unat port > 65535
              then Err OutOfRange (''Port value '' @ port_string @ '' is out of range'')
              else Ok port))"

text \<open>\<^verbatim>\<open>find_last_of\<close>: the last position of one of the characters.\<close>

fun find_last_of :: "char list \<Rightarrow> string \<Rightarrow> nat option" where
  "find_last_of cs [] = None"
| "find_last_of cs (x # xs) =
     (case find_last_of cs xs of
        Some p \<Rightarrow> Some (Suc p)
      | None \<Rightarrow> if x \<in> set cs then Some 0 else None)"

definition string_tuple_to_ip_and_port :: "host_ops \<Rightarrow> string \<Rightarrow> (ip_address \<times> u16) result" where
  "string_tuple_to_ip_and_port h t =
     (let bad = Err ParameterError (''Unable to convert '' @ t @ '' to ip address and port'')
      in case find_last_of '']:'' t of
           None \<Rightarrow> (case string_to_ip h t of Inr a \<Rightarrow> Ok (a, 0) | Inl _ \<Rightarrow> bad)
         | Some pos \<Rightarrow>
             if t ! pos = CHR '']'' then (case string_to_ip h t of Inr a \<Rightarrow> Ok (a, 0) | Inl _ \<Rightarrow> bad)
             else (case (string_to_ip h (take pos t), string_to_port (drop (pos + 1) t)) of
                     (Inr a, Inr p) \<Rightarrow> Ok (a, p)
                   | _ \<Rightarrow> bad))"

definition resolveHost :: "host_ops \<Rightarrow> string \<Rightarrow> ip_address list result" where
  "resolveHost h host_name =
     (case resolve h host_name of
        Some addresses \<Rightarrow> Ok addresses
      | None \<Rightarrow> Err NotFound (''Unable to convert '' @ host_name @ '' to ip address''))"

lemma u16_less: "unat (q :: u16) < 65536"
  using unsigned_less[where ?'a = nat and w = q] by simp

lemma string_to_port_iff:
  "string_to_port s = Ok p \<longleftrightarrow> (\<exists>v. stoi s = Some v \<and> p = word_of_int v \<and> 1024 \<le> unat p)"
proof -
  have u: "\<not> 65535 < unat q" for q :: u16 using u16_less[of q] by simp
  show ?thesis
    by (auto simp: string_to_port_def Let_def not_less u split: option.splits if_splits)
qed

lemma find_last_of_snoc_other:
  "list_all (\<lambda>c. c \<notin> set cs) ys \<Longrightarrow> find_last_of cs (xs @ ys) = find_last_of cs xs"
proof (induction xs)
  case Nil
  then show ?case by (induction ys) auto
next
  case (Cons x xs)
  then show ?case by simp
qed

lemma find_last_of_snoc: "c \<in> set cs \<Longrightarrow> find_last_of cs (xs @ [c]) = Some (length xs)"
  by (induction xs) auto

lemma find_last_of_split:
  assumes "c \<in> set cs" and "list_all (\<lambda>x. x \<notin> set cs) ys"
  shows "find_last_of cs (xs @ c # ys) = Some (length xs)"
  using find_last_of_snoc_other[OF assms(2), of "xs @ [c]"] find_last_of_snoc[OF assms(1), of xs] by simp

text \<open>Printing an address with a port the way a URI does, and reading it back.\<close>

definition addr_port_str :: "host_ops \<Rightarrow> ip_address \<Rightarrow> u16 \<Rightarrow> string" where
  "addr_port_str h a p = (if is_v6 a then ''['' @ addr_str h a @ '']'' else addr_str h a) @ '':'' @ nat_str (unat p)"

lemma nat_str_no_special: "list_all (\<lambda>x. x \<notin> set '']:'') (nat_str n)"
  using nat_str_digits[of n] is_digit_not_special(4,5) by (auto simp: list_all_iff)

lemma string_to_ip_printed:
  assumes "make_address h (addr_str h a) = Some a" and "is_v4 a \<Longrightarrow> hd (addr_str h a) \<noteq> CHR ''[''"
  shows "string_to_ip h (if is_v6 a then ''['' @ addr_str h a @ '']'' else addr_str h a) = Ok a"
  using assms not_is_v4[of a] by (auto simp: string_to_ip_def Let_def)

lemma string_tuple_roundtrip:
  assumes "make_address h (addr_str h a) = Some a" and "is_v4 a \<Longrightarrow> hd (addr_str h a) \<noteq> CHR ''[''"
    and "1024 \<le> unat p"
  shows "string_tuple_to_ip_and_port h (addr_port_str h a p) = Ok (a, p)"
proof -
  let ?a = "if is_v6 a then ''['' @ addr_str h a @ '']'' else addr_str h a"
  have pos: "find_last_of '']:'' (?a @ CHR '':'' # nat_str (unat p)) = Some (length ?a)"
    by (rule find_last_of_split[OF _ nat_str_no_special]) simp
  have "unat p < 2 ^ 31" using u16_less[of p] by simp
  then have port: "string_to_port (nat_str (unat p)) = Ok p"
    unfolding string_to_port_iff using stoi_nat_str[of "unat p"] assms(3) by auto
  note ip = string_to_ip_printed[OF assms(1,2)]
  have t: "addr_port_str h a p = ?a @ CHR '':'' # nat_str (unat p)" by (simp add: addr_port_str_def)
  have "(?a @ CHR '':'' # nat_str (unat p)) ! length ?a = CHR '':''" by (rule nth_append_length)
  moreover have "take (length ?a) (?a @ CHR '':'' # nat_str (unat p)) = ?a" by simp
  moreover have "drop (length ?a + 1) (?a @ CHR '':'' # nat_str (unat p)) = nat_str (unat p)" by simp
  ultimately show ?thesis
    unfolding string_tuple_to_ip_and_port_def t pos Let_def option.case using ip port by simp
qed

section \<open>Helpers\<close>

definition pair_hash :: "u64 \<times> u16 \<Rightarrow> u64" where
  "pair_hash p =
     (let tmp = (ucast (snd p) :: u64);
          hash2 = tmp OR push_bit 16 tmp OR push_bit 32 tmp OR push_bit 48 tmp
      in fst p XOR hash2)"

definition pair_equal :: "u64 \<times> u16 \<Rightarrow> u64 \<times> u16 \<Rightarrow> bool" where
  "pair_equal l r \<longleftrightarrow> fst l = fst r \<and> snd l = snd r"

fun concatWithSeparator :: "string list \<Rightarrow> string \<Rightarrow> string" where
  "concatWithSeparator [] sep = []"
| "concatWithSeparator [x] sep = x"
| "concatWithSeparator (x # y # ys) sep = x @ sep @ concatWithSeparator (y # ys) sep"

definition expandTilde :: "host_ops \<Rightarrow> string \<Rightarrow> string" where
  "expandTilde h path =
     (if path = [] \<or> hd path \<noteq> CHR ''~'' then path
      else if length path = 1 \<or> path ! 1 = CHR ''/'' then
        (case getenv h ''HOME'' of Some home \<Rightarrow> home @ tl path | None \<Rightarrow> path)
      else path)"

text \<open>
  The map from a number of sources to the \<^verbatim>\<open>PortRange\<close> value of the control plane protocol.  The
  argument is a C \<^verbatim>\<open>int\<close>; \<open>maxCount\<close> is doubled until it holds the sources.
\<close>

function port_range_loop :: "int \<Rightarrow> int \<Rightarrow> nat \<Rightarrow> nat" where
  "port_range_loop source_count maxCount iteration =
     (if 0 < maxCount \<and> maxCount < source_count
      then port_range_loop source_count (2 * maxCount) (iteration + 1)
      else iteration)"
  by auto
termination by (relation "measure (\<lambda>(s, m, i). nat (s - m))") auto

definition get_PortRange :: "int \<Rightarrow> nat" where
  "get_PortRange source_count =
     (if source_count < 2 then 0
      else if source_count > 16384 then 14
      else port_range_loop source_count 2 1)"

declare port_range_loop.simps [simp del]

lemma port_range_loop_bounds:
  assumes "m = 2 ^ i" and "m < 2 * n" and "r = port_range_loop n m i" and "0 < i" and "2 \<le> n"
  shows "n \<le> 2 ^ r \<and> 2 ^ r < 2 * n \<and> i \<le> r"
  using assms
proof (induction n m i arbitrary: r rule: port_range_loop.induct)
  case (1 n m i)
  show ?case
  proof (cases "m < n")
    case True
    have m0: "0 < m" using "1.prems"(1) by simp
    have r: "r = port_range_loop n (2 * m) (i + 1)"
      unfolding "1.prems"(3) by (subst port_range_loop.simps) (simp add: True m0)
    have m2: "2 * m = 2 ^ (i + 1)" "2 * m < 2 * n" using "1.prems"(1) True by simp_all
    have "n \<le> 2 ^ r \<and> 2 ^ r < 2 * n \<and> i + 1 \<le> r"
      by (rule "1.IH"[OF _ m2 r]) (use True m0 "1.prems"(5) in simp_all)
    then show ?thesis by simp
  next
    case False
    then have "r = i" unfolding "1.prems"(3) by (subst port_range_loop.simps) simp
    then show ?thesis using "1.prems"(1,2) False by simp
  qed
qed

text \<open>The least exponent whose power holds the sources, within 0 and 14.\<close>

lemma get_PortRange_bounds:
  assumes "2 \<le> n" and "n \<le> 16384"
  shows "n \<le> 2 ^ get_PortRange n" and "2 ^ get_PortRange n < 2 * n" and "get_PortRange n \<le> 14"
    and "1 \<le> get_PortRange n"
proof -
  let ?r = "get_PortRange n"
  have r: "?r = port_range_loop n 2 1" using assms by (simp add: get_PortRange_def)
  from port_range_loop_bounds[OF _ _ r] assms(1)
  have b: "n \<le> 2 ^ ?r" "2 ^ ?r < 2 * n" "1 \<le> ?r" by simp_all
  then show "n \<le> 2 ^ ?r" "2 ^ ?r < 2 * n" "1 \<le> ?r" by simp_all
  have "(2::int) ^ ?r < 2 ^ 15" using b(2) assms(2) by simp
  then have "?r < 15" by (rule power_less_imp_less_exp[rotated]) simp
  then show "?r \<le> 14" by simp
qed

lemma get_PortRange_le: "get_PortRange n \<le> 14"
  using get_PortRange_bounds(3)[of n] by (cases "2 \<le> n \<and> n \<le> 16384") (auto simp: get_PortRange_def)

end
