(* ===== verification/E2SAR_Host.thy ===== *)
theory E2SAR_Host
  imports E2SAR_Net
begin

text \<open>
  \<^verbatim>\<open>src/e2sarNetUtil.cpp\<close> and \<^verbatim>\<open>src/e2sarAffinity.cpp\<close>: what the library asks the host it runs on.  The
  answers of the kernel are parameters (an \<^verbatim>\<open>errno\<close> where a call fails); what the code makes of
  them is modelled.
\<close>

section \<open>Interfaces and addresses\<close>

text \<open>
  One socket address as \<open>getifaddrs\<close> lists it.  An IPv6 address carries its flow information at the
  place where an IPv4 address has the address itself.
\<close>

datatype sock_address = SA_INET u32 | SA_INET6 u32 "128 word" | SA_OTHER

record if_entry =
  ifa_name :: string
  ifa_addr :: "sock_address option"

text \<open>The bytes at \<^verbatim>\<open>((struct sockaddr_in*) a)->sin_addr\<close>, whatever the family is.\<close>

fun sin_addr_view :: "sock_address \<Rightarrow> u32" where
  "sin_addr_view (SA_INET a) = a"
| "sin_addr_view (SA_INET6 flowinfo a) = flowinfo"
| "sin_addr_view SA_OTHER = 0"

definition family_selected :: "bool \<Rightarrow> sock_address \<Rightarrow> bool" where
  "family_selected v6 a \<longleftrightarrow> (case a of SA_INET _ \<Rightarrow> \<not> v6 | SA_INET6 _ _ \<Rightarrow> v6 | SA_OTHER \<Rightarrow> False)"

definition interface_ip :: "string \<Rightarrow> bool \<Rightarrow> if_entry \<Rightarrow> ip_address option" where
  "interface_ip interfaceName v6 ifa =
     (case ifa_addr ifa of
        None \<Rightarrow> None
      | Some a \<Rightarrow> if ifa_name ifa = interfaceName \<and> family_selected v6 a
                  then Some (V4 (sin_addr_view a)) else None)"

definition getInterfaceIPs ::
  "string \<Rightarrow> bool \<Rightarrow> string + if_entry list \<Rightarrow> ip_address list result" where
  "getInterfaceIPs interfaceName v6 ifaddrs =
     (case ifaddrs of
        Inl e \<Rightarrow> Err SystemError e
      | Inr es \<Rightarrow> Ok (List.map_filter (interface_ip interfaceName v6) es))"

definition getMTU :: "nat option \<Rightarrow> nat" where
  "getMTU ioctl_mtu = (case ioctl_mtu of Some mtu \<Rightarrow> mtu | None \<Rightarrow> 1500)"

definition getHostName :: "string option \<Rightarrow> string result" where
  "getHostName name = (case name of Some n \<Rightarrow> Ok n | None \<Rightarrow> Err SystemError ''Unable to retrieve hostname'')"

section \<open>The route query\<close>

text \<open>The reply of the routing socket: messages with their attributes (type and value).\<close>

datatype nl_msg = NlDone | NlError int | NlRoute "(int \<times> int) list"

definition RTA_OIF :: int where
  "RTA_OIF = 4"

record route_ops =
  ro_socket :: "int option"
  ro_sendto :: "int option"
  ro_recv :: "ip_address \<Rightarrow> int + nl_msg list"
  ro_ifname :: "int \<Rightarrow> string"
  ro_mtu :: "string \<Rightarrow> nat option"
  ro_ifaddrs :: "string + if_entry list"
  ro_strerror :: "int \<Rightarrow> string"

definition oif_of :: "(int \<times> int) list \<Rightarrow> int option" where
  "oif_of attrs = map_option snd (List.find (\<lambda>(t, v). t = RTA_OIF) attrs)"

fun route_walk :: "route_ops \<Rightarrow> nl_msg list \<Rightarrow> (string \<times> u16) result" where
  "route_walk r [] = Err SocketError ''Unrecoverable NETLINK error''"
| "route_walk r (NlDone # ms) = Err SocketError ''Unrecoverable NETLINK error''"
| "route_walk r (NlError e # ms) = Err SocketError (ro_strerror r (- e))"
| "route_walk r (NlRoute attrs # ms) =
     (case oif_of attrs of
        Some ifindex \<Rightarrow>
          (let ifname = ro_ifname r ifindex in Ok (ifname, word_of_nat (getMTU (ro_mtu r ifname))))
      | None \<Rightarrow> route_walk r ms)"

definition getInterfaceAndMTU :: "route_ops \<Rightarrow> ip_address \<Rightarrow> (string \<times> u16) result" where
  "getInterfaceAndMTU r addr =
     (case ro_socket r of
        Some e \<Rightarrow> Err SocketError (ro_strerror r e)
      | None \<Rightarrow>
          (case ro_sendto r of
             Some e \<Rightarrow> Err SocketError (ro_strerror r e)
           | None \<Rightarrow>
               (case ro_recv r addr of
                  Inl e \<Rightarrow> Err SocketError (ro_strerror r e)
                | Inr ms \<Rightarrow> route_walk r ms)))"

text \<open>\<open>getSocketOutstandingBytes\<close> and the loop that waits for a socket to run dry before closing it.\<close>

definition getSocketOutstandingBytes :: "(int \<Rightarrow> string) \<Rightarrow> int + int \<Rightarrow> int result" where
  "getSocketOutstandingBytes strerror res =
     (case res of Inl e \<Rightarrow> Err SocketError (strerror e) | Inr outstanding \<Rightarrow> Ok outstanding)"

fun waitAndClose :: "(int \<Rightarrow> string) \<Rightarrow> (int + int) list \<Rightarrow> nat option" where
  "waitAndClose strerror [] = None"
| "waitAndClose strerror (q # qs) =
     (case getSocketOutstandingBytes strerror q of
        Inl _ \<Rightarrow> Some 1
      | Inr n \<Rightarrow> if n = 0 then Some 1 else map_option Suc (waitAndClose strerror qs))"

section \<open>Affinity\<close>

text \<open>
  A CPU mask is a set of cores.  \<open>sched_setaffinity\<close> reports an error as -1 with \<^verbatim>\<open>errno\<close>, the
  pthread calls return the error number itself, which is positive.
\<close>

fun core_mask :: "int list \<Rightarrow> int set \<Rightarrow> int set option" where
  "core_mask [] s = Some s"
| "core_mask (c # cs) s = (if c < 0 then None else core_mask cs (insert c s))"

definition setProcess :: "(int \<Rightarrow> string) \<Rightarrow> (int set \<Rightarrow> int option) \<Rightarrow> int list \<Rightarrow> int result \<times> int set option" where
  "setProcess strerror setaffinity cores =
     (case core_mask cores {} of
        None \<Rightarrow> (Err OutOfRange ''Invalid core number'', None)
      | Some cpuset \<Rightarrow>
          (case setaffinity cpuset of
             Some e \<Rightarrow> (Err SystemError (strerror e), None)
           | None \<Rightarrow> (Ok 0, Some cpuset)))"

definition setThread :: "(int \<Rightarrow> string) \<Rightarrow> (int set \<Rightarrow> int) \<Rightarrow> int \<Rightarrow> int result" where
  "setThread strerror pthread_set core =
     (if core < 0 then Err OutOfRange ''Invalid core number''
      else let err = pthread_set {core}
           in if err < 0 then Err SystemError (strerror err) else Ok err)"

definition setThreadXOR ::
  "(int \<Rightarrow> string) \<Rightarrow> int \<times> int set \<Rightarrow> (int set \<Rightarrow> int) \<Rightarrow> int list \<Rightarrow> int result \<times> int set option" where
  "setThreadXOR strerror current pthread_set cores =
     (case core_mask cores {} of
        None \<Rightarrow> (Err OutOfRange ''Invalid core number'', None)
      | Some cpuset \<Rightarrow>
          (case current of (err, curset) \<Rightarrow>
             if err < 0 then (Err SystemError (strerror err), None)
             else let xorset = (cpuset - curset) \<union> (curset - cpuset);
                      err' = pthread_set xorset
                  in if err' < 0 then (Err SystemError (strerror err'), None)
                     else (Ok err', Some xorset)))"

definition setNUMABind :: "int \<Rightarrow> bool \<Rightarrow> int \<Rightarrow> int result \<times> int option" where
  "setNUMABind numa_max_node numa_ok node =
     (let nr_nodes = numa_max_node + 1
      in if \<not> numa_ok then (Err SystemError ''NUMA management not supported on this system'', None)
         else if node > nr_nodes - 1 \<or> node < 0 then
           (Err ParameterError ''Requested NUMA node not valid'', None)
         else (Ok 0, Some node))"

section \<open>Lemmas\<close>

lemma core_mask_Some: "core_mask cs s = Some m \<longleftrightarrow> list_all (\<lambda>c. 0 \<le> c) cs \<and> m = s \<union> set cs"
  by (induction cs arbitrary: s) auto

lemma setProcess_ok:
  "setProcess strerror setaffinity cores = (Ok r, m) \<longleftrightarrow>
     list_all (\<lambda>c. 0 \<le> c) cores \<and> setaffinity (set cores) = None \<and> r = 0 \<and> m = Some (set cores)"
proof (cases "core_mask cores {}")
  case None
  then show ?thesis using core_mask_Some[of cores "{}"] by (auto simp: setProcess_def)
next
  case (Some s)
  then have "list_all (\<lambda>c. 0 \<le> c) cores" "s = set cores" using core_mask_Some[of cores "{}" s] by simp_all
  then show ?thesis using Some by (auto simp: setProcess_def split: option.splits)
qed

text \<open>The exclusive or leaves out the listed cores exactly when the thread may run on all of them.\<close>

lemma setThreadXOR_excludes:
  assumes "setThreadXOR strerror (0, curset) pthread_set cores = (Ok r, Some m)"
  shows "m \<inter> set cores = {} \<longleftrightarrow> set cores \<subseteq> curset"
  using assms core_mask_Some[of cores "{}"]
  by (auto simp: setThreadXOR_def Let_def split: option.splits if_splits)

lemma setThread_never_SystemError:
  "0 \<le> pthread_set {core} \<Longrightarrow> 0 \<le> core \<Longrightarrow> setThread strerror pthread_set core = Ok (pthread_set {core})"
  by (simp add: setThread_def Let_def)

text \<open>
  Asked for IPv6 the interface query still answers with IPv4 addresses, made of the flow information.
\<close>

lemma map_filter_all: "(\<And>x y. f x = Some y \<Longrightarrow> P y) \<Longrightarrow> y \<in> set (List.map_filter f xs) \<Longrightarrow> P y"
  by (induction xs) (auto simp: map_filter_simps split: option.splits)

lemma getInterfaceIPs_v4:
  "getInterfaceIPs name v6 ifaddrs = Ok ips \<Longrightarrow> a \<in> set ips \<Longrightarrow> is_v4 a"
  by (auto simp: getInterfaceIPs_def interface_ip_def split: sum.splits option.splits if_splits
      elim!: map_filter_all[rotated])

lemma waitAndClose_polls:
  "waitAndClose strerror qs = Some n \<longleftrightarrow>
     (\<exists>q qs'. drop (n - 1) qs = q # qs' \<and> 0 < n \<and> (q = Inr 0 \<or> (\<exists>e. q = Inl e)) \<and>
        list_all (\<lambda>x. \<exists>v. x = Inr v \<and> v \<noteq> 0) (take (n - 1) qs))"
proof (induction qs arbitrary: n)
  case Nil
  then show ?case by simp
next
  case (Cons q qs)
  show ?case
  proof (cases "\<exists>v. q = Inr v \<and> v \<noteq> 0")
    case True
    then have step: "waitAndClose strerror (q # qs) = map_option Suc (waitAndClose strerror qs)"
      by (auto simp: getSocketOutstandingBytes_def)
    show ?thesis
    proof (cases n)
      case 0
      then show ?thesis using step by simp
    next
      case (Suc k)
      show ?thesis
      proof (cases k)
        case 0
        have "waitAndClose strerror qs \<noteq> Some 0" using Cons.IH[of 0] by simp
        then show ?thesis using step Suc 0 True by auto
      next
        case (Suc j)
        then show ?thesis using step True \<open>n = Suc k\<close> Cons.IH[of k] by auto
      qed
    qed
  next
    case False
    then have now: "q = Inr 0 \<or> (\<exists>e. q = Inl e)" by (cases q) auto
    then have "waitAndClose strerror (q # qs) = Some 1"
      by (auto simp: getSocketOutstandingBytes_def)
    then show ?thesis using now by (cases "n - 1") auto
  qed
qed

end
