(* ===== verification/E2SAR_URI.thy ===== *)
theory E2SAR_URI
  imports E2SAR_Net E2SAR_Host
begin

text \<open>
  The EJFAT URI, \<open>EjfatURI\<close> of \<^verbatim>\<open>include/e2sarUtil.hpp\<close> and \<^verbatim>\<open>src/e2sarUtil.cpp\<close>: its constructor from
  the parsed URL, the tokens by type, the accessors, the two ways it prints, equality, and the three
  factories.

  \<^verbatim>\<open>boost::urls::parse_uri\<close> is a parameter that yields the parts of the URL the code asks for.  The
  members the constructor does not initialise (the three ports) start with the values \<open>junk\<close> of
  the memory the object is built in.
\<close>

section \<open>State\<close>

datatype TokenType = TT_all | TT_admin | TT_instance | TT_session

fun ttAsIdx :: "TokenType \<Rightarrow> nat" where
  "ttAsIdx TT_all = 0"
| "ttAsIdx TT_admin = 1"
| "ttAsIdx TT_instance = 2"
| "ttAsIdx TT_session = 3"

fun tt_toString :: "TokenType \<Rightarrow> string" where
  "tt_toString TT_all = ''ALL''"
| "tt_toString TT_admin = ''LOAD_BALANCER''"
| "tt_toString TT_instance = ''RESERVATION''"
| "tt_toString TT_session = ''SESSION''"

datatype TokenPermission = TP_read_only | TP_register | TP_reserve | TP_update

fun tp_toString :: "TokenPermission \<Rightarrow> string" where
  "tp_toString TP_read_only = ''READ''"
| "tp_toString TP_register = ''REGISTER''"
| "tp_toString TP_reserve = ''RESERVE''"
| "tp_toString TP_update = ''UPDATE''"

record EjfatURI =
  uri_raw :: string
  uri_haveDatav4 :: bool
  uri_haveDatav6 :: bool
  uri_haveSync :: bool
  uri_useTls :: bool
  uri_preferV6 :: bool
  uri_syncPort :: u16
  uri_cpPort :: u16
  uri_dataPort :: u16
  uri_lbName :: string
  uri_lbId :: string
  uri_tokens :: "string list"
  uri_sessionId :: string
  uri_dataAddrv4 :: ip_address
  uri_dataAddrv6 :: ip_address
  uri_syncAddr :: ip_address
  uri_cpAddr :: ip_address
  uri_cpHost :: string

definition DATAPLANE_PORT :: u16 where
  "DATAPLANE_PORT = 19522"

text \<open>The parts of a parsed URL, the query as keys with values.\<close>

record url_view =
  url_scheme :: string
  url_userinfo :: string
  url_host :: string
  url_port :: string
  url_path :: string
  url_params :: "(string \<times> string) list"

section \<open>The constructor\<close>

text \<open>A constructor either throws an \<open>E2SARException\<close> with a message or yields the object.\<close>

type_synonym 'a constructed = "E2SARException + 'a"

abbreviation throw_E2SAR :: "string \<Rightarrow> 'a constructed" where
  "throw_E2SAR m \<equiv> Inl \<lparr>error_msg = m\<rparr>"

definition uri_init :: "u16 \<Rightarrow> string \<Rightarrow> bool \<Rightarrow> EjfatURI" where
  "uri_init junk uri pV6 = \<lparr>uri_raw = uri, uri_haveDatav4 = False, uri_haveDatav6 = False,
     uri_haveSync = False, uri_useTls = False, uri_preferV6 = pV6, uri_syncPort = junk,
     uri_cpPort = junk, uri_dataPort = junk, uri_lbName = [], uri_lbId = [],
     uri_tokens = [[], [], [], []], uri_sessionId = [], uri_dataAddrv4 = ip_default,
     uri_dataAddrv6 = ip_default, uri_syncAddr = ip_default, uri_cpAddr = ip_default, uri_cpHost = []\<rparr>"

text \<open>\<^verbatim>\<open>boost::split\<close> at slashes: one more part than there are slashes.\<close>

fun split_slash :: "string \<Rightarrow> string list" where
  "split_slash [] = [[]]"
| "split_slash (c # cs) =
     (if c = CHR ''/'' then [] # split_slash cs
      else case split_slash cs of [] \<Rightarrow> [[c]] | p # ps \<Rightarrow> (c # p) # ps)"

text \<open>The control plane address: given as a number, or the first of the preferred family a name has.\<close>

definition uri_set_cp :: "host_ops \<Rightarrow> url_view \<Rightarrow> EjfatURI \<Rightarrow> EjfatURI constructed" where
  "uri_set_cp h u e =
     (case (string_to_ip h (url_host u), string_to_port (url_port u)) of
        (Inr a, Inr p) \<Rightarrow> Inr (e\<lparr>uri_cpAddr := a, uri_cpPort := p\<rparr>)
      | (Inl _, Inr p) \<Rightarrow>
          (case resolveHost h (url_host u) of
             Inl err \<Rightarrow> throw_E2SAR (''Unable to resolve host name to IP address in URI '' @ url_host u @
               '' due to '' @ msg err)
           | Inr addresses \<Rightarrow>
               (case List.find (\<lambda>a. if uri_preferV6 e then is_v6 a else is_v4 a) addresses of
                  None \<Rightarrow> throw_E2SAR (''Unable to find '' @ (if uri_preferV6 e then ''IPv6'' else ''IPv4'') @
                    '' address for host '' @ url_host u @ '' in URI '' @ uri_raw e)
                | Some a \<Rightarrow> Inr (e\<lparr>uri_cpAddr := a, uri_cpPort := p, uri_cpHost := url_host u\<rparr>)))
      | (_, Inl _) \<Rightarrow> throw_E2SAR (''Unable to parse CP address and/or port in URI '' @ uri_raw e))"

text \<open>One query parameter.\<close>

definition uri_param :: "host_ops \<Rightarrow> string \<times> string \<Rightarrow> EjfatURI \<Rightarrow> EjfatURI constructed" where
  "uri_param h = (\<lambda>(key, val) e.
     if key = ''sessionid'' then Inr (e\<lparr>uri_sessionId := val\<rparr>)
     else case string_tuple_to_ip_and_port h val of
       Inl _ \<Rightarrow> throw_E2SAR (''Unable to parse '' @ key @ '' address in URI '' @ uri_raw e)
     | Inr (a, p) \<Rightarrow>
         if key = ''sync'' then Inr (e\<lparr>uri_haveSync := True, uri_syncAddr := a, uri_syncPort := p\<rparr>)
         else if key = ''data'' then
           let e1 = (if is_v4 a then e\<lparr>uri_haveDatav4 := True, uri_dataAddrv4 := a\<rparr>
                     else e\<lparr>uri_haveDatav6 := True, uri_dataAddrv6 := a\<rparr>)
           in Inr (e1\<lparr>uri_dataPort := (if p = 0 then DATAPLANE_PORT else p)\<rparr>)
         else throw_E2SAR (''Unknown parameter '' @ key @ '' in URI '' @ uri_raw e))"

fun uri_params :: "host_ops \<Rightarrow> (string \<times> string) list \<Rightarrow> EjfatURI \<Rightarrow> EjfatURI constructed" where
  "uri_params h [] e = Inr e"
| "uri_params h (p # ps) e = (case uri_param h p e of Inl x \<Rightarrow> Inl x | Inr e' \<Rightarrow> uri_params h ps e')"

text \<open>The object once the scheme and the user information have been looked at.\<close>

definition uri_start :: "u16 \<Rightarrow> string \<Rightarrow> TokenType \<Rightarrow> bool \<Rightarrow> url_view \<Rightarrow> EjfatURI" where
  "uri_start junk uri tt pV6 u =
     (let e0 = uri_init junk uri pV6;
          e1 = (if url_scheme u = ''ejfats'' then e0\<lparr>uri_useTls := True\<rparr> else e0)
      in if url_userinfo u \<noteq> [] then e1\<lparr>uri_tokens := (uri_tokens e1)[ttAsIdx tt := url_userinfo u]\<rparr> else e1)"

definition EjfatURI_new ::
  "host_ops \<Rightarrow> (string \<Rightarrow> url_view option) \<Rightarrow> u16 \<Rightarrow> string \<Rightarrow> TokenType \<Rightarrow> bool \<Rightarrow> EjfatURI constructed" where
  "EjfatURI_new h parse_uri junk uri tt pV6 =
     (case parse_uri uri of
        None \<Rightarrow> throw_E2SAR (''Unable to parse the provided URI '' @ uri)
      | Some u \<Rightarrow>
          if url_scheme u \<noteq> ''ejfat'' \<and> url_scheme u \<noteq> ''ejfats'' then
            throw_E2SAR (''Invalid EJFAT URL scheme: '' @ url_scheme u @ '' in URI '' @ uri)
          else
            (case uri_set_cp h u (uri_start junk uri tt pV6 u) of
               Inl x \<Rightarrow> Inl x
             | Inr e3 \<Rightarrow> uri_params h (url_params u) (e3\<lparr>uri_lbId := last (split_slash (url_path u))\<rparr>)))"

section \<open>Accessors\<close>

definition set_Token :: "string \<Rightarrow> TokenType \<Rightarrow> EjfatURI \<Rightarrow> EjfatURI" where
  "set_Token t tt e = e\<lparr>uri_tokens := (uri_tokens e)[ttAsIdx tt := t]\<rparr>"

definition set_InstanceToken :: "string \<Rightarrow> EjfatURI \<Rightarrow> EjfatURI" where
  "set_InstanceToken t e = e\<lparr>uri_tokens := (uri_tokens e)[ttAsIdx TT_instance := t]\<rparr>"

definition set_SessionToken :: "string \<Rightarrow> EjfatURI \<Rightarrow> EjfatURI" where
  "set_SessionToken t e = e\<lparr>uri_tokens := (uri_tokens e)[ttAsIdx TT_session := t]\<rparr>"

definition token_at :: "TokenType \<Rightarrow> EjfatURI \<Rightarrow> string" where
  "token_at tt e = uri_tokens e ! ttAsIdx tt"

definition get_InstanceToken :: "EjfatURI \<Rightarrow> string result" where
  "get_InstanceToken e = (if token_at TT_instance e \<noteq> [] then Ok (token_at TT_instance e)
     else Err ParameterNotAvailable ''Instance token not available'')"

definition get_SessionToken :: "EjfatURI \<Rightarrow> string result" where
  "get_SessionToken e = (if token_at TT_session e \<noteq> [] then Ok (token_at TT_session e)
     else Err ParameterNotAvailable ''Session token not available'')"

definition get_AdminToken :: "EjfatURI \<Rightarrow> string result" where
  "get_AdminToken e = (if token_at TT_admin e \<noteq> [] then Ok (token_at TT_admin e)
     else Err ParameterNotAvailable ''Admin token not available'')"

definition set_lbName :: "string \<Rightarrow> EjfatURI \<Rightarrow> EjfatURI" where
  "set_lbName n e = e\<lparr>uri_lbName := n\<rparr>"

definition set_lbId :: "string \<Rightarrow> EjfatURI \<Rightarrow> EjfatURI" where
  "set_lbId i e = e\<lparr>uri_lbId := i\<rparr>"

definition set_sessionId :: "string \<Rightarrow> EjfatURI \<Rightarrow> EjfatURI" where
  "set_sessionId i e = e\<lparr>uri_sessionId := i\<rparr>"

definition set_syncAddr :: "ip_address \<times> u16 \<Rightarrow> EjfatURI \<Rightarrow> EjfatURI" where
  "set_syncAddr a e = e\<lparr>uri_syncAddr := fst a, uri_syncPort := snd a, uri_haveSync := True\<rparr>"

text \<open>The port of the pair is not stored.\<close>

definition set_dataAddr :: "ip_address \<times> u16 \<Rightarrow> EjfatURI \<Rightarrow> EjfatURI" where
  "set_dataAddr a e =
     (if is_v4 (fst a) then e\<lparr>uri_dataAddrv4 := fst a, uri_haveDatav4 := True\<rparr>
      else e\<lparr>uri_dataAddrv6 := fst a, uri_haveDatav6 := True\<rparr>)"

definition get_cpAddr :: "EjfatURI \<Rightarrow> (ip_address \<times> u16) result" where
  "get_cpAddr e = Ok (uri_cpAddr e, uri_cpPort e)"

definition get_cpHost :: "EjfatURI \<Rightarrow> (string \<times> u16) result" where
  "get_cpHost e = (if uri_cpHost e \<noteq> [] then Ok (uri_cpHost e, uri_cpPort e)
     else Err ParameterNotAvailable ''Control plane hostname not available'')"

definition has_dataAddr :: "EjfatURI \<Rightarrow> bool" where
  "has_dataAddr e \<longleftrightarrow> uri_haveDatav4 e \<or> uri_haveDatav6 e"

definition has_syncAddr :: "EjfatURI \<Rightarrow> bool" where
  "has_syncAddr e \<longleftrightarrow> uri_haveSync e"

definition get_dataAddrv4 :: "EjfatURI \<Rightarrow> (ip_address \<times> u16) result" where
  "get_dataAddrv4 e = (if uri_haveDatav4 e then Ok (uri_dataAddrv4 e, uri_dataPort e)
     else Err ParameterNotAvailable ''Data plane address not available'')"

definition get_dataAddrv6 :: "EjfatURI \<Rightarrow> (ip_address \<times> u16) result" where
  "get_dataAddrv6 e = (if uri_haveDatav6 e then Ok (uri_dataAddrv6 e, uri_dataPort e)
     else Err ParameterNotAvailable ''Data plane address not available'')"

definition get_syncAddr :: "EjfatURI \<Rightarrow> (ip_address \<times> u16) result" where
  "get_syncAddr e = (if uri_haveSync e then Ok (uri_syncAddr e, uri_syncPort e)
     else Err ParameterNotAvailable ''Sync address not available'')"

text \<open>The local addresses towards the data plane; the query for them leaves the family at its default.\<close>

definition getDataplaneLocalAddresses :: "route_ops \<Rightarrow> bool \<Rightarrow> EjfatURI \<Rightarrow> ip_address list result" where
  "getDataplaneLocalAddresses r v6 e =
     (if \<not> has_dataAddr e then Err ParameterNotAvailable ''URI does not have dataplane IP addresses''
      else
        let local = (\<lambda>dp. case getInterfaceAndMTU r dp of
              Inl err \<Rightarrow> Inl err
            | Inr (name, mtu) \<Rightarrow> getInterfaceIPs name False (ro_ifaddrs r))
        in if v6 then
             (if uri_haveDatav6 e then local (uri_dataAddrv6 e)
              else Err ParameterNotAvailable ''URI does not have IPv6 dataplane IP address'')
           else
             (if uri_haveDatav4 e then local (uri_dataAddrv4 e)
              else Err ParameterNotAvailable ''URI does not have IPv4 dataplane IP address''))"

section \<open>Printing and comparing\<close>

definition host_str :: "host_ops \<Rightarrow> ip_address \<Rightarrow> string" where
  "host_str h a = (if is_v6 a then ''['' @ addr_str h a @ '']'' else addr_str h a)"

text \<open>What both printing operations share; they differ in the token they put in front.\<close>

definition uri_text :: "host_ops \<Rightarrow> string \<Rightarrow> EjfatURI \<Rightarrow> string" where
  "uri_text h token e =
     (if uri_useTls e then ''ejfats'' else ''ejfat'') @ ''://'' @ (if token \<noteq> [] then token @ ''@'' else []) @
     (if uri_cpHost e = [] then host_str h (uri_cpAddr e) else uri_cpHost e) @ '':'' @ nat_str (unat (uri_cpPort e)) @
     ''/'' @ (if uri_lbId e \<noteq> [] then ''lb/'' @ uri_lbId e else []) @
     (if uri_haveSync e \<or> uri_haveDatav4 e \<or> uri_haveDatav6 e then ''?'' else []) @
     (if uri_haveSync e then ''sync='' @ host_str h (uri_syncAddr e) @ '':'' @ nat_str (unat (uri_syncPort e)) else []) @
     (if uri_haveSync e \<and> (uri_haveDatav4 e \<or> uri_haveDatav6 e) then ''&'' else []) @
     (if uri_haveDatav4 e then ''data='' @ addr_str h (uri_dataAddrv4 e) @ (if uri_haveDatav6 e then ''&'' else []) else []) @
     (if uri_haveDatav6 e then ''data='' @ ''['' @ addr_str h (uri_dataAddrv6 e) @ '']'' else []) @
     (if uri_sessionId e \<noteq> [] then ''&sessionid='' @ uri_sessionId e else [])"

definition uri_to_string :: "host_ops \<Rightarrow> TokenType \<Rightarrow> EjfatURI \<Rightarrow> string" where
  "uri_to_string h tt e = uri_text h (token_at tt e) e"

definition uri_printed_token :: "EjfatURI \<Rightarrow> string" where
  "uri_printed_token e =
     (let t0 = token_at TT_all e;
          t1 = (if token_at TT_admin e \<noteq> [] then token_at TT_admin e else t0);
          t2 = (if token_at TT_instance e \<noteq> [] then token_at TT_instance e else t1)
      in if token_at TT_session e \<noteq> [] then token_at TT_session e else t2)"

definition uri_string :: "host_ops \<Rightarrow> EjfatURI \<Rightarrow> string" where
  "uri_string h e = uri_text h (uri_printed_token e) e"

definition uri_eq :: "EjfatURI \<Rightarrow> EjfatURI \<Rightarrow> bool" where
  "uri_eq u1 u2 \<longleftrightarrow>
     token_at TT_all u1 = token_at TT_all u2 \<and> token_at TT_admin u1 = token_at TT_admin u2 \<and>
     token_at TT_instance u1 = token_at TT_instance u2 \<and> token_at TT_session u1 = token_at TT_session u2 \<and>
     uri_cpAddr u1 = uri_cpAddr u2 \<and> uri_cpPort u1 = uri_cpPort u2 \<and>
     uri_dataAddrv4 u1 = uri_dataAddrv4 u2 \<and> uri_dataAddrv6 u1 = uri_dataAddrv6 u2 \<and>
     uri_syncAddr u1 = uri_syncAddr u2 \<and> uri_syncPort u1 = uri_syncPort u2 \<and>
     uri_lbId u1 = uri_lbId u2 \<and> uri_sessionId u1 = uri_sessionId u2 \<and> uri_lbName u1 = uri_lbName u2"

section \<open>Factories\<close>

definition getFromString ::
  "host_ops \<Rightarrow> (string \<Rightarrow> url_view option) \<Rightarrow> u16 \<Rightarrow> string \<Rightarrow> TokenType \<Rightarrow> bool \<Rightarrow> EjfatURI result" where
  "getFromString h parse_uri junk uriStr tt preferV6 =
     (case EjfatURI_new h parse_uri junk uriStr tt preferV6 of
        Inr e \<Rightarrow> Ok e
      | Inl x \<Rightarrow> Err CaughtException (''Unable to parse URI from string: '' @ exception_string_const x))"

definition getFromEnv ::
  "host_ops \<Rightarrow> (string \<Rightarrow> url_view option) \<Rightarrow> u16 \<Rightarrow> string \<Rightarrow> TokenType \<Rightarrow> bool \<Rightarrow> EjfatURI result" where
  "getFromEnv h parse_uri junk envVar tt preferV6 =
     (case getenv h envVar of
        None \<Rightarrow> Err Undefined (''Environment variable '' @ envVar @ '' not defined.'')
      | Some envStr \<Rightarrow>
          (case EjfatURI_new h parse_uri junk envStr tt preferV6 of
             Inr e \<Rightarrow> Ok e
           | Inl x \<Rightarrow> Err CaughtException
               (''Unable to parse EJFAT_URI from environment variable: '' @ exception_string_const x)))"

text \<open>A file is what opening it gives: nothing, or its lines.\<close>

definition getFromFile ::
  "host_ops \<Rightarrow> (string \<Rightarrow> url_view option) \<Rightarrow> u16 \<Rightarrow> (string \<Rightarrow> string list option) \<Rightarrow> string \<Rightarrow> TokenType \<Rightarrow> bool \<Rightarrow>
     EjfatURI result" where
  "getFromFile h parse_uri junk open_file fileName tt preferV6 =
     (if fileName \<noteq> [] then
        (case open_file fileName of
           None \<Rightarrow> Err NotFound (''Unable to find file '' @ fileName)
         | Some [] \<Rightarrow> Err Undefined ''Unable to parse URI.''
         | Some (uriLine # _) \<Rightarrow>
             (case EjfatURI_new h parse_uri junk uriLine tt preferV6 of
                Inr e \<Rightarrow> Ok e
              | Inl x \<Rightarrow> Err CaughtException (''Unable to parse URI: '' @ exception_string_const x)))
      else Err NotFound (''Unable to find file '' @ fileName))"

section \<open>Tokens\<close>

definition uri_ok :: "EjfatURI \<Rightarrow> bool" where
  "uri_ok e \<longleftrightarrow> length (uri_tokens e) = 4"

lemma ttAsIdx_less: "ttAsIdx tt < 4"
  by (cases tt) simp_all

lemma ttAsIdx_inj [simp]: "ttAsIdx a = ttAsIdx b \<longleftrightarrow> a = b"
  by (cases a; cases b) simp_all

lemma token_at_set [simp]:
  "uri_ok e \<Longrightarrow> token_at tt (set_Token t tt' e) = (if tt = tt' then t else token_at tt e)"
  using ttAsIdx_less[of tt'] by (auto simp: token_at_def set_Token_def uri_ok_def nth_list_update)

lemma set_InstanceToken_eq: "set_InstanceToken t = set_Token t TT_instance"
  and set_SessionToken_eq: "set_SessionToken t = set_Token t TT_session"
  by (simp_all add: fun_eq_iff set_InstanceToken_def set_SessionToken_def set_Token_def)

lemma uri_ok_set_Token [simp]: "uri_ok (set_Token t tt e) = uri_ok e"
  by (simp add: uri_ok_def set_Token_def)

lemmas uri_setter_defs = set_lbName_def set_lbId_def set_sessionId_def set_syncAddr_def set_dataAddr_def

lemma token_at_setters [simp]:
  "token_at tt (set_lbName n e) = token_at tt e" "token_at tt (set_lbId n e) = token_at tt e"
  "token_at tt (set_sessionId n e) = token_at tt e" "token_at tt (set_syncAddr a e) = token_at tt e"
  "token_at tt (set_dataAddr a e) = token_at tt e"
  by (simp_all add: token_at_def uri_setter_defs)

lemma uri_ok_setters [simp]:
  "uri_ok (set_lbName n e) = uri_ok e" "uri_ok (set_lbId n e) = uri_ok e"
  "uri_ok (set_sessionId n e) = uri_ok e" "uri_ok (set_syncAddr a e) = uri_ok e"
  "uri_ok (set_dataAddr a e) = uri_ok e"
  by (simp_all add: uri_ok_def uri_setter_defs)

lemma uri_param_ok: "uri_param h p e = Inr e' \<Longrightarrow> uri_tokens e' = uri_tokens e"
  by (auto simp: uri_param_def Let_def split: prod.splits sum.splits if_splits)

lemma uri_params_ok: "uri_params h ps e = Inr e' \<Longrightarrow> uri_tokens e' = uri_tokens e"
  by (induction ps arbitrary: e) (auto split: sum.splits dest: uri_param_ok)

lemma uri_set_cp_ok: "uri_set_cp h u e = Inr e' \<Longrightarrow> uri_tokens e' = uri_tokens e"
  by (auto simp: uri_set_cp_def split: sum.splits option.splits)

text \<open>A constructed URI has four token slots, of which at most the one of the given type is filled.\<close>

lemma EjfatURI_new_tokens:
  assumes "EjfatURI_new h parse_uri junk uri tt pV6 = Inr e"
  shows "uri_ok e" and "tt' \<noteq> tt \<Longrightarrow> token_at tt' e = []"
    and "parse_uri uri = Some u \<Longrightarrow> token_at tt e = url_userinfo u"
proof -
  obtain v where v: "parse_uri uri = Some v"
    using assms by (auto simp: EjfatURI_new_def split: option.splits)
  obtain e3 where e3: "uri_set_cp h v (uri_start junk uri tt pV6 v) = Inr e3"
    and e: "uri_params h (url_params v) (e3\<lparr>uri_lbId := last (split_slash (url_path v))\<rparr>) = Inr e"
    using assms v by (auto simp: EjfatURI_new_def Let_def split: if_splits sum.splits)
  have t: "uri_tokens e = (if url_userinfo v \<noteq> [] then [[], [], [], []][ttAsIdx tt := url_userinfo v] else [[], [], [], []])"
    using uri_params_ok[OF e] uri_set_cp_ok[OF e3] by (auto simp: uri_init_def uri_start_def Let_def)
  show "uri_ok e" using t by (cases tt) (auto simp: uri_ok_def)
  show "token_at tt' e = []" if "tt' \<noteq> tt"
    using t that by (cases tt; cases tt') (auto simp: token_at_def)
  show "token_at tt e = url_userinfo u" if "parse_uri uri = Some u"
    using t that v by (cases tt) (auto simp: token_at_def)
qed

text \<open>The token the conversion to a string picks: the most specific one there is.\<close>

definition most_specific :: "EjfatURI \<Rightarrow> TokenType" where
  "most_specific e = hd (filter (\<lambda>tt. token_at tt e \<noteq> []) [TT_session, TT_instance, TT_admin] @ [TT_all])"

lemma uri_string_eq: "uri_string h e = uri_to_string h (most_specific e) e"
  by (simp add: uri_string_def uri_to_string_def uri_printed_token_def most_specific_def Let_def)

section \<open>Reading back what was printed\<close>

lemma split_slash_not_Nil [simp]: "split_slash s \<noteq> []"
  by (induction s) (auto split: list.splits)

lemma split_slash_plain: "CHR ''/'' \<notin> set s \<Longrightarrow> split_slash s = [s]"
  by (induction s) auto

lemma split_slash_append: "split_slash (xs @ CHR ''/'' # ys) = split_slash xs @ split_slash ys"
  by (induction xs) (auto split: list.splits)

lemma last_split_slash: "CHR ''/'' \<notin> set ys \<Longrightarrow> last (split_slash (xs @ CHR ''/'' # ys)) = ys"
  by (simp add: split_slash_append split_slash_plain)

lemma uri_params_append:
  "uri_params h (ps @ qs) e = (case uri_params h ps e of Inl x \<Rightarrow> Inl x | Inr e' \<Rightarrow> uri_params h qs e')"
  by (induction ps arbitrary: e) (auto split: sum.splits)

text \<open>An address prints so that it reads back; an IPv4 one without brackets or colons.\<close>

definition addr_ok :: "host_ops \<Rightarrow> ip_address \<Rightarrow> bool" where
  "addr_ok h a \<longleftrightarrow> make_address h (addr_str h a) = Some a \<and>
     (is_v4 a \<longrightarrow> list_all (\<lambda>c. c \<notin> set '']:['') (addr_str h a) \<and> addr_str h a \<noteq> [])"

lemma addr_ok_hd: "addr_ok h a \<Longrightarrow> is_v4 a \<Longrightarrow> hd (addr_str h a) \<noteq> CHR ''[''"
  by (cases "addr_str h a") (auto simp: addr_ok_def)

lemma string_to_ip_host_str: "addr_ok h a \<Longrightarrow> string_to_ip h (host_str h a) = Ok a"
  using string_to_ip_printed[of h a] addr_ok_hd[of h a] by (simp add: addr_ok_def host_str_def)

lemma string_to_port_nat_str: "1024 \<le> unat p \<Longrightarrow> string_to_port (nat_str (unat p)) = Ok p"
proof -
  assume "1024 \<le> unat p"
  moreover have "unat p < 2 ^ 31" using u16_less[of p] by simp
  ultimately show ?thesis unfolding string_to_port_iff using stoi_nat_str[of "unat p"] by auto
qed

lemma tuple_with_port:
  assumes "addr_ok h a" and "1024 \<le> unat p"
  shows "string_tuple_to_ip_and_port h (host_str h a @ '':'' @ nat_str (unat p)) = Ok (a, p)"
  using string_tuple_roundtrip[OF _ addr_ok_hd[OF assms(1)] assms(2)] assms(1)
  by (simp add: addr_ok_def addr_port_str_def host_str_def)

lemma tuple_without_port_v4:
  assumes "addr_ok h a" and "is_v4 a"
  shows "string_tuple_to_ip_and_port h (addr_str h a) = Ok (a, 0)"
proof -
  have "list_all (\<lambda>c. c \<notin> set '']:'') (addr_str h a)"
    using assms by (auto simp: addr_ok_def list_all_iff)
  then have "find_last_of '']:'' (addr_str h a) = None"
    using find_last_of_snoc_other[of "'']:''" "addr_str h a" "[]"] by simp
  moreover have "string_to_ip h (addr_str h a) = Ok a"
    using string_to_ip_host_str[OF assms(1)] assms(2) by (cases a) (simp_all add: host_str_def)
  ultimately show ?thesis by (simp add: string_tuple_to_ip_and_port_def)
qed

lemma tuple_without_port_v6:
  assumes "addr_ok h a" and "is_v6 a"
  shows "string_tuple_to_ip_and_port h (''['' @ addr_str h a @ '']'') = Ok (a, 0)"
proof -
  have t: "''['' @ addr_str h a @ '']'' = (''['' @ addr_str h a) @ [CHR '']'']" by simp
  have "find_last_of '']:'' ((''['' @ addr_str h a) @ [CHR '']'']) = Some (length (''['' @ addr_str h a))"
    by (rule find_last_of_snoc) simp
  moreover have "((''['' @ addr_str h a) @ [CHR '']'']) ! length (''['' @ addr_str h a) = CHR '']''"
    by (rule nth_append_length)
  moreover have "string_to_ip h ((''['' @ addr_str h a) @ [CHR '']'']) = Ok a"
    using string_to_ip_host_str[OF assms(1)] assms(2) by (simp add: host_str_def)
  ultimately show ?thesis unfolding t string_tuple_to_ip_and_port_def by simp
qed

text \<open>The effect of each query parameter the printer writes.\<close>

lemma param_sync:
  "addr_ok h a \<Longrightarrow> 1024 \<le> unat p \<Longrightarrow>
     uri_param h (''sync'', host_str h a @ '':'' @ nat_str (unat p)) e =
     Inr (e\<lparr>uri_haveSync := True, uri_syncAddr := a, uri_syncPort := p\<rparr>)"
  using tuple_with_port by (simp add: uri_param_def)

lemma param_data_v4:
  "addr_ok h a \<Longrightarrow> is_v4 a \<Longrightarrow> uri_param h (''data'', addr_str h a) e =
     Inr (e\<lparr>uri_haveDatav4 := True, uri_dataAddrv4 := a, uri_dataPort := DATAPLANE_PORT\<rparr>)"
  using tuple_without_port_v4 by (simp add: uri_param_def Let_def)

lemma param_data_v6:
  assumes "addr_ok h a" and "is_v6 a"
  shows "uri_param h (''data'', ''['' @ addr_str h a @ '']'') e =
     Inr (e\<lparr>uri_haveDatav6 := True, uri_dataAddrv6 := a, uri_dataPort := DATAPLANE_PORT\<rparr>)"
  using tuple_without_port_v6[OF assms] assms(2) not_is_v4[of a] by (simp add: uri_param_def Let_def)

lemma uri_params_optional:
  "uri_params h (if b then [p] else []) e = (if b then uri_param h p e else Inr e)"
  by (simp split: sum.splits)

text \<open>The parts of a printed URI, as the URL grammar splits it.\<close>

definition uri_view :: "host_ops \<Rightarrow> string \<Rightarrow> EjfatURI \<Rightarrow> url_view" where
  "uri_view h token e = \<lparr>url_scheme = (if uri_useTls e then ''ejfats'' else ''ejfat''), url_userinfo = token,
     url_host = (if uri_cpHost e = [] then host_str h (uri_cpAddr e) else uri_cpHost e),
     url_port = nat_str (unat (uri_cpPort e)),
     url_path = ''/'' @ (if uri_lbId e \<noteq> [] then ''lb/'' @ uri_lbId e else []),
     url_params =
       (if uri_haveSync e then [(''sync'', host_str h (uri_syncAddr e) @ '':'' @ nat_str (unat (uri_syncPort e)))] else []) @
       (if uri_haveDatav4 e then [(''data'', addr_str h (uri_dataAddrv4 e))] else []) @
       (if uri_haveDatav6 e then [(''data'', ''['' @ addr_str h (uri_dataAddrv6 e) @ '']'')] else []) @
       (if uri_sessionId e \<noteq> [] then [(''sessionid'', uri_sessionId e)] else [])\<rparr>"

definition uri_printable :: "host_ops \<Rightarrow> EjfatURI \<Rightarrow> bool" where
  "uri_printable h e \<longleftrightarrow> uri_cpHost e = [] \<and> addr_ok h (uri_cpAddr e) \<and> 1024 \<le> unat (uri_cpPort e) \<and>
     CHR ''/'' \<notin> set (uri_lbId e) \<and>
     (uri_haveSync e \<longrightarrow> addr_ok h (uri_syncAddr e) \<and> 1024 \<le> unat (uri_syncPort e)) \<and>
     (uri_haveDatav4 e \<longrightarrow> addr_ok h (uri_dataAddrv4 e) \<and> is_v4 (uri_dataAddrv4 e)) \<and>
     (uri_haveDatav6 e \<longrightarrow> addr_ok h (uri_dataAddrv6 e) \<and> is_v6 (uri_dataAddrv6 e))"

text \<open>Everything that matters of one token's view of the URI, except the data port.\<close>

definition same_uri :: "TokenType \<Rightarrow> EjfatURI \<Rightarrow> EjfatURI \<Rightarrow> bool" where
  "same_uri tt e e' \<longleftrightarrow> uri_useTls e' = uri_useTls e \<and> token_at tt e' = token_at tt e \<and>
     get_cpAddr e' = get_cpAddr e \<and> get_cpHost e' = get_cpHost e \<and> uri_lbId e' = uri_lbId e \<and>
     get_syncAddr e' = get_syncAddr e \<and> uri_sessionId e' = uri_sessionId e \<and>
     map_sum id fst (get_dataAddrv4 e') = map_sum id fst (get_dataAddrv4 e) \<and>
     map_sum id fst (get_dataAddrv6 e') = map_sum id fst (get_dataAddrv6 e)"

lemma uri_roundtrip_lemma:
  assumes p: "parse_uri uri = Some (uri_view h (token_at tt e) e)" and pr: "uri_printable h e"
  shows "\<exists>e'. EjfatURI_new h parse_uri junk uri tt pV6 = Inr e' \<and> same_uri tt e e' \<and>
    (has_dataAddr e \<longrightarrow> uri_dataPort e' = DATAPLANE_PORT)"
proof -
  let ?v = "uri_view h (token_at tt e) e"
  let ?e2 = "uri_start junk uri tt pV6 ?v"
  let ?e3 = "?e2\<lparr>uri_cpAddr := uri_cpAddr e, uri_cpPort := uri_cpPort e\<rparr>"
  let ?e4 = "?e3\<lparr>uri_lbId := uri_lbId e\<rparr>"
  let ?e5 = "if uri_haveSync e then ?e4\<lparr>uri_haveSync := True, uri_syncAddr := uri_syncAddr e,
      uri_syncPort := uri_syncPort e\<rparr> else ?e4"
  let ?e6 = "if uri_haveDatav4 e then ?e5\<lparr>uri_haveDatav4 := True, uri_dataAddrv4 := uri_dataAddrv4 e,
      uri_dataPort := DATAPLANE_PORT\<rparr> else ?e5"
  let ?e7 = "if uri_haveDatav6 e then ?e6\<lparr>uri_haveDatav6 := True, uri_dataAddrv6 := uri_dataAddrv6 e,
      uri_dataPort := DATAPLANE_PORT\<rparr> else ?e6"
  let ?e8 = "if uri_sessionId e \<noteq> [] then ?e7\<lparr>uri_sessionId := uri_sessionId e\<rparr> else ?e7"
  have cp: "uri_set_cp h ?v ?e2 = Inr ?e3"
    using pr string_to_ip_host_str[of h "uri_cpAddr e"] string_to_port_nat_str[of "uri_cpPort e"]
    by (simp add: uri_set_cp_def uri_view_def uri_printable_def)
  have lb: "last (split_slash (url_path ?v)) = uri_lbId e"
    using pr last_split_slash[of "uri_lbId e" "''/lb''"] by (auto simp: uri_view_def uri_printable_def)
  have sync: "uri_params h (if uri_haveSync e then [(''sync'', host_str h (uri_syncAddr e) @ '':'' @ nat_str (unat (uri_syncPort e)))] else []) ?e4 = Inr ?e5"
    using pr unfolding uri_params_optional
    by (cases "uri_haveSync e") (simp_all only: uri_printable_def param_sync if_True if_False simp_thms)
  have d4: "uri_params h (if uri_haveDatav4 e then [(''data'', addr_str h (uri_dataAddrv4 e))] else []) ?e5 = Inr ?e6"
    using pr unfolding uri_params_optional
    by (cases "uri_haveDatav4 e") (simp_all only: uri_printable_def param_data_v4 if_True if_False simp_thms)
  have d6: "uri_params h (if uri_haveDatav6 e then [(''data'', ''['' @ addr_str h (uri_dataAddrv6 e) @ '']'')] else []) ?e6 = Inr ?e7"
    using pr unfolding uri_params_optional
    by (cases "uri_haveDatav6 e") (simp_all only: uri_printable_def param_data_v6 if_True if_False simp_thms)
  have se: "uri_params h (if uri_sessionId e \<noteq> [] then [(''sessionid'', uri_sessionId e)] else []) ?e7 = Inr ?e8"
    unfolding uri_params_optional
    by (cases "uri_sessionId e = []") (simp_all add: uri_param_def del: if_split)
  have ps: "url_params ?v =
      (if uri_haveSync e then [(''sync'', host_str h (uri_syncAddr e) @ '':'' @ nat_str (unat (uri_syncPort e)))] else []) @
      (if uri_haveDatav4 e then [(''data'', addr_str h (uri_dataAddrv4 e))] else []) @
      (if uri_haveDatav6 e then [(''data'', ''['' @ addr_str h (uri_dataAddrv6 e) @ '']'')] else []) @
      (if uri_sessionId e \<noteq> [] then [(''sessionid'', uri_sessionId e)] else [])"
    by (simp only: uri_view_def url_view.simps)
  have params: "uri_params h (url_params ?v) ?e4 = Inr ?e8"
    unfolding ps uri_params_append sync sum.case d4 d6 by (rule se)
  have scheme: "url_scheme ?v = (if uri_useTls e then ''ejfats'' else ''ejfat'')" "url_userinfo ?v = token_at tt e"
    by (simp_all add: uri_view_def)
  have new: "EjfatURI_new h parse_uri junk uri tt pV6 = Inr ?e8"
    using scheme by (simp add: EjfatURI_new_def p cp lb params)
  have tok: "token_at tt ?e8 = token_at tt e"
    using EjfatURI_new_tokens(3)[OF new p] scheme(2) by simp
  have start: "uri_useTls ?e2 = uri_useTls e" "uri_haveSync ?e2 = False" "uri_haveDatav4 ?e2 = False"
    "uri_haveDatav6 ?e2 = False" "uri_sessionId ?e2 = []" "uri_cpHost ?e2 = []"
    using scheme by (simp_all add: uri_start_def uri_init_def Let_def)
  have sel: "uri_useTls ?e8 = uri_useTls e" "uri_cpAddr ?e8 = uri_cpAddr e" "uri_cpPort ?e8 = uri_cpPort e"
    "uri_lbId ?e8 = uri_lbId e" "uri_cpHost ?e8 = []" "uri_sessionId ?e8 = uri_sessionId e"
    "uri_haveSync ?e8 = uri_haveSync e" "uri_haveDatav4 ?e8 = uri_haveDatav4 e" "uri_haveDatav6 ?e8 = uri_haveDatav6 e"
    "uri_haveSync e \<Longrightarrow> uri_syncAddr ?e8 = uri_syncAddr e" "uri_haveSync e \<Longrightarrow> uri_syncPort ?e8 = uri_syncPort e"
    "uri_haveDatav4 e \<Longrightarrow> uri_dataAddrv4 ?e8 = uri_dataAddrv4 e"
    "uri_haveDatav6 e \<Longrightarrow> uri_dataAddrv6 ?e8 = uri_dataAddrv6 e"
    by (simp_all add: start)
  have port: "has_dataAddr e \<longrightarrow> uri_dataPort ?e8 = DATAPLANE_PORT"
    by (cases "uri_haveDatav4 e"; cases "uri_haveDatav6 e") (simp_all add: has_dataAddr_def)
  have "same_uri tt e ?e8"
    unfolding same_uri_def get_cpAddr_def get_cpHost_def get_syncAddr_def get_dataAddrv4_def
      get_dataAddrv6_def sel(1-9)
    using tok sel(10-13) pr by (simp add: uri_printable_def)
  then show ?thesis using new port by blast
qed

end
