(* ===== verification/E2SAR_ControlPlane.thy ===== *)
theory E2SAR_ControlPlane
  imports "HOL-Library.Sublist" E2SAR_URI Complex_Main
begin

text \<open>
  The control plane client, \<open>LBManager\<close> of \<^verbatim>\<open>include/e2sarCP.hpp\<close> and \<^verbatim>\<open>src/e2sarCP.cpp\<close>: one
  definition per call, from the token it needs over the guards and the request it builds to what the
  reply changes in the URI.

  The gRPC stub is a parameter: each call gets the authorization header and the request, changes the
  world \<open>'w\<close> in some way and answers with the text of a status that is not ok, or with a reply.  The
  messages are the protocol's (outside this repository); their records have the fields the code sets
  or reads.  Floats are rational numbers, time stamps pairs of seconds and nanoseconds.
\<close>

section \<open>Messages\<close>

type_synonym time_stamp = "int \<times> int"

record ReserveRequest =
  rq_name :: string
  rq_until :: "time_stamp option"
  rq_ipfamily :: int
  rq_senders :: "string list"

record ReserveReply =
  rp_token :: string
  rp_lbid :: string
  rp_syncipv4 :: string
  rp_syncudpport :: u32
  rp_dataipv4 :: string
  rp_dataipv6 :: string
  rp_fpgalbid :: u32

record RegisterReq =
  rg_lbid :: string
  rg_weight :: rat
  rg_minfactor :: rat
  rg_maxfactor :: rat
  rg_name :: string
  rg_portrange :: nat
  rg_ipaddress :: string
  rg_keeplbheader :: bool
  rg_udpport :: u32

record WorkerStats =
  ws_total_events_recv :: int
  ws_total_events_reassembled :: int
  ws_total_events_reassembly_err :: int
  ws_total_events_dequeued :: int
  ws_total_event_enqueue_err :: int
  ws_total_bytes_recv :: int
  ws_total_packets_recv :: int

definition WorkerStats_new :: WorkerStats where
  "WorkerStats_new = \<lparr>ws_total_events_recv = 0, ws_total_events_reassembled = 0,
     ws_total_events_reassembly_err = 0, ws_total_events_dequeued = 0, ws_total_event_enqueue_err = 0,
     ws_total_bytes_recv = 0, ws_total_packets_recv = 0\<rparr>"

record SendStateReq =
  ss_lbid :: string
  ss_sessionid :: string
  ss_fillpercent :: rat
  ss_controlsignal :: rat
  ss_isready :: bool
  ss_stats :: WorkerStats
  ss_timestamp :: time_stamp

text \<open>\<open>WorkerStatus\<close> is a protocol message that is only copied, hence a type parameter.\<close>

record 'ws StatusReply =
  st_timestamp :: time_stamp
  st_currentepoch :: u64
  st_predicted :: u64
  st_workers :: "'ws list"
  st_senders :: "string list"
  st_expiresat :: time_stamp

record Reservation =
  rv_lbid :: string
  rv_syncipv4 :: string
  rv_syncipv6 :: string
  rv_syncudpport :: u32
  rv_dataipv4 :: string
  rv_dataipv6 :: string
  rv_fpgalbid :: u32
  rv_dataminport :: u32
  rv_datamaxport :: u32

text \<open>Token permissions carry the enumeration values; a token is selected by its id or by its text.\<close>

record TokenPerm =
  pm_resourceType :: u16
  pm_resourceId :: string
  pm_permission :: u16

datatype TokenSelector = ById u32 | ByToken string

record TokenDetails =
  td_name :: string
  td_permissions :: "TokenPerm list"
  td_created_at :: string
  td_id :: u32

text \<open>The wire form of a permission has integers, of which the low 16 bits are kept.\<close>

type_synonym pb_perm = "int \<times> string \<times> int"
type_synonym pb_details = "string \<times> pb_perm list \<times> string \<times> u32"

text \<open>A time series has float samples, integer samples or neither.\<close>

datatype ts_samples = FloatTS "(int \<times> rat) list" | IntTS "(int \<times> int) list" | NoTS

record TimeseriesData =
  sd_path :: string
  sd_unit :: string
  sd_timeseries :: ts_samples

type_synonym ('w, 'req, 'rep) rpc = "string \<Rightarrow> 'req \<Rightarrow> 'w \<Rightarrow> (string + 'rep) \<times> 'w"

record ('w, 'ws) lb_stub =
  sb_reserve :: "('w, ReserveRequest, ReserveReply) rpc"
  sb_free :: "('w, string, unit) rpc"
  sb_get :: "('w, string, ReserveReply) rpc"
  sb_status :: "('w, string, 'ws StatusReply) rpc"
  sb_overview :: "('w, unit, (string \<times> Reservation \<times> 'ws StatusReply) list) rpc"
  sb_register :: "('w, RegisterReq, string \<times> string) rpc"
  sb_deregister :: "('w, string \<times> string, unit) rpc"
  sb_sendState :: "('w, SendStateReq, unit) rpc"
  sb_version :: "('w, unit, string \<times> string \<times> string) rpc"
  sb_addSenders :: "('w, string \<times> string list, unit) rpc"
  sb_removeSenders :: "('w, string \<times> string list, unit) rpc"
  sb_createToken :: "('w, string \<times> pb_perm list, string) rpc"
  sb_listPerms :: "('w, TokenSelector, pb_details) rpc"
  sb_listChildren :: "('w, TokenSelector, pb_details list) rpc"
  sb_revoke :: "('w, TokenSelector, unit) rpc"
  sb_timeseries :: "('w, string list \<times> time_stamp, time_stamp \<times> (string \<times> string \<times> ts_samples) list) rpc"

section \<open>The manager\<close>

text \<open>SSL options are the root certificates, the private key and the certificate chain.\<close>

type_synonym ssl_options = "string \<times> string \<times> string"

definition SslCredentialsOptions_new :: ssl_options where
  "SslCredentialsOptions_new = ([], [], [])"

datatype channel = TlsNoVerify | TlsVerify ssl_options | Insecure

record LBManager =
  lm_cpuri :: EjfatURI
  lm_addr_string :: string
  lm_channel :: channel

definition LBManager_new :: "host_ops \<Rightarrow> EjfatURI \<Rightarrow> bool \<Rightarrow> bool \<Rightarrow> ssl_options \<Rightarrow> LBManager constructed" where
  "LBManager_new h cpuri validateServer useHostAddress opts =
     (let validate = (if useHostAddress then False else validateServer);
          ch = (if uri_useTls cpuri then (if validate then TlsVerify opts else TlsNoVerify) else Insecure)
      in case (if useHostAddress then None else
               (case get_cpHost cpuri of Inr (host, port) \<Rightarrow> Some (host @ '':'' @ nat_str (unat port)) | Inl _ \<Rightarrow> None)) of
           Some addr \<Rightarrow> Inr \<lparr>lm_cpuri = cpuri, lm_addr_string = addr, lm_channel = ch\<rparr>
         | None \<Rightarrow>
             (case get_cpAddr cpuri of
                Inl _ \<Rightarrow> throw_E2SAR ''Unable to initialize LBManager due to missing CP address in URI''
              | Inr (a, port) \<Rightarrow>
                  Inr \<lparr>lm_cpuri = cpuri,
                    lm_addr_string =
                      (if is_v4 a then ''ipv4:///'' @ addr_str h a @ '':'' @ nat_str (unat port)
                       else ''ipv6:///['' @ addr_str h a @ '']:'' @ nat_str (unat port)),
                    lm_channel = ch\<rparr>))"

text \<open>
  Preferring the host address ends the validation, and with it any use of the options: a root certificate, a key or
  a certificate chain that was read is ignored, and the channel is the one without validation.
\<close>

lemma host_address_ignores_ssl_options:
  "LBManager_new h cpuri validate True opts = LBManager_new h cpuri False True SslCredentialsOptions_new"
  by (simp add: LBManager_new_def)

definition bearer :: "string \<Rightarrow> string" where
  "bearer token = ''Bearer '' @ token"

definition on_uri :: "(EjfatURI \<Rightarrow> EjfatURI) \<Rightarrow> LBManager \<Rightarrow> LBManager" where
  "on_uri f m = m\<lparr>lm_cpuri := f (lm_cpuri m)\<rparr>"

text \<open>A call takes the manager and the world and returns its result with both as it leaves them.\<close>

type_synonym ('w, 'a) lb_call = "LBManager \<Rightarrow> 'w \<Rightarrow> 'a result \<times> LBManager \<times> 'w"

text \<open>
  The way most calls end: the RPC, and a status that is not ok turned into an error that names the
  call; on success the continuation has the reply.
\<close>

definition rpc_then ::
  "string \<Rightarrow> (string + 'rep) \<times> 'w \<Rightarrow> LBManager \<Rightarrow> ('rep \<Rightarrow> 'a result \<times> LBManager) \<Rightarrow> 'a result \<times> LBManager \<times> 'w" where
  "rpc_then name answer m k =
     (case answer of
        (Inl e, w) \<Rightarrow> (Err RPCError (''Error connecting to LB CP in '' @ name @ ''(): '' @ e), m, w)
      | (Inr rep, w) \<Rightarrow> (case k rep of (r, m') \<Rightarrow> (r, m', w)))"

text \<open>Sender addresses are added one by one, the first that is not an address ends the call.\<close>

fun collect_senders :: "host_ops \<Rightarrow> string list \<Rightarrow> string list \<Rightarrow> string list option" where
  "collect_senders h [] acc = Some acc"
| "collect_senders h (s # ss) acc =
     (case make_address h s of None \<Rightarrow> None | Some _ \<Rightarrow> collect_senders h ss (acc @ [s]))"

section \<open>Reserving and finding a load balancer\<close>

text \<open>The addresses of a reply, one after the other; an unreadable one leaves the URI as it is by then.\<close>

definition fill_sync :: "host_ops \<Rightarrow> ReserveReply \<Rightarrow> EjfatURI \<Rightarrow> E2SARErrorInfo option \<times> EjfatURI" where
  "fill_sync h rep u =
     (if rp_syncipv4 rep = [] then (None, u)
      else case string_to_ip h (rp_syncipv4 rep) of
             Inl e \<Rightarrow> (Some e, u)
           | Inr a \<Rightarrow> (None, set_syncAddr (a, ucast (rp_syncudpport rep)) u))"

definition fill_data :: "host_ops \<Rightarrow> string \<Rightarrow> EjfatURI \<Rightarrow> E2SARErrorInfo option \<times> EjfatURI" where
  "fill_data h text u =
     (if text = [] then (None, u)
      else case string_to_ip h text of
             Inl e \<Rightarrow> (Some e, u)
           | Inr a \<Rightarrow> (None, set_dataAddr (a, DATAPLANE_PORT) u))"

definition fill_addresses :: "host_ops \<Rightarrow> ReserveReply \<Rightarrow> EjfatURI \<Rightarrow> E2SARErrorInfo option \<times> EjfatURI" where
  "fill_addresses h rep u =
     (case fill_sync h rep u of
        (Some e, u1) \<Rightarrow> (Some e, u1)
      | (None, u1) \<Rightarrow>
          (case fill_data h (rp_dataipv4 rep) u1 of
             (Some e, u2) \<Rightarrow> (Some e, u2)
           | (None, u2) \<Rightarrow> fill_data h (rp_dataipv6 rep) u2))"

definition reserveLB ::
  "host_ops \<Rightarrow> ('w, 'ws) lb_stub \<Rightarrow> string \<Rightarrow> time_stamp \<Rightarrow> string list \<Rightarrow> int \<Rightarrow> ('w, u32) lb_call" where
  "reserveLB h stub lb_name until senders ip_family m w =
     (case get_AdminToken (lm_cpuri m) of
        Inl _ \<Rightarrow> (Err ParameterNotAvailable ''Admin token not available in the URI'', m, w)
      | Inr token \<Rightarrow>
          let m1 = on_uri (set_lbName lb_name) m
          in case collect_senders h senders [] of
               None \<Rightarrow> (Err ParameterError ''Invalid sender IP addresses'', m1, w)
             | Some ss \<Rightarrow>
                 rpc_then ''reserveLB''
                   (sb_reserve stub (bearer token)
                     \<lparr>rq_name = lb_name, rq_until = (if fst until \<noteq> 0 \<or> snd until \<noteq> 0 then Some until else None),
                      rq_ipfamily = ip_family, rq_senders = ss\<rparr> w)
                   m1
                   (\<lambda>rep.
                      let u1 = (if rp_token rep \<noteq> [] then set_InstanceToken (rp_token rep) (lm_cpuri m1) else lm_cpuri m1);
                          u2 = (if rp_lbid rep \<noteq> [] then set_lbId (rp_lbid rep) u1 else u1)
                      in case fill_addresses h rep u2 of
                           (Some e, u3) \<Rightarrow> (Inl e, m1\<lparr>lm_cpuri := u3\<rparr>)
                         | (None, u3) \<Rightarrow> (Ok (rp_fpgalbid rep), m1\<lparr>lm_cpuri := u3\<rparr>)))"

text \<open>
  Reservation for a duration in microseconds from \<open>now\<close> (whole seconds), 0 standing for no end; the
  address family is the default of the first form whatever the caller asked for.
\<close>

definition reserveLB_duration ::
  "host_ops \<Rightarrow> ('w, 'ws) lb_stub \<Rightarrow> int \<Rightarrow> int \<Rightarrow> string \<Rightarrow> int \<Rightarrow> string list \<Rightarrow> int \<Rightarrow> ('w, u32) lb_call" where
  "reserveLB_duration h stub dual_stack now lb_name duration senders ip_family =
     reserveLB h stub lb_name
       (if duration = 0 then (0, 0) else (cpp_div (now * 1000000 + duration) 1000000, 0)) senders dual_stack"

definition trunc_rat :: "rat \<Rightarrow> int" where
  "trunc_rat x = (if 0 \<le> x then \<lfloor>x\<rfloor> else \<lceil>x\<rceil>)"

definition reserveLB_seconds ::
  "host_ops \<Rightarrow> ('w, 'ws) lb_stub \<Rightarrow> int \<Rightarrow> int \<Rightarrow> string \<Rightarrow> rat \<Rightarrow> string list \<Rightarrow> int \<Rightarrow> ('w, u32) lb_call" where
  "reserveLB_seconds h stub dual_stack now lb_name durationSeconds senders ip_family =
     reserveLB_duration h stub dual_stack now lb_name (1000000 * trunc_rat durationSeconds) senders dual_stack"

definition freeLB_id :: "('w, 'ws) lb_stub \<Rightarrow> string \<Rightarrow> ('w, int) lb_call" where
  "freeLB_id stub lbid m w =
     (case get_AdminToken (lm_cpuri m) of
        Inl _ \<Rightarrow> (Err ParameterNotAvailable ''Admin token not available in the URI'', m, w)
      | Inr token \<Rightarrow>
          if lbid = [] then (Err ParameterNotAvailable ''LB ID must be provided externally and is empty'', m, w)
          else rpc_then ''freeLB'' (sb_free stub (bearer token) lbid w) m (\<lambda>_. (Ok 0, m)))"

definition freeLB :: "('w, 'ws) lb_stub \<Rightarrow> ('w, int) lb_call" where
  "freeLB stub m w =
     (if uri_lbId (lm_cpuri m) = [] then (Err ParameterNotAvailable ''LB ID not avialable in the URI'', m, w)
      else freeLB_id stub (uri_lbId (lm_cpuri m)) m w)"

text \<open>The id given, or else the one of the URI.\<close>

definition lbid_or_uri :: "string \<Rightarrow> LBManager \<Rightarrow> string option" where
  "lbid_or_uri lbid m =
     (if lbid \<noteq> [] then Some lbid
      else if uri_lbId (lm_cpuri m) \<noteq> [] then Some (uri_lbId (lm_cpuri m)) else None)"

definition getLB_id :: "host_ops \<Rightarrow> ('w, 'ws) lb_stub \<Rightarrow> string \<Rightarrow> ('w, int) lb_call" where
  "getLB_id h stub lbid m w =
     (case get_AdminToken (lm_cpuri m) of
        Inl _ \<Rightarrow> (Err ParameterNotAvailable ''Admin token not available in the URI'', m, w)
      | Inr token \<Rightarrow>
          (case lbid_or_uri lbid m of
             None \<Rightarrow> (Err ParameterNotAvailable ''LB ID was not provided in URI or externally'', m, w)
           | Some i \<Rightarrow>
               rpc_then ''getLB'' (sb_get stub (bearer token) i w) m
                 (\<lambda>rep.
                    let u1 = (if rp_lbid rep \<noteq> [] then set_lbId (rp_lbid rep) (lm_cpuri m) else lm_cpuri m)
                    in case fill_addresses h rep u1 of
                         (Some e, u2) \<Rightarrow> (Inl e, m\<lparr>lm_cpuri := u2\<rparr>)
                       | (None, u2) \<Rightarrow> (Ok 0, m\<lparr>lm_cpuri := u2\<rparr>))))"

definition getLB :: "host_ops \<Rightarrow> ('w, 'ws) lb_stub \<Rightarrow> ('w, int) lb_call" where
  "getLB h stub m w =
     (if uri_lbId (lm_cpuri m) = [] then (Err ParameterNotAvailable ''LB ID not avialable in the URI'', m, w)
      else getLB_id h stub (uri_lbId (lm_cpuri m)) m w)"

definition getLBStatus_id :: "('w, 'ws) lb_stub \<Rightarrow> string \<Rightarrow> ('w, 'ws StatusReply) lb_call" where
  "getLBStatus_id stub lbid m w =
     (case get_AdminToken (lm_cpuri m) of
        Inl _ \<Rightarrow> (Err ParameterNotAvailable ''Admin token not available in the URI'', m, w)
      | Inr token \<Rightarrow>
          (case lbid_or_uri lbid m of
             None \<Rightarrow> (Err ParameterNotAvailable ''LB ID was not provided in URI or externally'', m, w)
           | Some i \<Rightarrow>
               rpc_then ''LoadBalancerStatus'' (sb_status stub (bearer token) i w) m (\<lambda>rep. (Ok rep, m))))"

definition getLBStatus :: "('w, 'ws) lb_stub \<Rightarrow> ('w, 'ws StatusReply) lb_call" where
  "getLBStatus stub m w =
     (if uri_lbId (lm_cpuri m) = [] then (Err ParameterNotAvailable ''LB ID not avialable in the URI'', m, w)
      else getLBStatus_id stub (uri_lbId (lm_cpuri m)) m w)"

definition lb_overview ::
  "('w, 'ws) lb_stub \<Rightarrow> ('w, (string \<times> Reservation \<times> 'ws StatusReply) list) lb_call" where
  "lb_overview stub m w =
     (case get_AdminToken (lm_cpuri m) of
        Inl _ \<Rightarrow> (Err ParameterNotAvailable ''Admin token not available in the URI'', m, w)
      | Inr token \<Rightarrow> rpc_then ''overview'' (sb_overview stub (bearer token) () w) m (\<lambda>rep. (Ok rep, m)))"

definition lb_version :: "('w, 'ws) lb_stub \<Rightarrow> ('w, string \<times> string \<times> string) lb_call" where
  "lb_version stub m w =
     (case get_AdminToken (lm_cpuri m) of
        Inl _ \<Rightarrow> (Err ParameterNotAvailable ''Session token not available in the URI'', m, w)
      | Inr token \<Rightarrow> rpc_then ''Version'' (sb_version stub (bearer token) () w) m (\<lambda>rep. (Ok rep, m)))"

section \<open>Workers\<close>

text \<open>
  \<open>source_count\<close> is a 16 bit number.  The guards come in the order of the code, the one on the port
  last.
\<close>

definition registerWorker ::
  "host_ops \<Rightarrow> ('w, 'ws) lb_stub \<Rightarrow> string \<Rightarrow> ip_address \<times> u16 \<Rightarrow> rat \<Rightarrow> u16 \<Rightarrow> rat \<Rightarrow> rat \<Rightarrow> bool \<Rightarrow> ('w, int) lb_call" where
  "registerWorker h stub node_name node_ip_port weight source_count min_factor max_factor keep_lb_header m w =
     (case get_InstanceToken (lm_cpuri m) of
        Inl _ \<Rightarrow> (Err ParameterNotAvailable ''Instance token not available in the URI'', m, w)
      | Inr token \<Rightarrow>
          if uri_lbId (lm_cpuri m) = [] then
            (Err ParameterNotAvailable ''LB ID not avialable - have you reserved it previously?'', m, w)
          else if node_name = [] then (Err ParameterError ''Node name can't be empty'', m, w)
          else if unat (snd node_ip_port) \<le> 1024 then
            (Err ParameterError ''Ports below 1024 are generally reserved, worker UDP port too low'', m, w)
          else
            rpc_then ''Register''
              (sb_register stub (bearer token)
                \<lparr>rg_lbid = uri_lbId (lm_cpuri m), rg_weight = weight, rg_minfactor = min_factor,
                 rg_maxfactor = max_factor, rg_name = node_name,
                 rg_portrange = get_PortRange (int (unat source_count)),
                 rg_ipaddress = addr_str h (fst node_ip_port), rg_keeplbheader = keep_lb_header,
                 rg_udpport = ucast (snd node_ip_port)\<rparr> w)
              m
              (\<lambda>(token', sessionid).
                 let u1 = (if token' \<noteq> [] then set_SessionToken token' (lm_cpuri m) else lm_cpuri m);
                     u2 = (if sessionid \<noteq> [] then set_sessionId sessionid u1 else u1)
                 in (Ok 0, m\<lparr>lm_cpuri := u2\<rparr>)))"

text \<open>\<open>keep_lb_header\<close> is not handed on.\<close>

definition registerWorkerSelf ::
  "host_ops \<Rightarrow> route_ops \<Rightarrow> ('w, 'ws) lb_stub \<Rightarrow> string \<Rightarrow> u16 \<Rightarrow> rat \<Rightarrow> u16 \<Rightarrow> rat \<Rightarrow> rat \<Rightarrow> bool \<Rightarrow> bool \<Rightarrow> ('w, int) lb_call" where
  "registerWorkerSelf h r stub node_name node_port weight source_count min_factor max_factor v6 keep_lb_header m w =
     (case getDataplaneLocalAddresses r v6 (lm_cpuri m) of
        Inl e \<Rightarrow> (Inl e, m, w)
      | Inr [] \<Rightarrow> (Err SystemError ''Unable to determine outgoing dataplane address'', m, w)
      | Inr (a # _) \<Rightarrow>
          registerWorker h stub node_name (a, node_port) weight source_count min_factor max_factor False m w)"

definition deregisterWorker :: "('w, 'ws) lb_stub \<Rightarrow> ('w, int) lb_call" where
  "deregisterWorker stub m w =
     (case get_SessionToken (lm_cpuri m) of
        Inl _ \<Rightarrow> (Err ParameterNotAvailable ''Session token not available in the URI'', m, w)
      | Inr token \<Rightarrow>
          if uri_lbId (lm_cpuri m) = [] then
            (Err ParameterNotAvailable ''LB ID not avialable - have you reserved it previously?'', m, w)
          else rpc_then ''Deregister''
            (sb_deregister stub (bearer token) (uri_lbId (lm_cpuri m), uri_sessionId (lm_cpuri m)) w) m
            (\<lambda>_. (Ok 0, m)))"

definition sendState_ts ::
  "('w, 'ws) lb_stub \<Rightarrow> rat \<Rightarrow> rat \<Rightarrow> bool \<Rightarrow> time_stamp \<Rightarrow> WorkerStats \<Rightarrow> ('w, int) lb_call" where
  "sendState_ts stub fill_percent control_signal is_ready ts stats m w =
     (case get_SessionToken (lm_cpuri m) of
        Inl _ \<Rightarrow> (Err ParameterNotAvailable ''Session token not available in the URI'', m, w)
      | Inr token \<Rightarrow>
          if uri_lbId (lm_cpuri m) = [] then
            (Err ParameterNotAvailable ''LB ID not avialable - have you reserved it previously?'', m, w)
          else if fill_percent < 0 \<or> fill_percent > 1 then
            (Err ParameterError ''Fill percent must be a number between 0.0 and 1.0'', m, w)
          else rpc_then ''SendState''
            (sb_sendState stub (bearer token)
              \<lparr>ss_lbid = uri_lbId (lm_cpuri m), ss_sessionid = uri_sessionId (lm_cpuri m),
               ss_fillpercent = fill_percent, ss_controlsignal = control_signal, ss_isready = is_ready,
               ss_stats = stats, ss_timestamp = ts\<rparr> w) m
            (\<lambda>_. (Ok 0, m)))"

definition sendState_stats ::
  "('w, 'ws) lb_stub \<Rightarrow> int \<Rightarrow> rat \<Rightarrow> rat \<Rightarrow> bool \<Rightarrow> WorkerStats \<Rightarrow> ('w, int) lb_call" where
  "sendState_stats stub now fill_percent control_signal is_ready stats =
     sendState_ts stub fill_percent control_signal is_ready (now, 0) stats"

definition sendState :: "('w, 'ws) lb_stub \<Rightarrow> int \<Rightarrow> rat \<Rightarrow> rat \<Rightarrow> bool \<Rightarrow> ('w, int) lb_call" where
  "sendState stub now fill_percent control_signal is_ready =
     sendState_ts stub fill_percent control_signal is_ready (now, 0) WorkerStats_new"

definition sendState_at :: "('w, 'ws) lb_stub \<Rightarrow> rat \<Rightarrow> rat \<Rightarrow> bool \<Rightarrow> time_stamp \<Rightarrow> ('w, int) lb_call" where
  "sendState_at stub fill_percent control_signal is_ready ts =
     sendState_ts stub fill_percent control_signal is_ready ts WorkerStats_new"

section \<open>Senders\<close>

definition addSenders :: "host_ops \<Rightarrow> ('w, 'ws) lb_stub \<Rightarrow> string list \<Rightarrow> ('w, int) lb_call" where
  "addSenders h stub senders m w =
     (case get_InstanceToken (lm_cpuri m) of
        Inl _ \<Rightarrow> (Err ParameterNotAvailable ''Instance token not available in the URI'', m, w)
      | Inr token \<Rightarrow>
          if uri_lbId (lm_cpuri m) = [] then
            (Err ParameterNotAvailable ''LB ID not avialable - have you reserved it previously?'', m, w)
          else case collect_senders h senders [] of
                 None \<Rightarrow> (Err ParameterError ''Invalid sender IP addresses'', m, w)
               | Some ss \<Rightarrow> rpc_then ''AddSenders''
                   (sb_addSenders stub (bearer token) (uri_lbId (lm_cpuri m), ss) w) m (\<lambda>_. (Ok 0, m)))"

definition removeSenders :: "host_ops \<Rightarrow> ('w, 'ws) lb_stub \<Rightarrow> string list \<Rightarrow> ('w, int) lb_call" where
  "removeSenders h stub senders m w =
     (case get_InstanceToken (lm_cpuri m) of
        Inl _ \<Rightarrow> (Err ParameterNotAvailable ''Instance token not available in the URI'', m, w)
      | Inr token \<Rightarrow>
          if uri_lbId (lm_cpuri m) = [] then
            (Err ParameterNotAvailable ''LB ID not avialable - have you reserved it previously?'', m, w)
          else case collect_senders h senders [] of
                 None \<Rightarrow> (Err ParameterError ''Invalid sender IP addresses'', m, w)
               | Some ss \<Rightarrow> rpc_then ''RemoveSenders''
                   (sb_removeSenders stub (bearer token) (uri_lbId (lm_cpuri m), ss) w) m (\<lambda>_. (Ok 0, m)))"

definition addSenderSelf :: "host_ops \<Rightarrow> route_ops \<Rightarrow> ('w, 'ws) lb_stub \<Rightarrow> bool \<Rightarrow> ('w, int) lb_call" where
  "addSenderSelf h r stub v6 m w =
     (case getDataplaneLocalAddresses r v6 (lm_cpuri m) of
        Inl e \<Rightarrow> (Inl e, m, w)
      | Inr ips \<Rightarrow>
          if ips = [] then (Err SystemError ''Unable to determine outgoing dataplane address'', m, w)
          else addSenders h stub (map (addr_str h) ips) m w)"

definition removeSenderSelf :: "host_ops \<Rightarrow> route_ops \<Rightarrow> ('w, 'ws) lb_stub \<Rightarrow> bool \<Rightarrow> ('w, int) lb_call" where
  "removeSenderSelf h r stub v6 m w =
     (case getDataplaneLocalAddresses r v6 (lm_cpuri m) of
        Inl e \<Rightarrow> (Inl e, m, w)
      | Inr ips \<Rightarrow>
          if ips = [] then (Err SystemError ''Unable to determine outgoing dataplane address'', m, w)
          else removeSenders h stub (map (addr_str h) ips) m w)"

section \<open>Tokens\<close>

definition perm_to_pb :: "TokenPerm \<Rightarrow> pb_perm" where
  "perm_to_pb p = (uint (pm_resourceType p), pm_resourceId p, uint (pm_permission p))"

definition perm_from_pb :: "pb_perm \<Rightarrow> TokenPerm" where
  "perm_from_pb = (\<lambda>(rt, rid, pt). \<lparr>pm_resourceType = word_of_int rt, pm_resourceId = rid, pm_permission = word_of_int pt\<rparr>)"

definition details_from_pb :: "pb_details \<Rightarrow> TokenDetails" where
  "details_from_pb = (\<lambda>(name, perms, created_at, i).
     \<lparr>td_name = name, td_permissions = map perm_from_pb perms, td_created_at = created_at, td_id = i\<rparr>)"

definition createToken :: "('w, 'ws) lb_stub \<Rightarrow> string \<Rightarrow> TokenPerm list \<Rightarrow> ('w, string) lb_call" where
  "createToken stub name permissions m w =
     (case get_AdminToken (lm_cpuri m) of
        Inl _ \<Rightarrow> (Err ParameterNotAvailable ''Admin token not available in the URI'', m, w)
      | Inr token \<Rightarrow>
          if name = [] then (Err ParameterError ''Token name cannot be empty'', m, w)
          else if permissions = [] then (Err ParameterError ''Permissions vector cannot be empty'', m, w)
          else rpc_then ''createToken''
            (sb_createToken stub (bearer token) (name, map perm_to_pb permissions) w) m (\<lambda>t. (Ok t, m)))"

definition listTokenPermissions :: "('w, 'ws) lb_stub \<Rightarrow> TokenSelector \<Rightarrow> ('w, TokenDetails) lb_call" where
  "listTokenPermissions stub target m w =
     (case get_AdminToken (lm_cpuri m) of
        Inl _ \<Rightarrow> (Err ParameterNotAvailable ''Admin token not available in the URI'', m, w)
      | Inr token \<Rightarrow>
          rpc_then ''listTokenPermissions'' (sb_listPerms stub (bearer token) target w) m
            (\<lambda>rep. (Ok (details_from_pb rep), m)))"

definition listChildTokens :: "('w, 'ws) lb_stub \<Rightarrow> TokenSelector \<Rightarrow> ('w, TokenDetails list) lb_call" where
  "listChildTokens stub target m w =
     (case get_AdminToken (lm_cpuri m) of
        Inl _ \<Rightarrow> (Err ParameterNotAvailable ''Admin token not available in the URI'', m, w)
      | Inr token \<Rightarrow>
          rpc_then ''listChildTokens'' (sb_listChildren stub (bearer token) target w) m
            (\<lambda>rep. (Ok (map details_from_pb rep), m)))"

definition revokeToken :: "('w, 'ws) lb_stub \<Rightarrow> TokenSelector \<Rightarrow> ('w, int) lb_call" where
  "revokeToken stub target m w =
     (case get_AdminToken (lm_cpuri m) of
        Inl _ \<Rightarrow> (Err ParameterNotAvailable ''Admin token not available in the URI'', m, w)
      | Inr token \<Rightarrow>
          rpc_then ''revokeToken'' (sb_revoke stub (bearer token) target w) m (\<lambda>_. (Ok 0, m)))"

section \<open>Time series\<close>

fun collect_series :: "(string \<times> string \<times> ts_samples) list \<Rightarrow> TimeseriesData list \<Rightarrow> TimeseriesData list option" where
  "collect_series [] acc = Some acc"
| "collect_series ((name, unit_name, samples) # ts) acc =
     (case samples of
        NoTS \<Rightarrow> None
      | _ \<Rightarrow> collect_series ts (acc @ [\<lparr>sd_path = name, sd_unit = unit_name, sd_timeseries = samples\<rparr>]))"

definition stamp_ms :: "time_stamp \<Rightarrow> int" where
  "stamp_ms ts = fst ts * 1000 + cpp_div (snd ts) 1000000"

definition lb_timeseries ::
  "('w, 'ws) lb_stub \<Rightarrow> string \<Rightarrow> time_stamp \<Rightarrow> ('w, int \<times> TimeseriesData list) lb_call" where
  "lb_timeseries stub path since m w =
     (case get_AdminToken (lm_cpuri m) of
        Inl _ \<Rightarrow> (Err ParameterNotAvailable ''Admin token not available in the URI'', m, w)
      | Inr token \<Rightarrow>
          if path = [] then (Err ParameterError ''Timeseries path cannot be empty'', m, w)
          else rpc_then ''timeseries'' (sb_timeseries stub (bearer token) ([path], since) w) m
            (\<lambda>(since', series).
               (if series = [] then Err NotFound (''No timeseries data returned for path: '' @ path)
                else case collect_series series [] of
                       None \<Rightarrow> Err DataError ''Timeseries has neither float nor integer samples''
                     | Some tsd \<Rightarrow> Ok (stamp_ms since', tsd), m)))"

section \<open>Replies as plain data\<close>

record 'ws LBStatus =
  ls_timestamp :: time_stamp
  ls_currentEpoch :: u64
  ls_currentPredictedEventNumber :: u64
  ls_workers :: "'ws list"
  ls_senderAddresses :: "string list"
  ls_expiresAt :: time_stamp

definition get_WorkerStatusVector :: "'ws StatusReply \<Rightarrow> 'ws list" where
  "get_WorkerStatusVector rep = st_workers rep"

definition get_SenderAddressVector :: "'ws StatusReply \<Rightarrow> string list" where
  "get_SenderAddressVector rep = st_senders rep"

definition asLBStatus :: "'ws StatusReply \<Rightarrow> 'ws LBStatus" where
  "asLBStatus rep = \<lparr>ls_timestamp = st_timestamp rep, ls_currentEpoch = st_currentepoch rep,
     ls_currentPredictedEventNumber = st_predicted rep, ls_workers = get_WorkerStatusVector rep,
     ls_senderAddresses = get_SenderAddressVector rep, ls_expiresAt = st_expiresat rep\<rparr>"

record 'ws OverviewEntry =
  ov_name :: string
  ov_lbid :: string
  ov_syncIPv4AndPort :: "ip_address \<times> u16"
  ov_syncIPv6AndPort :: "ip_address \<times> u16"
  ov_dataIPv4 :: ip_address
  ov_dataIPv6 :: ip_address
  ov_fpgaLBId :: u32
  ov_dataMinPort :: u32
  ov_dataMaxPort :: u32
  ov_status :: "'ws LBStatus"

text \<open>
  Every address of a reservation goes through \<open>make_address\<close>, in a function that is \<^verbatim>\<open>noexcept\<close>:
  \<open>None\<close> is the end of the program.
\<close>

definition overview_entry ::
  "host_ops \<Rightarrow> string \<times> Reservation \<times> 'ws StatusReply \<Rightarrow> 'ws OverviewEntry option" where
  "overview_entry h = (\<lambda>(name, rv, status).
     case (make_address h (rv_syncipv4 rv), make_address h (rv_syncipv6 rv),
           make_address h (rv_dataipv4 rv), make_address h (rv_dataipv6 rv)) of
       (Some s4, Some s6, Some d4, Some d6) \<Rightarrow>
         Some \<lparr>ov_name = name, ov_lbid = rv_lbid rv, ov_syncIPv4AndPort = (s4, ucast (rv_syncudpport rv)),
           ov_syncIPv6AndPort = (s6, ucast (rv_syncudpport rv)), ov_dataIPv4 = d4, ov_dataIPv6 = d6,
           ov_fpgaLBId = rv_fpgalbid rv, ov_dataMinPort = rv_dataminport rv,
           ov_dataMaxPort = rv_datamaxport rv, ov_status = asLBStatus status\<rparr>
     | _ \<Rightarrow> None)"

fun asOverviewMessage ::
  "host_ops \<Rightarrow> (string \<times> Reservation \<times> 'ws StatusReply) list \<Rightarrow> 'ws OverviewEntry list option" where
  "asOverviewMessage h [] = Some []"
| "asOverviewMessage h (x # xs) =
     (case overview_entry h x of
        None \<Rightarrow> None
      | Some e \<Rightarrow> map_option (Cons e) (asOverviewMessage h xs))"

section \<open>Certificate files\<close>

text \<open>Reading a file in blocks of 4096 bytes; an empty path reads as the empty string.\<close>

function read_blocks :: "string \<Rightarrow> string \<Rightarrow> string" where
  "read_blocks rest out =
     (if length rest < 4096 then out @ rest else read_blocks (drop 4096 rest) (out @ take 4096 rest))"
  by auto
termination by (relation "measure (\<lambda>(r, out). length r)") auto

declare read_blocks.simps [simp del]

definition read_file :: "(string \<Rightarrow> string option) \<Rightarrow> string \<Rightarrow> string result" where
  "read_file files path =
     (if path = [] then Ok []
      else case files path of
             None \<Rightarrow> Err NotFound ''Unable to open file''
           | Some content \<Rightarrow> Ok (read_blocks content []))"

definition makeSslOptions :: "string \<Rightarrow> string \<Rightarrow> string \<Rightarrow> ssl_options result" where
  "makeSslOptions rcert priv cert = Ok (rcert, priv, cert)"

definition makeSslOptionsFromFiles ::
  "(string \<Rightarrow> string option) \<Rightarrow> string \<Rightarrow> string \<Rightarrow> string \<Rightarrow> ssl_options result" where
  "makeSslOptionsFromFiles files pem_root_certs pem_private_key pem_cert_chain =
     (case (read_file files pem_root_certs, read_file files pem_private_key, read_file files pem_cert_chain) of
        (Inr rcert, Inr priv, Inr cert) \<Rightarrow> makeSslOptions rcert priv cert
      | _ \<Rightarrow> Err NotFound ''Unable to find certificate, key or root cert files'')"

definition makeSslOptionsFromFile :: "(string \<Rightarrow> string option) \<Rightarrow> string \<Rightarrow> ssl_options result" where
  "makeSslOptionsFromFile files pem_root_certs =
     (case read_file files pem_root_certs of
        Inl _ \<Rightarrow> Err NotFound ''Unable to find root cert file''
      | Inr rcert \<Rightarrow> makeSslOptions rcert [] [])"

section \<open>What every call has in common\<close>

text \<open>All calls as data, the token each needs, and what a call leaves behind besides its value.\<close>

datatype lb_op =
    OpReserve string time_stamp "string list" int
  | OpFree string
  | OpGet string
  | OpStatus string
  | OpOverview
  | OpVersion
  | OpRegister string "ip_address \<times> u16" rat u16 rat rat bool
  | OpDeregister
  | OpSendState rat rat bool time_stamp WorkerStats
  | OpAddSenders "string list"
  | OpRemoveSenders "string list"
  | OpCreateToken string "TokenPerm list"
  | OpListPerms TokenSelector
  | OpListChildren TokenSelector
  | OpRevoke TokenSelector
  | OpTimeseries string time_stamp

fun op_token :: "lb_op \<Rightarrow> TokenType" where
  "op_token (OpRegister _ _ _ _ _ _ _) = TT_instance"
| "op_token (OpAddSenders _) = TT_instance"
| "op_token (OpRemoveSenders _) = TT_instance"
| "op_token OpDeregister = TT_session"
| "op_token (OpSendState _ _ _ _ _) = TT_session"
| "op_token _ = TT_admin"

definition outcome_of :: "'a result \<times> 's \<Rightarrow> E2SARErrorInfo option \<times> 's" where
  "outcome_of x = ((case fst x of Inl e \<Rightarrow> Some e | Inr _ \<Rightarrow> None), snd x)"

fun lb_exec ::
  "host_ops \<Rightarrow> ('w, 'ws) lb_stub \<Rightarrow> lb_op \<Rightarrow> LBManager \<Rightarrow> 'w \<Rightarrow> E2SARErrorInfo option \<times> LBManager \<times> 'w" where
  "lb_exec h stub (OpReserve name until senders fam) m w = outcome_of (reserveLB h stub name until senders fam m w)"
| "lb_exec h stub (OpFree i) m w = outcome_of (freeLB_id stub i m w)"
| "lb_exec h stub (OpGet i) m w = outcome_of (getLB_id h stub i m w)"
| "lb_exec h stub (OpStatus i) m w = outcome_of (getLBStatus_id stub i m w)"
| "lb_exec h stub OpOverview m w = outcome_of (lb_overview stub m w)"
| "lb_exec h stub OpVersion m w = outcome_of (lb_version stub m w)"
| "lb_exec h stub (OpRegister name a wt n mn mx keep) m w =
     outcome_of (registerWorker h stub name a wt n mn mx keep m w)"
| "lb_exec h stub OpDeregister m w = outcome_of (deregisterWorker stub m w)"
| "lb_exec h stub (OpSendState fill ctl ready ts stats) m w =
     outcome_of (sendState_ts stub fill ctl ready ts stats m w)"
| "lb_exec h stub (OpAddSenders ss) m w = outcome_of (addSenders h stub ss m w)"
| "lb_exec h stub (OpRemoveSenders ss) m w = outcome_of (removeSenders h stub ss m w)"
| "lb_exec h stub (OpCreateToken name perms) m w = outcome_of (createToken stub name perms m w)"
| "lb_exec h stub (OpListPerms t) m w = outcome_of (listTokenPermissions stub t m w)"
| "lb_exec h stub (OpListChildren t) m w = outcome_of (listChildTokens stub t m w)"
| "lb_exec h stub (OpRevoke t) m w = outcome_of (revokeToken stub t m w)"
| "lb_exec h stub (OpTimeseries path since) m w = outcome_of (lb_timeseries stub path since m w)"

lemmas lb_call_defs = reserveLB_def freeLB_id_def getLB_id_def getLBStatus_id_def lb_overview_def
  lb_version_def registerWorker_def deregisterWorker_def sendState_ts_def addSenders_def
  removeSenders_def createToken_def listTokenPermissions_def listChildTokens_def revokeToken_def
  lb_timeseries_def

lemmas get_token_defs = get_AdminToken_def get_InstanceToken_def get_SessionToken_def

lemma outcome_of_pair [simp]:
  "outcome_of (Inl e, s) = (Some e, s)" "outcome_of (Inr x, s) = (None, s)"
  by (simp_all add: outcome_of_def)

text \<open>
  The contract of a call that needs a token: without it nothing happens but the error.  Whatever a
  call does to the manager or the world, it had its token.
\<close>

locale authorised_call =
  fixes needs :: TokenType
    and call :: "LBManager \<Rightarrow> 'w \<Rightarrow> E2SARErrorInfo option \<times> LBManager \<times> 'w"
  assumes refused: "token_at needs (lm_cpuri m) = [] \<Longrightarrow>
    \<exists>e. ec e = ParameterNotAvailable \<and> call m w = (Some e, m, w)"
begin

lemma effect_has_token:
  assumes "call m w = (r, m', w')" and "m' \<noteq> m \<or> w' \<noteq> w"
  shows "token_at needs (lm_cpuri m) \<noteq> []"
  using refused[of m w] assms by auto

lemma success_has_token: "call m w = (None, m', w') \<Longrightarrow> token_at needs (lm_cpuri m) \<noteq> []"
  using refused[of m w] by auto

end

lemma lb_exec_refused:
  "token_at (op_token op) (lm_cpuri m) = [] \<Longrightarrow>
     \<exists>e. ec e = ParameterNotAvailable \<and> lb_exec h stub op m w = (Some e, m, w)"
  by (cases op) (simp_all add: lb_call_defs get_token_defs)

interpretation lb_auth: authorised_call "op_token op" "lb_exec h stub op" for h stub op
  by unfold_locales (rule lb_exec_refused)

section \<open>Which token goes out\<close>

text \<open>A stub that keeps a record of the authorization headers it is given.\<close>

definition logged :: "('w, 'req, 'rep) rpc \<Rightarrow> ('w \<times> string list, 'req, 'rep) rpc" where
  "logged f hdr req = (\<lambda>(w, hist). case f hdr req w of (r, w') \<Rightarrow> (r, (w', hist @ [hdr])))"

definition logging :: "('w, 'ws) lb_stub \<Rightarrow> ('w \<times> string list, 'ws) lb_stub" where
  "logging s = \<lparr>sb_reserve = logged (sb_reserve s), sb_free = logged (sb_free s),
     sb_get = logged (sb_get s), sb_status = logged (sb_status s), sb_overview = logged (sb_overview s),
     sb_register = logged (sb_register s), sb_deregister = logged (sb_deregister s),
     sb_sendState = logged (sb_sendState s), sb_version = logged (sb_version s),
     sb_addSenders = logged (sb_addSenders s), sb_removeSenders = logged (sb_removeSenders s),
     sb_createToken = logged (sb_createToken s), sb_listPerms = logged (sb_listPerms s),
     sb_listChildren = logged (sb_listChildren s), sb_revoke = logged (sb_revoke s),
     sb_timeseries = logged (sb_timeseries s)\<rparr>"

text \<open>The world after \<open>rpc_then\<close> is the one its RPC left, so the record grows by one header or not at all.\<close>

definition log_of :: "E2SARErrorInfo option \<times> LBManager \<times> 'w \<times> string list \<Rightarrow> string list" where
  "log_of x = snd (snd (snd x))"

lemma log_of_rpc_then:
  "log_of (outcome_of (rpc_then name (logged f hdr req (w, hist)) m k)) = hist @ [hdr]"
  by (auto simp: rpc_then_def logged_def log_of_def outcome_of_def split: prod.splits sum.splits)

lemma log_of_plain [simp]: "log_of (e, m, w, hist) = hist"
  by (simp add: log_of_def)

lemma lb_exec_log:
  "log_of (lb_exec h (logging stub) op m (w, hist)) = hist \<or>
   token_at (op_token op) (lm_cpuri m) \<noteq> [] \<and>
     log_of (lb_exec h (logging stub) op m (w, hist)) = hist @ [bearer (token_at (op_token op) (lm_cpuri m))]"
  by (cases op) (simp_all add: lb_call_defs get_token_defs logging_def log_of_rpc_then Let_def split: option.split)

section \<open>What a call changes\<close>

lemma fill_sync_tokens: "fill_sync h rep u = (e, u') \<Longrightarrow> uri_tokens u' = uri_tokens u"
  by (auto simp: fill_sync_def set_syncAddr_def split: if_splits sum.splits)

lemma fill_data_tokens: "fill_data h text u = (e, u') \<Longrightarrow> uri_tokens u' = uri_tokens u"
  by (auto simp: fill_data_def set_dataAddr_def split: if_splits sum.splits)

lemma fill_addresses_tokens: "fill_addresses h rep u = (e, u') \<Longrightarrow> uri_tokens u' = uri_tokens u"
  by (auto simp: fill_addresses_def split: prod.splits option.splits dest!: fill_sync_tokens fill_data_tokens)

text \<open>The tokens an operation may replace.\<close>

fun op_grants :: "lb_op \<Rightarrow> TokenType option" where
  "op_grants (OpReserve _ _ _ _) = Some TT_instance"
| "op_grants (OpRegister _ _ _ _ _ _ _) = Some TT_session"
| "op_grants _ = None"

lemma rpc_then_manager:
  assumes "\<And>rep r m1. k rep = (r, m1) \<Longrightarrow> P m1" and "P m"
  shows "P (fst (snd (outcome_of (rpc_then name answer m k))))"
  using assms by (auto simp: rpc_then_def outcome_of_def split: prod.splits sum.splits)

lemma rpc_then_same:
  "(\<And>rep. snd (k rep) = m) \<Longrightarrow> fst (snd (outcome_of (rpc_then name answer m k))) = m"
  by (rule rpc_then_manager) (auto simp: prod_eq_iff)

definition tokens_kept :: "TokenType option \<Rightarrow> LBManager \<Rightarrow> LBManager \<Rightarrow> bool" where
  "tokens_kept g m m' \<longleftrightarrow> (uri_ok (lm_cpuri m) \<longrightarrow> uri_ok (lm_cpuri m') \<and>
     list_all (\<lambda>tt. g = Some tt \<or> token_at tt (lm_cpuri m') = token_at tt (lm_cpuri m))
       [TT_all, TT_admin, TT_instance, TT_session])"

lemma tokens_kept_refl [simp]: "tokens_kept g m m"
  by (simp add: tokens_kept_def)

lemma tokens_kept_same: "uri_tokens (lm_cpuri m') = uri_tokens (lm_cpuri m) \<Longrightarrow> tokens_kept g m m'"
  by (simp add: tokens_kept_def uri_ok_def token_at_def)

lemma reserveLB_tokens: "tokens_kept (Some TT_instance) m (fst (snd (outcome_of (reserveLB h stub name until ss fam m w))))"
proof -
  have k: "tokens_kept (Some TT_instance) m m'"
    if "(case fill_addresses h rep u2 of (Some e, u3) \<Rightarrow> (Inl e, m1\<lparr>lm_cpuri := u3\<rparr>)
         | (None, u3) \<Rightarrow> (Ok (rp_fpgalbid rep), m1\<lparr>lm_cpuri := u3\<rparr>)) = (r, m')"
      and "u2 = (if rp_lbid rep \<noteq> [] then set_lbId (rp_lbid rep) u1 else u1)"
      and "u1 = (if rp_token rep \<noteq> [] then set_InstanceToken (rp_token rep) (lm_cpuri m1) else lm_cpuri m1)"
      and "m1 = on_uri (set_lbName name) m" for rep r m' m1 u1 u2
  proof -
    obtain e u3 where f: "fill_addresses h rep u2 = (e, u3)" by fastforce
    then have m': "lm_cpuri m' = u3" using that(1) by (auto split: option.splits)
    have t3: "uri_tokens u3 = uri_tokens u2" by (rule fill_addresses_tokens[OF f])
    have t2: "uri_tokens u2 = uri_tokens u1" using that(2) by (simp add: set_lbId_def)
    have t1: "uri_tokens u1 = (if rp_token rep \<noteq> [] then (uri_tokens (lm_cpuri m))[2 := rp_token rep] else uri_tokens (lm_cpuri m))"
      using that(3,4) by (simp add: on_uri_def set_lbName_def set_InstanceToken_def)
    show ?thesis using t1 unfolding tokens_kept_def uri_ok_def token_at_def m' t3 t2 by (auto simp: nth_list_update)
  qed
  have m1: "tokens_kept (Some TT_instance) m (on_uri (set_lbName name) m)"
    by (rule tokens_kept_same) (simp add: on_uri_def set_lbName_def)
  show ?thesis
  proof (cases "get_AdminToken (lm_cpuri m)")
    case (Inl e)
    then show ?thesis by (simp add: reserveLB_def)
  next
    case (Inr token)
    show ?thesis
    proof (cases "collect_senders h ss []")
      case None
      then show ?thesis using Inr m1 by (simp add: reserveLB_def Let_def)
    next
      case (Some ss')
      show ?thesis unfolding reserveLB_def Inr sum.case Some option.case Let_def
        by (rule rpc_then_manager) (erule k[OF _ refl refl refl], rule m1)
    qed
  qed
qed

lemma getLB_tokens: "tokens_kept None m (fst (snd (outcome_of (getLB_id h stub i m w))))"
proof -
  have k: "tokens_kept None m m'"
    if "(case fill_addresses h rep u1 of (Some e, u2) \<Rightarrow> (Inl e, m\<lparr>lm_cpuri := u2\<rparr>)
         | (None, u2) \<Rightarrow> (Ok 0, m\<lparr>lm_cpuri := u2\<rparr>)) = (r, m')"
      and "u1 = (if rp_lbid rep \<noteq> [] then set_lbId (rp_lbid rep) (lm_cpuri m) else lm_cpuri m)"
    for rep r m' u1
  proof -
    obtain e u3 where f: "fill_addresses h rep u1 = (e, u3)" by fastforce
    then have m': "lm_cpuri m' = u3" using that(1) by (auto split: option.splits)
    show ?thesis
      using fill_addresses_tokens[OF f] that(2) m' by (intro tokens_kept_same) (simp add: set_lbId_def)
  qed
  show ?thesis
  proof (cases "get_AdminToken (lm_cpuri m)")
    case (Inl e)
    then show ?thesis by (simp add: getLB_id_def)
  next
    case (Inr token)
    show ?thesis
    proof (cases "lbid_or_uri i m")
      case None
      then show ?thesis using Inr by (simp add: getLB_id_def)
    next
      case (Some j)
      show ?thesis unfolding getLB_id_def Inr sum.case Some option.case Let_def
        by (rule rpc_then_manager) (erule k[OF _ refl], rule tokens_kept_refl)
    qed
  qed
qed

lemma register_reply_tokens:
  "tokens_kept (Some TT_session) m (fst (snd (outcome_of (rpc_then name answer m
     (\<lambda>(token', sessionid).
        let u1 = (if token' \<noteq> [] then set_SessionToken token' (lm_cpuri m) else lm_cpuri m)
        in (Ok 0, m\<lparr>lm_cpuri := if sessionid \<noteq> [] then set_sessionId sessionid u1 else u1\<rparr>))))))"
proof -
  have k: "tokens_kept (Some TT_session) m (m\<lparr>lm_cpuri := u2\<rparr>)"
    if "u2 = (if sid \<noteq> [] then set_sessionId sid u1 else u1)"
      and "u1 = (if t \<noteq> [] then set_SessionToken t (lm_cpuri m) else lm_cpuri m)" for u1 u2 sid t
    using that by (auto simp: tokens_kept_def set_SessionToken_eq)
  show ?thesis unfolding Let_def
    by (rule rpc_then_manager) (use k[OF refl refl] in \<open>auto split: prod.splits\<close>)
qed

lemma registerWorker_tokens:
  "tokens_kept (Some TT_session) m
     (fst (snd (outcome_of (registerWorker h stub name a wt n mn mx keep m w))))"
  by (cases "get_InstanceToken (lm_cpuri m)") (simp_all add: registerWorker_def register_reply_tokens)

lemma lb_exec_keeps_manager:
  assumes "op_grants op = None" and "\<forall>i. op \<noteq> OpGet i"
  shows "fst (snd (lb_exec h stub op m w)) = m"
  using assms
  by (cases op) (simp_all add: lb_call_defs rpc_then_same split_beta split: sum.split option.split)

lemma lb_exec_tokens: "tokens_kept (op_grants op) m (fst (snd (lb_exec h stub op m w)))"
proof (cases "op_grants op = None \<and> (\<forall>i. op \<noteq> OpGet i)")
  case True
  then have "fst (snd (lb_exec h stub op m w)) = m" by (intro lb_exec_keeps_manager) simp_all
  then show ?thesis by simp
next
  case False
  then show ?thesis by (cases op) (simp_all add: reserveLB_tokens getLB_tokens registerWorker_tokens)
qed

section \<open>Sequences of calls\<close>

text \<open>Calls of a manager one after the other.\<close>

definition lb_calls ::
  "host_ops \<Rightarrow> ('w, 'ws) lb_stub \<Rightarrow> lb_op list \<Rightarrow> LBManager \<times> 'w \<Rightarrow> LBManager \<times> 'w" where
  "lb_calls h stub ops mw = fold (\<lambda>op (m, w). snd (lb_exec h stub op m w)) ops mw"

lemma lb_calls_Cons:
  "lb_calls h stub (op # ops) (m, w) = lb_calls h stub ops (snd (lb_exec h stub op m w))"
  by (simp add: lb_calls_def)

lemma lb_calls_keep_token:
  assumes "uri_ok (lm_cpuri m)" and "list_all (\<lambda>op. op_grants op \<noteq> Some tt) ops"
  shows "uri_ok (lm_cpuri (fst (lb_calls h stub ops (m, w)))) \<and>
    token_at tt (lm_cpuri (fst (lb_calls h stub ops (m, w)))) = token_at tt (lm_cpuri m)"
  using assms
proof (induction ops arbitrary: m w)
  case Nil
  then show ?case by (simp add: lb_calls_def)
next
  case (Cons op ops)
  obtain e m1 w1 where r: "lb_exec h stub op m w = (e, m1, w1)" by (metis prod.exhaust)
  have "uri_ok (lm_cpuri m1) \<and> token_at tt (lm_cpuri m1) = token_at tt (lm_cpuri m)"
    using lb_exec_tokens[of op m h stub w] Cons.prems r by (cases tt) (auto simp: tokens_kept_def)
  then show ?case using Cons.IH[of m1 w1] Cons.prems r by (simp add: lb_calls_Cons)
qed

lemma lb_calls_log:
  assumes "list_all (\<lambda>op. op_grants op = None) ops" and "uri_ok (lm_cpuri m)"
  shows "\<exists>sent. snd (snd (lb_calls h (logging stub) ops (m, w, hist))) = hist @ sent \<and>
    subseq sent (map (\<lambda>op. bearer (token_at (op_token op) (lm_cpuri m))) ops) \<and> bearer [] \<notin> set sent"
  using assms
proof (induction ops arbitrary: m w hist)
  case Nil
  then show ?case by (simp add: lb_calls_def)
next
  case (Cons op ops)
  obtain e m1 w1 hist1 where r: "lb_exec h (logging stub) op m (w, hist) = (e, m1, w1, hist1)"
    by (metis prod.exhaust)
  have tok: "token_at tt (lm_cpuri m1) = token_at tt (lm_cpuri m)" "uri_ok (lm_cpuri m1)" for tt
    using lb_calls_keep_token[of m tt "[op]" h "logging stub" "(w, hist)"] Cons.prems r
    by (simp_all add: lb_calls_def)
  obtain sent where s: "snd (snd (lb_calls h (logging stub) ops (m1, w1, hist1))) = hist1 @ sent"
      "subseq sent (map (\<lambda>op. bearer (token_at (op_token op) (lm_cpuri m))) ops)" "bearer [] \<notin> set sent"
    using Cons.IH[of m1 w1 hist1] Cons.prems tok by auto
  have "hist1 = hist \<or> token_at (op_token op) (lm_cpuri m) \<noteq> [] \<and>
      hist1 = hist @ [bearer (token_at (op_token op) (lm_cpuri m))]"
    using lb_exec_log[of h stub op m w hist] by (simp add: r log_of_def)
  then show ?case
  proof
    assume "hist1 = hist"
    then show ?thesis using s r by (intro exI[of _ sent]) (auto simp: lb_calls_Cons)
  next
    assume "token_at (op_token op) (lm_cpuri m) \<noteq> [] \<and> hist1 = hist @ [bearer (token_at (op_token op) (lm_cpuri m))]"
    then show ?thesis using s r
      by (intro exI[of _ "bearer (token_at (op_token op) (lm_cpuri m)) # sent"]) (auto simp: lb_calls_Cons bearer_def)
  qed
qed

text \<open>A call without the token it needs is refused before anything is sent.\<close>

lemma call_without_token_refused:
  assumes "token_at (op_token op) (lm_cpuri m) = []"
  shows "\<exists>e. ec e = ParameterNotAvailable \<and> lb_exec h stub op m w = (Some e, m, w)"
  by (rule lb_auth.refused[OF assms])

end
