(* ===== verification/E2SAR_SegmenterSetup.thy ===== *)
theory E2SAR_SegmenterSetup
  imports E2SAR_Segmenter E2SAR_URI Complex_Main
begin

text \<open>
  Building and starting a segmenter: its flags and the INI file they can come from, the constructor
  with its checks, and the opening of the sync and the data sockets
  (\<^verbatim>\<open>include/e2sarDPSegmenter.hpp\<close>, \<^verbatim>\<open>src/e2sarDPSegmenter.cpp\<close>).

  Socket calls are parameters that change an abstract world \<open>'w\<close>; a failing call yields the \<^verbatim>\<open>errno\<close>.
  The property tree of the INI file is a parameter too: per key and type, the value it converts to,
  or nothing when the key is absent or does not convert.
\<close>

section \<open>Flags\<close>

record SegmenterFlags =
  sf_dpV6 :: bool
  sf_connectedSocket :: bool
  sf_useCP :: bool
  sf_warmUpMs :: u16
  sf_syncPeriodMs :: u16
  sf_syncPeriods :: u16
  sf_mtu :: u16
  sf_numSendSockets :: nat
  sf_sndSocketBufSize :: int
  sf_rateGbps :: rat
  sf_smooth :: bool
  sf_multiPort :: bool
  sf_ticksAsREEventNum :: bool
  sf_lbHdrVersion :: u8

definition SegmenterFlags_new :: SegmenterFlags where
  "SegmenterFlags_new = \<lparr>sf_dpV6 = False, sf_connectedSocket = True, sf_useCP = True, sf_warmUpMs = 1000,
     sf_syncPeriodMs = 1000, sf_syncPeriods = 2, sf_mtu = 1500, sf_numSendSockets = 4,
     sf_sndSocketBufSize = 1024 * 1024 * 3, sf_rateGbps = - 1, sf_smooth = False, sf_multiPort = False,
     sf_ticksAsREEventNum = False, sf_lbHdrVersion = lbhdrVersion2\<rparr>"

record ini_tree =
  ini_bool :: "string \<Rightarrow> bool option"
  ini_u16 :: "string \<Rightarrow> u16 option"
  ini_u32 :: "string \<Rightarrow> u32 option"
  ini_size :: "string \<Rightarrow> nat option"
  ini_int :: "string \<Rightarrow> int option"
  ini_float :: "string \<Rightarrow> rat option"

definition ini_get :: "(string \<Rightarrow> 'a option) \<Rightarrow> string \<Rightarrow> 'a \<Rightarrow> 'a" where
  "ini_get g key dflt = (case g key of Some v \<Rightarrow> v | None \<Rightarrow> dflt)"

text \<open>\<open>warmUpMs\<close> is read as a \<^verbatim>\<open>bool\<close>, its default converted to one, and the outcome widened again.\<close>

definition seg_flags_of_ini :: "ini_tree \<Rightarrow> SegmenterFlags \<Rightarrow> SegmenterFlags" where
  "seg_flags_of_ini t f = \<lparr>
     sf_dpV6 = ini_get (ini_bool t) ''data-plane.dpV6'' (sf_dpV6 f),
     sf_connectedSocket = ini_get (ini_bool t) ''data-plane.connectedSocket'' (sf_connectedSocket f),
     sf_useCP = ini_get (ini_bool t) ''general.useCP'' (sf_useCP f),
     sf_warmUpMs = (if ini_get (ini_bool t) ''control-plane.warmUpMS'' (sf_warmUpMs f \<noteq> 0) then 1 else 0),
     sf_syncPeriodMs = ini_get (ini_u16 t) ''control-plane.syncPeriodMS'' (sf_syncPeriodMs f),
     sf_syncPeriods = ini_get (ini_u16 t) ''control-plane.syncPeriods'' (sf_syncPeriods f),
     sf_mtu = ini_get (ini_u16 t) ''data-plane.mtu'' (sf_mtu f),
     sf_numSendSockets = ini_get (ini_size t) ''data-plane.numSendSockets'' (sf_numSendSockets f),
     sf_sndSocketBufSize = ini_get (ini_int t) ''data-plane.sndSocketBufSize'' (sf_sndSocketBufSize f),
     sf_rateGbps = ini_get (ini_float t) ''data-plane.rateGbps'' (sf_rateGbps f),
     sf_smooth = ini_get (ini_bool t) ''data-plane.smooth'' (sf_smooth f),
     sf_multiPort = ini_get (ini_bool t) ''data-plane.multiPort'' (sf_multiPort f),
     sf_ticksAsREEventNum = ini_get (ini_bool t) ''data-plane.ticksAsREEventNum'' (sf_ticksAsREEventNum f),
     sf_lbHdrVersion = word_of_int (ini_get (ini_int t) ''data-plane.lbHdrVersion'' (uint (sf_lbHdrVersion f)))\<rparr>"

definition seg_getFromINI :: "host_ops \<Rightarrow> (string \<Rightarrow> ini_tree option) \<Rightarrow> string \<Rightarrow> SegmenterFlags result" where
  "seg_getFromINI h read_ini iniFile =
     (case read_ini (expandTilde h iniFile) of
        None \<Rightarrow> Err ParameterNotAvailable (''Unable to parse the segmenter flags configuration file '' @ iniFile)
      | Some t \<Rightarrow> Ok (seg_flags_of_ini t SegmenterFlags_new))"

section \<open>The constructor\<close>

text \<open>\<open>sanityChecks\<close> throws an \<open>E2SARException\<close>, except for its last check, which throws the error record.\<close>

datatype thrown = ThrowsException E2SARException | ThrowsInfo E2SARErrorInfo

abbreviation throwing :: "string \<Rightarrow> thrown + 'a" where
  "throwing m \<equiv> Inl (ThrowsException \<lparr>error_msg = m\<rparr>)"

record segmenter =
  sg_uri :: EjfatURI
  sg_flags :: SegmenterFlags
  sg_cfg :: seg_cfg
  sg_mtu :: nat
  sg_iface :: string
  sg_cores :: "int list"

text \<open>What the build and the host provide: the netlink query, affinity, and the io\_uring probe.\<close>

record seg_host =
  sh_netlink :: bool
  sh_route :: route_ops
  sh_uring_probe :: "bool option"
  sh_uring_init :: "nat \<Rightarrow> int option"
  sh_setaffinity :: "int set \<Rightarrow> int option"
  sh_strerror :: "int \<Rightarrow> string"
  sh_entropy_low :: bool

definition seg_destination :: "EjfatURI \<Rightarrow> bool \<Rightarrow> thrown + ip_address" where
  "seg_destination uri v6 =
     (if v6 then (case get_dataAddrv6 uri of
        Inl _ \<Rightarrow> throwing ''IPV6 Data address is not present in the URI'' | Inr (a, p) \<Rightarrow> Inr a)
      else (case get_dataAddrv4 uri of
        Inl _ \<Rightarrow> throwing ''IPV4 Data address is not present in the URI'' | Inr (a, p) \<Rightarrow> Inr a))"

text \<open>The MTU to use, with the interface it belongs to; without netlink it must be given.\<close>

definition seg_choose_mtu :: "host_ops \<Rightarrow> seg_host \<Rightarrow> EjfatURI \<Rightarrow> SegmenterFlags \<Rightarrow> thrown + nat \<times> string" where
  "seg_choose_mtu h sh uri f =
     (if sh_netlink sh then
        (case seg_destination uri (sf_dpV6 f) of
           Inl e \<Rightarrow> Inl e
         | Inr dataaddr \<Rightarrow>
             (case getInterfaceAndMTU (sh_route sh) dataaddr of
                Inl _ \<Rightarrow> throwing (''Unable to determine outgoing interface for LB destination address '' @ addr_str h dataaddr)
              | Inr (iface, intfmtu) \<Rightarrow>
                  if sf_mtu f = 0 then
                    (if intfmtu > 0 then Inr (unat intfmtu, iface)
                     else throwing ''Outgoing interface MTU is reported as 0, please use manual override of MTU size'')
                  else if intfmtu > 0 then
                    (if sf_mtu f \<le> intfmtu then Inr (unat (sf_mtu f), iface)
                     else throwing (''Segmenter flags MTU override value exceeds outgoing interface MTU of '' @ iface))
                  else Inr (unat (sf_mtu f), iface)))
      else if sf_mtu f = 0 then throwing ''Unable to detect outgoing interface MTU on this platform''
      else Inr (unat (sf_mtu f), []))"

text \<open>Probing io\_uring and setting up a ring for each socket, when that optimization is selected.\<close>

definition seg_uring_setup :: "seg_host \<Rightarrow> nat \<Rightarrow> (thrown + unit)" where
  "seg_uring_setup sh n =
     (case sh_uring_probe sh of
        None \<Rightarrow> throwing ''Unable to allocate io_uring probe, unable to proceed using liburing''
      | Some supported \<Rightarrow>
          if \<not> supported then
            throwing ''Your kernel does not support the expected IO_URING operations (IORING_OP_SENDMSG)''
          else (case List.find (\<lambda>i. sh_uring_init sh i \<noteq> None) [0..<n] of
                  Some i \<Rightarrow> throwing (''Unable to allocate uring due to '' @ sh_strerror sh (the (sh_uring_init sh i)))
                | None \<Rightarrow> Inr ()))"

definition seg_sanityChecks :: "segmenter \<Rightarrow> thrown + unit" where
  "seg_sanityChecks s =
     (if sf_numSendSockets (sg_flags s) > 128 then throwing ''Too many sending sockets threads requested, limit 128''
      else if unat (sf_syncPeriodMs (sg_flags s)) > 10000 then throwing ''Sync period too long, limit 10s''
      else if sg_mtu s > 9000 then throwing ''MTU set too long, limit 9000''
      else if sf_useCP (sg_flags s) \<and> \<not> has_syncAddr (sg_uri s) then throwing ''Sync address not present in the URI''
      else if \<not> has_dataAddr (sg_uri s) then throwing ''Data address is not present in the URI''
      else if sg_mtu s \<le> getTotalHeaderLength (sf_dpV6 (sg_flags s)) then
        Inl (ThrowsInfo \<lparr>ec = SocketError, msg = ''Insufficient MTU length to accommodate headers''\<rparr>)
      else Inr ())"

definition seg_cfg_of :: "seg_host \<Rightarrow> u16 \<Rightarrow> u32 \<Rightarrow> SegmenterFlags \<Rightarrow> nat \<Rightarrow> seg_cfg" where
  "seg_cfg_of sh did esid f mtu = \<lparr>sg_dataId = did, sg_eventSrcId = esid,
     sg_numSendSockets = sf_numSendSockets f, sg_lbHdrVersion = sf_lbHdrVersion f,
     sg_ticksAsREEventNum = sf_ticksAsREEventNum f, sg_addEntropy = sh_entropy_low sh,
     sg_useV6 = sf_dpV6 f, sg_maxPldLen = mtu - getTotalHeaderLength (sf_dpV6 f),
     sg_syncPeriods = unat (sf_syncPeriods f)\<rparr>"

text \<open>The end of the constructor: the rings, the checks and the affinity.\<close>

definition seg_finish :: "seg_host \<Rightarrow> (Code \<Rightarrow> bool) \<Rightarrow> segmenter \<Rightarrow> thrown + segmenter" where
  "seg_finish sh isSel s =
     (case (if isSel liburing_send then seg_uring_setup sh (sf_numSendSockets (sg_flags s)) else Inr ()) of
        Inl e \<Rightarrow> Inl e
      | Inr _ \<Rightarrow>
          (case seg_sanityChecks s of
             Inl e \<Rightarrow> Inl e
           | Inr _ \<Rightarrow>
               if sg_cores s \<noteq> [] then
                 (case fst (setProcess (sh_strerror sh) (sh_setaffinity sh) (sg_cores s)) of
                    Inl e \<Rightarrow> throwing (''Unable to set process affinity to indicated threads: '' @ msg e)
                  | Inr _ \<Rightarrow> Inr s)
               else Inr s))"

definition Segmenter_new ::
  "host_ops \<Rightarrow> seg_host \<Rightarrow> (Code \<Rightarrow> bool) \<Rightarrow> EjfatURI \<Rightarrow> u16 \<Rightarrow> u32 \<Rightarrow> int list \<Rightarrow> SegmenterFlags \<Rightarrow> thrown + segmenter" where
  "Segmenter_new h sh isSel uri did esid cores f =
     (if sf_lbHdrVersion f < 2 \<or> sf_lbHdrVersion f > 3 then
        throwing ''Only allowed LB header version numbers are 2 or 3''
      else case seg_choose_mtu h sh uri f of
        Inl e \<Rightarrow> Inl e
      | Inr (mtu, iface) \<Rightarrow>
          seg_finish sh isSel \<lparr>sg_uri = uri, sg_flags = f, sg_cfg = seg_cfg_of sh did esid f mtu,
            sg_mtu = mtu, sg_iface = iface, sg_cores = cores\<rparr>)"

definition Segmenter_new_nocores ::
  "host_ops \<Rightarrow> seg_host \<Rightarrow> (Code \<Rightarrow> bool) \<Rightarrow> EjfatURI \<Rightarrow> u16 \<Rightarrow> u32 \<Rightarrow> SegmenterFlags \<Rightarrow> thrown + segmenter" where
  "Segmenter_new_nocores h sh isSel uri did esid f = Segmenter_new h sh isSel uri did esid [] f"

text \<open>\<open>getMTU\<close> narrows to 16 bits.\<close>

definition seg_getMTU :: "segmenter \<Rightarrow> u16" where
  "seg_getMTU s = word_of_nat (sg_mtu s)"

definition seg_getMaxPldLen :: "segmenter \<Rightarrow> nat" where
  "seg_getMaxPldLen s = sg_maxPldLen (sg_cfg s)"

section \<open>Opening sockets\<close>

record 'w sock_ops =
  so_socket :: "bool \<Rightarrow> 'w \<Rightarrow> (int + nat) \<times> 'w"
  so_bind :: "nat \<Rightarrow> u16 \<Rightarrow> 'w \<Rightarrow> int option \<times> 'w"
  so_setbuf :: "nat \<Rightarrow> int \<Rightarrow> 'w \<Rightarrow> int option \<times> 'w"
  so_connect :: "nat \<Rightarrow> ip_address \<times> u16 \<Rightarrow> 'w \<Rightarrow> int option \<times> 'w"
  so_close :: "nat \<Rightarrow> 'w \<Rightarrow> 'w"
  so_randomPort :: "'w \<Rightarrow> u16 \<times> 'w"
  so_register :: "nat \<Rightarrow> nat list \<Rightarrow> 'w \<Rightarrow> int option \<times> 'w"
  so_strerror :: "int \<Rightarrow> string"

definition sock_fail :: "'w sock_ops \<Rightarrow> string \<Rightarrow> int \<Rightarrow> E2SARErrorInfo" where
  "sock_fail ops prefix errno = \<lparr>ec = SocketError, msg = prefix @ so_strerror ops errno\<rparr>"

text \<open>The sync socket: the address family decides, a failed \<open>connect\<close> closes it again.\<close>

definition sync_open ::
  "'w sock_ops \<Rightarrow> EjfatURI \<Rightarrow> bool \<Rightarrow> seg_state \<Rightarrow> 'w \<Rightarrow> nat result \<times> seg_state \<times> 'w" where
  "sync_open ops uri connectSocket s w =
     (case get_syncAddr uri of
        Inl e \<Rightarrow> (Inl e, s, w)
      | Inr (a, port) \<Rightarrow>
          (case so_socket ops (is_v6 a) w of
             (Inl errno, w1) \<Rightarrow> (Inl (sock_fail ops [] errno), on_syncStats (stats_failed 1 errno) s, w1)
           | (Inr fd, w1) \<Rightarrow>
               if connectSocket then
                 (case so_connect ops fd (a, port) w1 of
                    (Some errno, w2) \<Rightarrow>
                      (Inl (sock_fail ops [] errno), on_syncStats (stats_failed 1 errno) s, so_close ops fd w2)
                  | (None, w2) \<Rightarrow> (Ok fd, s, w2))
               else (Ok fd, s, w1)))"

text \<open>Up to \<open>numTries\<close> random source ports; each try opens a socket of its own.\<close>

fun bind_tries :: "'w sock_ops \<Rightarrow> bool \<Rightarrow> nat \<Rightarrow> int \<Rightarrow> 'w \<Rightarrow> (E2SARErrorInfo \<times> int + nat \<times> u16) \<times> 'w" where
  "bind_tries ops v6 0 errno w = (Inl (sock_fail ops (if v6 then [] else ''Unable to bind: '') errno, errno), w)"
| "bind_tries ops v6 (Suc n) errno w =
     (case so_randomPort ops w of (port, w1) \<Rightarrow>
        (case so_socket ops v6 w1 of
           (Inl e, w2) \<Rightarrow> (Inl (sock_fail ops (if v6 then [] else ''Unable to open socket: '') e, e), w2)
         | (Inr fd, w2) \<Rightarrow>
             (case so_bind ops fd port w2 of
                (Some e, w3) \<Rightarrow> bind_tries ops v6 n e (so_close ops fd w3)
              | (None, w3) \<Rightarrow> (Inr (fd, port), w3))))"

definition send_open_one ::
  "'w sock_ops \<Rightarrow> bool \<Rightarrow> int \<Rightarrow> bool \<Rightarrow> ip_address \<times> u16 \<Rightarrow> 'w \<Rightarrow> (E2SARErrorInfo \<times> int + nat \<times> u16) \<times> 'w" where
  "send_open_one ops v6 bufSize connectSocket dest w =
     (case bind_tries ops v6 5 0 w of
        (Inl x, w1) \<Rightarrow> (Inl x, w1)
      | (Inr (fd, port), w1) \<Rightarrow>
          (case so_setbuf ops fd bufSize w1 of
             (Some e, w2) \<Rightarrow> (Inl (sock_fail ops [] e, e), so_close ops fd w2)
           | (None, w2) \<Rightarrow>
               if connectSocket then
                 (case so_connect ops fd dest w2 of
                    (Some e, w3) \<Rightarrow> (Inl (sock_fail ops (if v6 then [] else ''Unable to connect: '') e, e), so_close ops fd w3)
                  | (None, w3) \<Rightarrow> (Inr (fd, port), w3))
               else (Inr (fd, port), w2)))"

text \<open>Socket \<open>k\<close> of \<open>n\<close>, with consecutive destination ports (modulo 2^16) when \<open>multiPort\<close> is set.\<close>

fun send_open_all ::
  "'w sock_ops \<Rightarrow> SegmenterFlags \<Rightarrow> ip_address \<times> u16 \<Rightarrow> nat \<Rightarrow> nat \<Rightarrow> 'w \<Rightarrow>
     (E2SARErrorInfo \<times> int + (nat \<times> u16 \<times> u16) list) \<times> 'w" where
  "send_open_all ops f a k 0 w = (Inr [], w)"
| "send_open_all ops f a k (Suc n) w =
     (let dport = (if sf_multiPort f then snd a + word_of_nat k else snd a)
      in case send_open_one ops (sf_dpV6 f) (sf_sndSocketBufSize f) (sf_connectedSocket f) (fst a, dport) w of
           (Inl x, w1) \<Rightarrow> (Inl x, w1)
         | (Inr (fd, port), w1) \<Rightarrow>
             (case send_open_all ops f a (Suc k) n w1 of
                (Inl x, w2) \<Rightarrow> (Inl x, w2)
              | (Inr fds, w2) \<Rightarrow> (Inr ((fd, port, dport) # fds), w2)))"

fun register_rings :: "'w sock_ops \<Rightarrow> nat list \<Rightarrow> nat list \<Rightarrow> seg_state \<Rightarrow> 'w \<Rightarrow> seg_state \<times> 'w" where
  "register_rings ops fds [] s w = (s, w)"
| "register_rings ops fds (r # rs) s w =
     (case so_register ops r fds w of
        (Some ret, w1) \<Rightarrow> register_rings ops fds rs (on_sendStats (stats_failed 1 ret) s) w1
      | (None, w1) \<Rightarrow> register_rings ops fds rs s w1)"

definition send_open ::
  "'w sock_ops \<Rightarrow> (Code \<Rightarrow> bool) \<Rightarrow> segmenter \<Rightarrow> seg_state \<Rightarrow> 'w \<Rightarrow>
     (nat \<times> u16 \<times> u16) list result \<times> seg_state \<times> 'w" where
  "send_open ops isSel sg s w =
     (let f = sg_flags sg
      in case (if sf_dpV6 f then get_dataAddrv6 (sg_uri sg) else get_dataAddrv4 (sg_uri sg)) of
           Inl e \<Rightarrow> (Inl e, s, w)
         | Inr a \<Rightarrow>
             (case send_open_all ops f a 0 (sf_numSendSockets f) w of
                (Inl (e, errno), w1) \<Rightarrow> (Inl e, on_sendStats (stats_failed 1 errno) s, w1)
              | (Inr fds, w1) \<Rightarrow>
                  if isSel liburing_send then
                    (case register_rings ops (map fst fds) [0..<sf_numSendSockets f] s w1 of
                       (s2, w2) \<Rightarrow> (Ok fds, s2, w2))
                  else (Ok fds, s, w1)))"

text \<open>\<open>openAndStart\<close>: which threads run afterwards is part of the result.\<close>

record seg_running =
  sr_sync :: "nat option"
  sr_send :: "(nat \<times> u16 \<times> u16) list option"

definition seg_openAndStart ::
  "'w sock_ops \<Rightarrow> (Code \<Rightarrow> bool) \<Rightarrow> segmenter \<Rightarrow> seg_state \<Rightarrow> 'w \<Rightarrow> int result \<times> seg_running \<times> seg_state \<times> 'w" where
  "seg_openAndStart ops isSel sg s w =
     (let f = sg_flags sg in
      case (if sf_useCP f then
              (case sync_open ops (sg_uri sg) (sf_connectedSocket f) s w of
                 (Inl e, s1, w1) \<Rightarrow> (Err SocketError (''Unable to open sync socket: '' @ msg e), s1, w1)
               | (Inr fd, s1, w1) \<Rightarrow> (Ok (Some fd), s1, w1))
            else (Ok None, s, w)) of
        (Inl e, s1, w1) \<Rightarrow> (Inl e, \<lparr>sr_sync = None, sr_send = None\<rparr>, s1, w1)
      | (Inr sync, s1, w1) \<Rightarrow>
          (case send_open ops isSel sg s1 w1 of
             (Inl e, s2, w2) \<Rightarrow>
               (Err SocketError (''Unable to open data socket: '' @ msg e), \<lparr>sr_sync = sync, sr_send = None\<rparr>, s2, w2)
           | (Inr fds, s2, w2) \<Rightarrow> (Ok 0, \<lparr>sr_sync = sync, sr_send = Some fds\<rparr>, s2, w2)))"

section \<open>What the checks guarantee\<close>

lemma seg_sanityChecks_ok:
  "seg_sanityChecks s = Inr u \<longleftrightarrow> sf_numSendSockets (sg_flags s) \<le> 128 \<and>
     unat (sf_syncPeriodMs (sg_flags s)) \<le> 10000 \<and> sg_mtu s \<le> 9000 \<and>
     (sf_useCP (sg_flags s) \<longrightarrow> has_syncAddr (sg_uri s)) \<and> has_dataAddr (sg_uri s) \<and>
     getTotalHeaderLength (sf_dpV6 (sg_flags s)) < sg_mtu s"
  by (auto simp: seg_sanityChecks_def)

lemma seg_finish_ok:
  assumes "seg_finish sh isSel s = Inr s'"
  shows "s' = s" and "seg_sanityChecks s = Inr ()"
proof -
  have c: "seg_sanityChecks s = Inr ()"
    using assms by (cases "seg_sanityChecks s") (auto simp: seg_finish_def split: sum.splits)
  then show "seg_sanityChecks s = Inr ()" .
  show "s' = s" using assms unfolding seg_finish_def c by (auto split: sum.splits if_splits)
qed

lemma word_two_or_three: "\<not> (v < 2 \<or> 3 < v) \<Longrightarrow> v = 2 \<or> v = (3 :: u8)"
proof -
  assume "\<not> (v < 2 \<or> 3 < v)"
  then have "unat v = unat (2 :: u8) \<or> unat v = unat (3 :: u8)" by (auto simp: word_less_nat_alt not_less)
  then show ?thesis by (simp only: word_unat_eq_iff)
qed

lemma Segmenter_new_cases:
  assumes "Segmenter_new h sh isSel uri did esid cores f = Inr s"
  obtains mtu iface where
    "s = \<lparr>sg_uri = uri, sg_flags = f, sg_cfg = seg_cfg_of sh did esid f mtu, sg_mtu = mtu,
       sg_iface = iface, sg_cores = cores\<rparr>" "seg_sanityChecks s = Inr ()"
    "sf_lbHdrVersion f = 2 \<or> sf_lbHdrVersion f = 3"
proof -
  have v: "\<not> (sf_lbHdrVersion f < 2 \<or> sf_lbHdrVersion f > 3)"
    using assms by (auto simp: Segmenter_new_def)
  then obtain mtu iface where m: "seg_choose_mtu h sh uri f = Inr (mtu, iface)"
    using assms by (auto simp: Segmenter_new_def split: sum.splits)
  let ?s = "\<lparr>sg_uri = uri, sg_flags = f, sg_cfg = seg_cfg_of sh did esid f mtu, sg_mtu = mtu,
     sg_iface = iface, sg_cores = cores\<rparr>"
  have fin: "seg_finish sh isSel ?s = Inr s" using assms v by (simp add: Segmenter_new_def m)
  show ?thesis
    using that[of mtu iface] seg_finish_ok[OF fin] word_two_or_three[OF v] by simp
qed

text \<open>A segmenter that was built has room for payload, and its datagrams fit the MTU and the receiver.\<close>

lemma Segmenter_new_bounds:
  assumes "Segmenter_new h sh isSel uri did esid cores f = Inr s"
  shows "0 < sg_maxPldLen (sg_cfg s)"
    and "sg_maxPldLen (sg_cfg s) + getTotalHeaderLength (sf_dpV6 f) = sg_mtu s" and "sg_mtu s \<le> 9000"
    and "sizeof_LBHdr + sizeof_REHdr + sg_maxPldLen (sg_cfg s) \<le> 9000"
    and "sg_numSendSockets (sg_cfg s) \<le> 128" and "has_dataAddr uri"
    and "sg_lbHdrVersion (sg_cfg s) = 2 \<or> sg_lbHdrVersion (sg_cfg s) = 3"
proof -
  obtain mtu iface where s: "s = \<lparr>sg_uri = uri, sg_flags = f, sg_cfg = seg_cfg_of sh did esid f mtu,
      sg_mtu = mtu, sg_iface = iface, sg_cores = cores\<rparr>" and c: "seg_sanityChecks s = Inr ()"
    and v: "sf_lbHdrVersion f = 2 \<or> sf_lbHdrVersion f = 3"
    by (rule Segmenter_new_cases[OF assms])
  have C: "sf_numSendSockets f \<le> 128" "mtu \<le> 9000" "has_dataAddr uri" "getTotalHeaderLength (sf_dpV6 f) < mtu"
    using c unfolding seg_sanityChecks_ok s by simp_all
  have cfg: "sg_cfg s = seg_cfg_of sh did esid f mtu" "sg_mtu s = mtu" using s by simp_all
  have pld: "sg_maxPldLen (seg_cfg_of sh did esid f mtu) = mtu - getTotalHeaderLength (sf_dpV6 f)"
    by (simp add: seg_cfg_of_def)
  have h: "36 \<le> getTotalHeaderLength (sf_dpV6 f)"
    by (cases "sf_dpV6 f") (simp_all add: getTotalHeaderLength_values)
  show "0 < sg_maxPldLen (sg_cfg s)" "sg_maxPldLen (sg_cfg s) + getTotalHeaderLength (sf_dpV6 f) = sg_mtu s"
    "sg_mtu s \<le> 9000" "has_dataAddr uri" using C unfolding cfg pld by simp_all
  show "sizeof_LBHdr + sizeof_REHdr + sg_maxPldLen (sg_cfg s) \<le> 9000"
    unfolding cfg pld sizeof_LBHdr_def sizeof_REHdr_def using C(2,4) h by linarith
  show "sg_numSendSockets (sg_cfg s) \<le> 128"
    "sg_lbHdrVersion (sg_cfg s) = 2 \<or> sg_lbHdrVersion (sg_cfg s) = 3"
    using C(1) v unfolding cfg by (simp_all add: seg_cfg_of_def)
qed

lemma seg_ini_warmUp: "sf_warmUpMs (seg_flags_of_ini t f) \<in> {0, 1}"
  by (simp add: seg_flags_of_ini_def)

section \<open>What opening does\<close>

text \<open>One socket per requested one, consecutive destination ports when several are asked for.\<close>

lemma send_open_all_ports:
  "send_open_all ops f a k n w = (Inr fds, w') \<Longrightarrow> length fds = n \<and>
     map (\<lambda>(fd, p, d). d) fds =
       map (\<lambda>i. if sf_multiPort f then snd a + word_of_nat i else snd a) [k..<k + n]"
proof (induction n arbitrary: k w fds w')
  case 0
  then show ?case by simp
next
  case (Suc n)
  obtain fd port w1 rest w2 where
    one: "send_open_one ops (sf_dpV6 f) (sf_sndSocketBufSize f) (sf_connectedSocket f)
      (fst a, if sf_multiPort f then snd a + word_of_nat k else snd a) w = (Inr (fd, port), w1)"
    and rest: "send_open_all ops f a (Suc k) n w1 = (Inr rest, w2)"
    and fds: "fds = (fd, port, if sf_multiPort f then snd a + word_of_nat k else snd a) # rest"
    using Suc.prems by (auto simp: Let_def split: prod.splits sum.splits)
  have "[k..<k + Suc n] = k # [Suc k..<Suc k + n]" by (simp add: upt_rec)
  then show ?case using Suc.IH[OF rest] fds by simp
qed

lemma bind_tries_errno:
  "bind_tries ops v6 n e w = (Inl (err, errno), w') \<Longrightarrow> ec err = SocketError"
  by (induction ops v6 n e w rule: bind_tries.induct)
    (auto simp: sock_fail_def split: prod.splits sum.splits option.splits)

text \<open>A failure to open is one error in the counters of the thread concerned, success is none.\<close>

lemma sync_open_counts:
  assumes "sync_open ops uri c s w = (r, s', w')" and "has_syncAddr uri"
  shows "st_errCnt (sg_syncStats s') = st_errCnt (sg_syncStats s) + (if has_error r then 1 else 0)"
  using assms
  by (auto simp: sync_open_def get_syncAddr_def has_syncAddr_def on_syncStats_def stats_failed_def
      split: prod.splits sum.splits option.splits if_splits)

lemma send_open_all_error:
  "send_open_all ops f a k n w = (Inl (err, errno), w') \<Longrightarrow> ec err = SocketError"
proof (induction n arbitrary: k w)
  case 0
  then show ?case by simp
next
  case (Suc n)
  then show ?case
    by (auto simp: Let_def send_open_one_def sock_fail_def dest: bind_tries_errno
        split: prod.splits sum.splits option.splits if_splits)
qed

end
