(* ===== verification/E2SAR_ReassemblerSetup.thy ===== *)
theory E2SAR_ReassemblerSetup
  imports E2SAR_Reassembly E2SAR_ControlPlane E2SAR_SegmenterSetup
begin

text \<open>
  Building, starting and stopping a reassembler (\<^verbatim>\<open>include/e2sarDPReassembler.hpp\<close>,
  \<^verbatim>\<open>src/e2sarDPReassembler.cpp\<close>): flags, the four constructors with their checks, the ports each
  thread gets, the opening of the receive sockets, the registration with the control plane, and the
  thread that reports the fill state with the PID controller's signal.

  Floats are rational numbers (rounding, infinities and NaN are left out).  Socket calls are the
  parameters of \<open>E2SAR_SegmenterSetup\<close>, the control plane those of \<open>E2SAR_ControlPlane\<close>.
\<close>

section \<open>Flags\<close>

record ReassemblerFlags =
  rf_useCP :: bool
  rf_useHostAddress :: bool
  rf_period_ms :: u16
  rf_validateCert :: bool
  rf_Ki :: rat
  rf_Kp :: rat
  rf_Kd :: rat
  rf_setPoint :: rat
  rf_epoch_ms :: u32
  rf_portRange :: int
  rf_withLBHeader :: bool
  rf_eventTimeout_ms :: int
  rf_rcvSocketBufSize :: int
  rf_weight :: rat
  rf_min_factor :: rat
  rf_max_factor :: rat
  rf_reportStats :: bool

definition ReassemblerFlags_new :: ReassemblerFlags where
  "ReassemblerFlags_new = \<lparr>rf_useCP = True, rf_useHostAddress = False, rf_period_ms = 100,
     rf_validateCert = True, rf_Ki = 0, rf_Kp = 0, rf_Kd = 0, rf_setPoint = 0, rf_epoch_ms = 1000,
     rf_portRange = -1, rf_withLBHeader = False, rf_eventTimeout_ms = 500,
     rf_rcvSocketBufSize = 1024 * 1024 * 3, rf_weight = 1, rf_min_factor = 1 / 2, rf_max_factor = 2,
     rf_reportStats = False\<rparr>"

text \<open>The three parameters after \<open>Kd\<close> are read into \<open>Kd\<close>, one after the other.\<close>

definition reas_flags_of_ini :: "ini_tree \<Rightarrow> ReassemblerFlags \<Rightarrow> ReassemblerFlags" where
  "reas_flags_of_ini t f =
     (let Kd1 = ini_get (ini_float t) ''pid.Kd'' (rf_Kd f);
          Kd2 = ini_get (ini_float t) ''pid.weight'' Kd1;
          Kd3 = ini_get (ini_float t) ''pid.min_factor'' Kd2;
          Kd4 = ini_get (ini_float t) ''pid.max_factor'' Kd3
      in f\<lparr>rf_useCP := ini_get (ini_bool t) ''general.useCP'' (rf_useCP f),
           rf_useHostAddress := ini_get (ini_bool t) ''control-plane.useHostAddress'' (rf_useHostAddress f),
           rf_validateCert := ini_get (ini_bool t) ''control-plane.validateCert'' (rf_validateCert f),
           rf_reportStats := ini_get (ini_bool t) ''control-plane.reportStats'' (rf_reportStats f),
           rf_portRange := ini_get (ini_int t) ''data-plane.portRange'' (rf_portRange f),
           rf_withLBHeader := ini_get (ini_bool t) ''data-plane.withLBHeader'' (rf_withLBHeader f),
           rf_eventTimeout_ms := ini_get (ini_int t) ''data-plane.eventTimeoutMS'' (rf_eventTimeout_ms f),
           rf_rcvSocketBufSize := ini_get (ini_int t) ''data-plane.rcvSocketBufSize'' (rf_rcvSocketBufSize f),
           rf_epoch_ms := ini_get (ini_u32 t) ''data-plane.epochMS'' (rf_epoch_ms f),
           rf_period_ms := ini_get (ini_u16 t) ''data-plane.periodMS'' (rf_period_ms f),
           rf_setPoint := ini_get (ini_float t) ''pid.setPoint'' (rf_setPoint f),
           rf_Ki := ini_get (ini_float t) ''pid.Ki'' (rf_Ki f),
           rf_Kp := ini_get (ini_float t) ''pid.Kp'' (rf_Kp f),
           rf_Kd := Kd4\<rparr>)"

definition reas_getFromINI :: "host_ops \<Rightarrow> (string \<Rightarrow> ini_tree option) \<Rightarrow> string \<Rightarrow> ReassemblerFlags result" where
  "reas_getFromINI h read_ini iniFile =
     (case read_ini (expandTilde h iniFile) of
        None \<Rightarrow> Err ParameterNotAvailable (''Unable to parse the reassembler flags configuration file '' @ iniFile)
      | Some t \<Rightarrow> Ok (reas_flags_of_ini t ReassemblerFlags_new))"

section \<open>Ports\<close>

text \<open>The port range in force and the number of ports it stands for.\<close>

definition reas_portRange :: "int \<Rightarrow> nat \<Rightarrow> int" where
  "reas_portRange flag threads = (if flag \<noteq> -1 then flag else int (get_PortRange (int threads)))"

definition reas_numRecvPorts :: "int \<Rightarrow> nat" where
  "reas_numRecvPorts portRange = (if portRange > 0 then 2 * 2 ^ nat (portRange - 1) else 1)"

text \<open>
  \<open>assignPortsToThreads\<close>: the inner loop deals one port to each thread in turn until the ports run
  out, the outer one starts over at the first thread.  With no thread the outer loop never ends.
\<close>

fun assign_round :: "nat \<Rightarrow> nat \<Rightarrow> nat \<Rightarrow> int list list \<Rightarrow> nat \<times> int list list" where
  "assign_round dataPort ports i [] = (i, [])"
| "assign_round dataPort ports i (t # ts) =
     (if i < ports then
        (case assign_round dataPort ports (Suc i) ts of (i', ts') \<Rightarrow> (i', (t @ [int (dataPort + i)]) # ts'))
      else (i, t # ts))"

fun assign_loop :: "nat \<Rightarrow> nat \<Rightarrow> nat \<Rightarrow> nat \<Rightarrow> int list list \<Rightarrow> int list list option" where
  "assign_loop 0 dataPort ports i ts = (if i < ports then None else Some ts)"
| "assign_loop (Suc fuel) dataPort ports i ts =
     (if i < ports then
        (case assign_round dataPort ports i ts of (i', ts') \<Rightarrow> assign_loop fuel dataPort ports i' ts')
      else Some ts)"

definition assignPortsToThreads :: "nat \<Rightarrow> nat \<Rightarrow> nat \<Rightarrow> int list list option" where
  "assignPortsToThreads dataPort ports threads =
     assign_loop ports dataPort ports 0 (replicate threads [])"

section \<open>The constructors\<close>

record reassembler =
  ra_uri :: EjfatURI
  ra_lbman :: LBManager
  ra_flags :: ReassemblerFlags
  ra_pidCapacity :: nat
  ra_cores :: "int list"
  ra_dataIP :: ip_address
  ra_dataPort :: u16
  ra_portRange :: int
  ra_numRecvThreads :: nat
  ra_numRecvPorts :: nat
  ra_threadsToPorts :: "int list list"
  ra_registeredWorker :: bool
  ra_threadsStop :: bool

definition reas_sanityChecks :: "reassembler \<Rightarrow> unit constructed" where
  "reas_sanityChecks r =
     (if ra_numRecvThreads r > 128 then throw_E2SAR ''Too many reassembly threads requested, limit 128''
      else if ra_numRecvPorts r > 2 * 2 ^ 13 then throw_E2SAR ''Too many receive ports reqiuested, limit 2^14''
      else if rf_eventTimeout_ms (ra_flags r) > 10000 then
        throw_E2SAR ''Event timeout exception unreasonably long, limit 10s''
      else if unat (ra_dataPort r) < 1024 then
        throw_E2SAR ''Base receive port in the privileged range (<1024)''
      else if ra_portRange r > 14 then throw_E2SAR ''Port range out of bounds: [0, 14]''
      else if \<not> has_dataAddr (ra_uri r) then throw_E2SAR ''Data address not present in the URI''
      else Inr ())"

text \<open>
  What the four constructors share.  \<open>affinity\<close> is the outcome of pinning the process to the cores,
  asked for only with a core list.  \<open>None\<close>: the ring buffer size divides by a period of 0, or the
  assignment of ports does not end.
\<close>

definition reas_build ::
  "host_ops \<Rightarrow> EjfatURI \<Rightarrow> ip_address \<Rightarrow> u16 \<Rightarrow> int list \<Rightarrow> nat \<Rightarrow> ReassemblerFlags \<Rightarrow> LBManager \<Rightarrow> reassembler" where
  "reas_build h uri data_ip starting_port cores threads f lb =
     (let pr = reas_portRange (rf_portRange f) threads
      in \<lparr>ra_uri = uri, ra_lbman = lb, ra_flags = f,
          ra_pidCapacity = unat (rf_epoch_ms f) div unat (rf_period_ms f), ra_cores = cores,
          ra_dataIP = data_ip, ra_dataPort = starting_port, ra_portRange = pr,
          ra_numRecvThreads = threads, ra_numRecvPorts = reas_numRecvPorts pr,
          ra_threadsToPorts = replicate threads [], ra_registeredWorker = False, ra_threadsStop = False\<rparr>)"

definition reas_finish :: "int result option \<Rightarrow> reassembler \<Rightarrow> reassembler constructed option" where
  "reas_finish affinity r =
     (case reas_sanityChecks r of
        Inl x \<Rightarrow> Some (Inl x)
      | Inr _ \<Rightarrow>
          (case affinity of
             Some (Inl e) \<Rightarrow> Some (throw_E2SAR (msg e))
           | _ \<Rightarrow>
               (case assignPortsToThreads (unat (ra_dataPort r)) (ra_numRecvPorts r) (ra_numRecvThreads r) of
                  None \<Rightarrow> None
                | Some ps \<Rightarrow> Some (Inr (r\<lparr>ra_threadsToPorts := ps\<rparr>)))))"

definition Reassembler_new ::
  "host_ops \<Rightarrow> int result option \<Rightarrow> EjfatURI \<Rightarrow> ip_address \<Rightarrow> u16 \<Rightarrow> int list \<Rightarrow> nat \<Rightarrow> ReassemblerFlags \<Rightarrow>
     reassembler constructed option" where
  "Reassembler_new h affinity uri data_ip starting_port cores threads f =
     (case LBManager_new h uri (rf_validateCert f) (rf_useHostAddress f) SslCredentialsOptions_new of
        Inl x \<Rightarrow> Some (Inl x)
      | Inr lb \<Rightarrow>
          if rf_period_ms f = 0 then None
          else reas_finish affinity (reas_build h uri data_ip starting_port cores threads f lb))"

text \<open>With a given address: by core list, or by number of threads.\<close>

definition Reassembler_cores ::
  "host_ops \<Rightarrow> seg_host \<Rightarrow> EjfatURI \<Rightarrow> ip_address \<Rightarrow> u16 \<Rightarrow> int list \<Rightarrow> ReassemblerFlags \<Rightarrow> reassembler constructed option" where
  "Reassembler_cores h sh uri data_ip starting_port cores f =
     Reassembler_new h (Some (fst (setProcess (sh_strerror sh) (sh_setaffinity sh) cores)))
       uri data_ip starting_port cores (length cores) f"

definition Reassembler_threads ::
  "host_ops \<Rightarrow> EjfatURI \<Rightarrow> ip_address \<Rightarrow> u16 \<Rightarrow> nat \<Rightarrow> ReassemblerFlags \<Rightarrow> reassembler constructed option" where
  "Reassembler_threads h uri data_ip starting_port threads f =
     Reassembler_new h None uri data_ip starting_port [] threads f"

text \<open>
  With the address found from the route to the data plane.  The members are initialised before the
  body looks for it, so a period of 0 fails first; the first address found is taken.
\<close>

definition Reassembler_auto ::
  "host_ops \<Rightarrow> seg_host \<Rightarrow> int result option \<Rightarrow> EjfatURI \<Rightarrow> u16 \<Rightarrow> int list \<Rightarrow> nat \<Rightarrow> ReassemblerFlags \<Rightarrow> bool \<Rightarrow>
     reassembler constructed option" where
  "Reassembler_auto h sh affinity uri starting_port cores threads f v6 =
     (case LBManager_new h uri (rf_validateCert f) (rf_useHostAddress f) SslCredentialsOptions_new of
        Inl x \<Rightarrow> Some (Inl x)
      | Inr lb \<Rightarrow>
          if rf_period_ms f = 0 then None
          else case getDataplaneLocalAddresses (sh_route sh) v6 uri of
            Inl e \<Rightarrow> Some (throw_E2SAR (msg e))
          | Inr [] \<Rightarrow> Some (throw_E2SAR ''Unable to determine outgoing dataplane address'')
          | Inr (a # _) \<Rightarrow> reas_finish affinity (reas_build h uri a starting_port cores threads f lb))"

definition Reassembler_auto_cores ::
  "host_ops \<Rightarrow> seg_host \<Rightarrow> EjfatURI \<Rightarrow> u16 \<Rightarrow> int list \<Rightarrow> ReassemblerFlags \<Rightarrow> bool \<Rightarrow> reassembler constructed option" where
  "Reassembler_auto_cores h sh uri starting_port cores f v6 =
     Reassembler_auto h sh (Some (fst (setProcess (sh_strerror sh) (sh_setaffinity sh) cores)))
       uri starting_port cores (length cores) f v6"

definition Reassembler_auto_threads ::
  "host_ops \<Rightarrow> seg_host \<Rightarrow> EjfatURI \<Rightarrow> u16 \<Rightarrow> nat \<Rightarrow> ReassemblerFlags \<Rightarrow> bool \<Rightarrow> reassembler constructed option" where
  "Reassembler_auto_threads h sh uri starting_port threads f v6 =
     Reassembler_auto h sh None uri starting_port [] threads f v6"

definition get_recvPorts :: "reassembler \<Rightarrow> int \<times> int" where
  "get_recvPorts r = (uint (ra_dataPort r), uint (ra_dataPort r) + int (ra_numRecvPorts r) - 1)"

section \<open>Opening the receive sockets\<close>

text \<open>The table of ports by descriptor is resized to each new descriptor, growing or shrinking.\<close>

definition resize_to :: "nat \<Rightarrow> 'x \<Rightarrow> 'x list \<Rightarrow> 'x list" where
  "resize_to n x xs = take n xs @ replicate (n - length xs) x"

definition recv_failed :: "int \<Rightarrow> reas_shared \<Rightarrow> reas_shared" where
  "recv_failed errno g = g\<lparr>rs_dataErrCnt := rs_dataErrCnt g + 1, rs_lastErrno := errno\<rparr>"

definition recv_open_one ::
  "'w sock_ops \<Rightarrow> ip_address \<Rightarrow> int \<Rightarrow> int \<Rightarrow> 'w \<Rightarrow> (E2SARErrorInfo \<times> int + nat) \<times> 'w" where
  "recv_open_one ops dataIP bufSize port w =
     (case so_socket ops (is_v6 dataIP) w of
        (Inl e, w1) \<Rightarrow> (Inl (sock_fail ops [] e, e), w1)
      | (Inr fd, w1) \<Rightarrow>
          (case so_setbuf ops fd bufSize w1 of
             (Some e, w2) \<Rightarrow> (Inl (sock_fail ops [] e, e), so_close ops fd w2)
           | (None, w2) \<Rightarrow>
               (case so_bind ops fd (word_of_int port) w2 of
                  (Some e, w3) \<Rightarrow> (Inl (sock_fail ops [] e, e), so_close ops fd w3)
                | (None, w3) \<Rightarrow> (Inr fd, w3))))"

fun recv_open_ports ::
  "'w sock_ops \<Rightarrow> ip_address \<Rightarrow> int \<Rightarrow> int list \<Rightarrow> recv_thread \<Rightarrow> reas_shared \<Rightarrow> 'w \<Rightarrow>
     E2SARErrorInfo option \<times> recv_thread \<times> reas_shared \<times> 'w" where
  "recv_open_ports ops dataIP bufSize [] t g w = (None, t, g, w)"
| "recv_open_ports ops dataIP bufSize (port # ps) t g w =
     (case recv_open_one ops dataIP bufSize port w of
        (Inl (e, errno), w1) \<Rightarrow> (Some e, t, recv_failed errno g, w1)
      | (Inr fd, w1) \<Rightarrow>
          recv_open_ports ops dataIP bufSize ps
            (t\<lparr>rt_sockets := rt_sockets t @ [fd], rt_maxFdPlusOne := max (rt_maxFdPlusOne t) fd\<rparr>)
            (g\<lparr>rs_portPerFd := (resize_to (fd + 1) 0 (rs_portPerFd g))[fd := word_of_int port]\<rparr>) w1)"

text \<open>\<open>RecvThreadState::_open\<close>: the value returned is the largest descriptor plus one.\<close>

definition recv_open ::
  "'w sock_ops \<Rightarrow> ip_address \<Rightarrow> int \<Rightarrow> recv_thread \<Rightarrow> reas_shared \<Rightarrow> 'w \<Rightarrow>
     nat result \<times> recv_thread \<times> reas_shared \<times> 'w" where
  "recv_open ops dataIP bufSize t g w =
     (case recv_open_ports ops dataIP bufSize (rt_udpPorts t) (t\<lparr>rt_sockets := [], rt_maxFdPlusOne := 0\<rparr>) g w of
        (Some e, t', g', w') \<Rightarrow> (Inl e, t', g', w')
      | (None, t', g', w') \<Rightarrow>
          (Ok (rt_maxFdPlusOne t' + 1), t'\<lparr>rt_maxFdPlusOne := rt_maxFdPlusOne t' + 1\<rparr>, g', w'))"

fun open_threads ::
  "'w sock_ops \<Rightarrow> ip_address \<Rightarrow> int \<Rightarrow> int list list \<Rightarrow> recv_thread list \<Rightarrow> nat \<Rightarrow> reas_shared \<Rightarrow> 'w \<Rightarrow>
     nat result \<times> recv_thread list \<times> reas_shared \<times> 'w" where
  "open_threads ops dataIP bufSize [] ts mx g w = (Ok mx, ts, g, w)"
| "open_threads ops dataIP bufSize (ps # pss) ts mx g w =
     (case recv_open ops dataIP bufSize (recv_thread_new ps) g w of
        (Inl e, t, g1, w1) \<Rightarrow>
          (Err SocketError (''Unable to open receive sockets: '' @ msg e), ts @ [t], g1, w1)
      | (Inr n, t, g1, w1) \<Rightarrow> open_threads ops dataIP bufSize pss (ts @ [t]) (max n mx) g1 w1)"

text \<open>\<open>openAndStart\<close>: the flag tells whether the threads run.\<close>

definition reas_openAndStart ::
  "'w sock_ops \<Rightarrow> reassembler \<Rightarrow> reas_shared \<Rightarrow> 'w \<Rightarrow> int result \<times> bool \<times> recv_thread list \<times> reas_shared \<times> 'w" where
  "reas_openAndStart ops r g w =
     (case open_threads ops (ra_dataIP r) (rf_rcvSocketBufSize (ra_flags r)) (ra_threadsToPorts r) [] 0 g w of
        (Inl e, ts, g1, w1) \<Rightarrow> (Inl e, False, ts, g1, w1)
      | (Inr mx, ts, g1, w1) \<Rightarrow>
          (Ok 0, True, ts, g1\<lparr>rs_fragmentsPerFd := resize_to mx 0 (rs_fragmentsPerFd g1)\<rparr>, w1))"

section \<open>The control plane side\<close>

text \<open>The flag is set before the call, whatever the call then returns.\<close>

definition reas_registerWorker ::
  "host_ops \<Rightarrow> ('w, 'ws) lb_stub \<Rightarrow> string \<Rightarrow> reassembler \<Rightarrow> 'w \<Rightarrow> int result \<times> reassembler \<times> 'w" where
  "reas_registerWorker h stub node_name r w =
     (if rf_useCP (ra_flags r) then
        (case registerWorker h stub node_name (ra_dataIP r, ra_dataPort r) (rf_weight (ra_flags r))
                (word_of_nat (ra_numRecvPorts r)) (rf_min_factor (ra_flags r)) (rf_max_factor (ra_flags r))
                False (ra_lbman r) w of
           (res, lb, w') \<Rightarrow> (res, r\<lparr>ra_registeredWorker := True, ra_lbman := lb\<rparr>, w'))
      else (Ok 0, r, w))"

definition reas_deregisterWorker ::
  "('w, 'ws) lb_stub \<Rightarrow> reassembler \<Rightarrow> 'w \<Rightarrow> int result \<times> reassembler \<times> 'w" where
  "reas_deregisterWorker stub r w =
     (if ra_registeredWorker r then
        (case deregisterWorker stub (ra_lbman r) w of
           (res, lb, w') \<Rightarrow> (res, r\<lparr>ra_registeredWorker := False, ra_lbman := lb\<rparr>, w'))
      else if rf_useCP (ra_flags r) then
        (Err LogicError ''Attempting to unregister a worker when it hasn't been registered.'', r, w)
      else (Ok 0, r, w))"

text \<open>The PID controller: output, error and integral.\<close>

definition pid :: "rat \<Rightarrow> rat \<Rightarrow> rat \<Rightarrow> rat \<Rightarrow> rat \<Rightarrow> rat \<Rightarrow> rat \<Rightarrow> rat \<Rightarrow> rat \<times> rat \<times> rat" where
  "pid setPoint prcsVal delta_t Kp Ki Kd prev_err prev_integral =
     (let err = setPoint - prcsVal;
          integral = err * delta_t + prev_integral;
          derivative = (err - prev_err) / delta_t
      in (Kp * err + Ki * integral + Kd * derivative, err, integral))"

record PIDSample =
  ps_sampleTime :: u64
  ps_error :: rat
  ps_integral :: rat

definition pid_first :: "nat \<Rightarrow> u64 \<Rightarrow> PIDSample list \<Rightarrow> PIDSample list" where
  "pid_first cap now buf = cb_push cap \<lparr>ps_sampleTime = now, ps_error = 0, ps_integral = 0\<rparr> buf"

definition fill_percent :: "reas_shared \<Rightarrow> rat" where
  "fill_percent g = of_nat (rs_eventQueueDepth g) / of_nat REAS_QSIZE"

definition report_stats :: "bool \<Rightarrow> reas_shared \<Rightarrow> WorkerStats" where
  "report_stats report g =
     (if report then WorkerStats_new\<lparr>ws_total_events_reassembly_err := sint (rs_reassemblyLoss g),
        ws_total_events_reassembled := sint (rs_eventSuccess g),
        ws_total_event_enqueue_err := sint (rs_enqueueLoss g),
        ws_total_bytes_recv := sint (rs_totalBytesReceived g),
        ws_total_packets_recv := sint (rs_totalPacketsReceived g)\<rparr>
      else WorkerStats_new)"

text \<open>
  One turn of \<open>SendStateThreadState::_threadBody\<close> at the microseconds and seconds the clock shows.  An
  empty sample buffer (a period longer than the epoch) has no front: \<open>None\<close>.
\<close>

definition sendState_tick ::
  "('w, 'ws) lb_stub \<Rightarrow> u64 \<Rightarrow> int \<Rightarrow> PIDSample list \<Rightarrow> reassembler \<Rightarrow> reas_shared \<Rightarrow> 'w \<Rightarrow>
     (PIDSample list \<times> reassembler \<times> reas_shared \<times> 'w) option" where
  "sendState_tick stub now nowSec buf r g w =
     (if buf = [] then None else
      let f = ra_flags r;
          deltaT = of_int (uint (now - ps_sampleTime (hd buf))) / 1000000;
          fill = fill_percent g
      in case pid (rf_setPoint f) fill deltaT (rf_Kp f) (rf_Ki f) (rf_Kd f) (ps_error (hd buf)) (ps_integral (last buf)) of
           (control, err, integral) \<Rightarrow>
             let buf' = cb_push (ra_pidCapacity r) \<lparr>ps_sampleTime = now, ps_error = err, ps_integral = integral\<rparr> buf
             in case sendState_stats stub nowSec fill control True (report_stats (rf_reportStats f) g) (ra_lbman r) w of
                  (res, lb, w') \<Rightarrow>
                    Some (buf', r\<lparr>ra_lbman := lb\<rparr>,
                      (case res of
                         Inl e \<Rightarrow> g\<lparr>rs_grpcErrCnt := rs_grpcErrCnt g + 1, rs_lastE2SARError := ec e\<rparr>
                       | Inr _ \<Rightarrow> g), w'))"

section \<open>Stopping\<close>

text \<open>\<open>stopThreads\<close> drains both queues once the threads are gone; the destructor deregisters first.\<close>

definition reas_stopThreads :: "reassembler \<Rightarrow> recv_thread list \<Rightarrow> reas_shared \<Rightarrow> reassembler \<times> recv_thread list \<times> reas_shared" where
  "reas_stopThreads r ts g =
     (if \<not> ra_threadsStop r then
        (r\<lparr>ra_threadsStop := True\<rparr>, gc_drain ts, g\<lparr>rs_eventQueue := [], rs_lostEventsQueue := []\<rparr>)
      else (r, ts, g))"

definition reas_destroy ::
  "('w, 'ws) lb_stub \<Rightarrow> reassembler \<Rightarrow> recv_thread list \<Rightarrow> reas_shared \<Rightarrow> 'w \<Rightarrow>
     reassembler \<times> recv_thread list \<times> reas_shared \<times> 'w" where
  "reas_destroy stub r ts g w =
     (case (if rf_useCP (ra_flags r) \<and> ra_registeredWorker r then
              (case deregisterWorker stub (ra_lbman r) w of (_, lb, w') \<Rightarrow> (r\<lparr>ra_lbman := lb\<rparr>, w'))
            else (r, w)) of
        (r1, w1) \<Rightarrow> (case reas_stopThreads r1 ts g of (r2, ts2, g2) \<Rightarrow> (r2, ts2, g2, w1)))"

section \<open>Ports dealt to threads\<close>

text \<open>What thread \<open>j\<close> of \<open>n\<close> holds once the first \<open>i\<close> ports are dealt.\<close>

definition dealt :: "nat \<Rightarrow> nat \<Rightarrow> nat \<Rightarrow> nat \<Rightarrow> int list" where
  "dealt dataPort n i j = map (\<lambda>k. int (dataPort + k)) (filter (\<lambda>k. k mod n = j) [0..<i])"

lemma dealt_Suc: "dealt d n (Suc i) j = dealt d n i j @ (if i mod n = j then [int (d + i)] else [])"
  by (simp add: dealt_def)

lemma dealt_skip:
  assumes "i \<le> i'" and "\<And>k. i \<le> k \<Longrightarrow> k < i' \<Longrightarrow> k mod n \<noteq> j"
  shows "dealt d n i' j = dealt d n i j"
  using assms by (induction i' rule: dec_induct) (simp_all add: dealt_Suc)

lemma assign_round_dealt:
  assumes "i = q * n + j" and "j + length ts = n" and "i \<le> ports" and "ts = map (dealt d n i) [j..<n]"
  shows "assign_round d ports i ts =
    (min ports (q * n + n), map (dealt d n (min ports (q * n + n))) [j..<n])"
  using assms
proof (induction ts arbitrary: i j)
  case Nil
  then show ?case by simp
next
  case (Cons t ts)
  have j: "j < n" and up: "[j..<n] = j # [Suc j..<n]" using Cons.prems(2) by (simp_all add: upt_conv_Cons)
  have t: "t = dealt d n i j" and ts: "ts = map (dealt d n i) [Suc j..<n]"
    using Cons.prems(4) unfolding up by simp_all
  have im: "i mod n = j" using Cons.prems(1) j by simp
  show ?case
  proof (cases "i < ports")
    case True
    have "ts = map (dealt d n (Suc i)) [Suc j..<n]"
      unfolding ts by (rule map_cong) (auto simp: dealt_Suc im)
    moreover have "Suc i = q * n + Suc j" using Cons.prems(1) by simp
    moreover have "Suc j + length ts = n" using Cons.prems(2) by simp
    ultimately have IH: "assign_round d ports (Suc i) ts =
        (min ports (q * n + n), map (dealt d n (min ports (q * n + n))) [Suc j..<n])"
      using Cons.IH[of "Suc i" "Suc j"] True by simp
    have "dealt d n (min ports (q * n + n)) j = dealt d n (Suc i) j"
    proof (rule dealt_skip)
      show "Suc i \<le> min ports (q * n + n)" using True Cons.prems(1) j by simp
      fix k assume k: "Suc i \<le> k" "k < min ports (q * n + n)"
      then have "k = q * n + (k - q * n)" "k - q * n < n" "j < k - q * n"
        using Cons.prems(1) by auto
      then show "k mod n \<noteq> j" by (metis mod_mult_self3 mod_less less_irrefl)
    qed
    then show ?thesis using True IH by (simp add: up t dealt_Suc im)
  next
    case False
    then have "i = ports" and "min ports (q * n + n) = ports" using Cons.prems j by auto
    then show ?thesis using Cons.prems(4)[symmetric] by simp
  qed
qed

lemma assign_loop_dealt:
  assumes "0 < n" and "i = q * n \<or> i = ports" and "i \<le> ports" and "ports \<le> i + fuel"
  shows "assign_loop fuel d ports i (map (dealt d n i) [0..<n]) = Some (map (dealt d n ports) [0..<n])"
  using assms(2-4)
proof (induction fuel arbitrary: i q)
  case 0
  then show ?case by simp
next
  case (Suc fuel)
  show ?case
  proof (cases "i < ports")
    case True
    then have i: "i = q * n" using Suc.prems by simp
    have r: "assign_round d ports i (map (dealt d n i) [0..<n]) =
        (min ports (q * n + n), map (dealt d n (min ports (q * n + n))) [0..<n])"
      by (rule assign_round_dealt) (use i Suc.prems in simp_all)
    have "assign_loop fuel d ports (min ports (q * n + n)) (map (dealt d n (min ports (q * n + n))) [0..<n]) =
        Some (map (dealt d n ports) [0..<n])"
      by (rule Suc.IH[of _ "Suc q"]) (use True i Suc.prems assms(1) in auto)
    then show ?thesis using True r by simp
  next
    case False
    then show ?thesis using Suc.prems by simp
  qed
qed

lemma assignPortsToThreads_dealt:
  "0 < threads \<Longrightarrow> assignPortsToThreads d ports threads = Some (map (dealt d threads ports) [0..<threads])"
proof -
  assume t: "0 < threads"
  have "replicate threads [] = map (dealt d threads 0) [0..<threads]"
    by (rule nth_equalityI) (simp_all add: dealt_def)
  then show ?thesis using assign_loop_dealt[OF t, of 0 0 ports ports d]
    by (simp add: assignPortsToThreads_def)
qed

lemma assign_loop_no_thread: "i < ports \<Longrightarrow> assign_loop fuel d ports i [] = None"
  by (induction fuel) simp_all

lemma assignPortsToThreads_no_thread: "0 < ports \<Longrightarrow> assignPortsToThreads d ports 0 = None"
  by (simp add: assignPortsToThreads_def assign_loop_no_thread)

lemma dealt_set: "set (dealt d n i j) = {int (d + k) | k. k < i \<and> k mod n = j}"
  by (auto simp: dealt_def)

lemma dealt_distinct: "distinct (dealt d n i j)"
  unfolding dealt_def by (simp add: distinct_map inj_on_def)

lemma length_dealt_Suc: "length (dealt d n (Suc i) j) = length (dealt d n i j) + (if i mod n = j then 1 else 0)"
  by (simp add: dealt_Suc)

lemma length_dealt:
  assumes "0 < n" and "j < n"
  shows "length (dealt d n i j) = i div n + (if j < i mod n then 1 else 0)"
proof (induction i)
  case 0
  then show ?case by (simp add: dealt_def)
next
  case (Suc i)
  show ?case
  proof (cases "Suc (i mod n) = n")
    case True
    then have "Suc i mod n = 0" "Suc i div n = Suc (i div n)" by (simp_all add: mod_Suc div_Suc)
    then show ?thesis using Suc True assms by (auto simp: dealt_Suc)
  next
    case False
    then have "Suc i mod n = Suc (i mod n)" "Suc i div n = i div n" by (simp_all add: mod_Suc div_Suc)
    then show ?thesis using Suc by (auto simp: dealt_Suc)
  qed
qed

lemma reas_numRecvPorts_pos: "0 < reas_numRecvPorts pr"
  by (simp add: reas_numRecvPorts_def)

lemma reas_numRecvPorts_power: "0 \<le> pr \<Longrightarrow> reas_numRecvPorts pr = 2 ^ nat pr"
proof (cases "pr = 0")
  case False
  assume "0 \<le> pr"
  then obtain k where "nat pr = Suc k" "nat (pr - 1) = k" using False by (cases "nat pr") auto
  then show ?thesis using False \<open>0 \<le> pr\<close> by (simp add: reas_numRecvPorts_def)
qed (simp add: reas_numRecvPorts_def)

text \<open>Without a port range of its own a reassembler has a port for every thread, and fewer than two.\<close>

lemma default_ports_enough:
  assumes "0 < threads" and "threads \<le> 16384"
  shows "threads \<le> reas_numRecvPorts (reas_portRange (-1) threads)"
    and "reas_numRecvPorts (reas_portRange (-1) threads) < 2 * threads"
proof -
  have pr: "reas_numRecvPorts (reas_portRange (-1) threads) = 2 ^ get_PortRange (int threads)"
    by (simp add: reas_portRange_def reas_numRecvPorts_power)
  have "int threads \<le> 2 ^ get_PortRange (int threads) \<and> 2 ^ get_PortRange (int threads) < 2 * int threads"
  proof (cases "threads = 1")
    case True
    then show ?thesis by (simp add: get_PortRange_def)
  next
    case False
    then show ?thesis using get_PortRange_bounds(1,2)[of "int threads"] assms by simp
  qed
  then have "int threads \<le> int (2 ^ get_PortRange (int threads))" "int (2 ^ get_PortRange (int threads)) < int (2 * threads)"
    by simp_all
  then show "threads \<le> reas_numRecvPorts (reas_portRange (-1) threads)"
    "reas_numRecvPorts (reas_portRange (-1) threads) < 2 * threads"
    unfolding pr by linarith+
qed

section \<open>What a constructed reassembler is\<close>

lemma reas_sanityChecks_ok:
  "reas_sanityChecks r = Inr () \<Longrightarrow>
     ra_numRecvThreads r \<le> 128 \<and> ra_numRecvPorts r \<le> 2 ^ 14 \<and> rf_eventTimeout_ms (ra_flags r) \<le> 10000 \<and>
     1024 \<le> unat (ra_dataPort r) \<and> ra_portRange r \<le> 14 \<and> has_dataAddr (ra_uri r)"
  by (simp add: reas_sanityChecks_def split: if_splits)

lemma reas_finish_ok:
  assumes "reas_finish affinity r0 = Some (Inr r)" and "0 < ra_numRecvPorts r0"
  shows "reas_sanityChecks r0 = Inr () \<and> 0 < ra_numRecvThreads r0 \<and>
    r = r0\<lparr>ra_threadsToPorts := map (dealt (unat (ra_dataPort r0)) (ra_numRecvThreads r0) (ra_numRecvPorts r0))
                                 [0..<ra_numRecvThreads r0]\<rparr>"
proof (cases "ra_numRecvThreads r0 = 0")
  case True
  then show ?thesis using assms
    by (auto simp: reas_finish_def assignPortsToThreads_no_thread split: sum.splits option.splits)
next
  case False
  then show ?thesis using assms
    by (auto simp: reas_finish_def assignPortsToThreads_dealt split: sum.splits option.splits)
qed

lemma reas_build_simps:
  "ra_numRecvThreads (reas_build h uri ip port cores threads f lb) = threads"
  "ra_dataPort (reas_build h uri ip port cores threads f lb) = port"
  "ra_flags (reas_build h uri ip port cores threads f lb) = f"
  "ra_numRecvPorts (reas_build h uri ip port cores threads f lb) = reas_numRecvPorts (reas_portRange (rf_portRange f) threads)"
  "ra_uri (reas_build h uri ip port cores threads f lb) = uri"
  "ra_portRange (reas_build h uri ip port cores threads f lb) = reas_portRange (rf_portRange f) threads"
  "ra_registeredWorker (reas_build h uri ip port cores threads f lb) = False"
  by (simp_all add: reas_build_def Let_def)

lemma Reassembler_new_cases:
  assumes "Reassembler_new h affinity uri ip port cores threads f = Some (Inr r)"
  obtains lb where "rf_period_ms f \<noteq> 0"
    and "reas_finish affinity (reas_build h uri ip port cores threads f lb) = Some (Inr r)"
  using assms by (auto simp: Reassembler_new_def split: sum.splits if_splits)

lemma Reassembler_new_ports:
  assumes "Reassembler_new h affinity uri ip port cores threads f = Some (Inr r)"
  shows "0 < threads \<and> ra_numRecvThreads r = threads \<and> ra_dataPort r = port \<and>
    ra_numRecvPorts r = reas_numRecvPorts (reas_portRange (rf_portRange f) threads) \<and>
    ra_threadsToPorts r = map (dealt (unat port) threads (ra_numRecvPorts r)) [0..<threads] \<and>
    reas_sanityChecks r = Inr ()"
proof -
  obtain lb where f: "reas_finish affinity (reas_build h uri ip port cores threads f lb) = Some (Inr r)"
    using Reassembler_new_cases[OF assms] by blast
  have "0 < ra_numRecvPorts (reas_build h uri ip port cores threads f lb)"
    by (simp add: reas_build_simps reas_numRecvPorts_pos)
  from reas_finish_ok[OF f this] show ?thesis
    by (auto simp: reas_build_simps reas_sanityChecks_def split: if_splits)
qed

lemma Reassembler_new_no_thread:
  "Reassembler_new h affinity uri ip port cores 0 f \<noteq> Some (Inr r)"
  using Reassembler_new_ports[of h affinity uri ip port cores 0 f r] by blast

section \<open>State reports\<close>

lemma fill_percent_range:
  "0 \<le> fill_percent g" "fill_percent g \<le> 1 \<longleftrightarrow> rs_eventQueueDepth g \<le> REAS_QSIZE"
proof -
  show "0 \<le> fill_percent g" by (simp add: fill_percent_def)
  have "(of_nat (rs_eventQueueDepth g) :: rat) \<le> of_nat REAS_QSIZE \<longleftrightarrow> rs_eventQueueDepth g \<le> REAS_QSIZE"
    by (rule of_nat_le_iff)
  then show "fill_percent g \<le> 1 \<longleftrightarrow> rs_eventQueueDepth g \<le> REAS_QSIZE"
    by (simp add: fill_percent_def REAS_QSIZE_def divide_le_eq_1)
qed

text \<open>A depth above the nominal size is refused by \<open>sendState\<close> itself, before any call.\<close>

lemma sendState_tick_overfull:
  assumes "buf \<noteq> []" and "REAS_QSIZE < rs_eventQueueDepth g"
    and "get_SessionToken (lm_cpuri (ra_lbman r)) = Inr tok" and "uri_lbId (lm_cpuri (ra_lbman r)) \<noteq> []"
  shows "\<exists>buf'. sendState_tick stub now nowSec buf r g w =
    Some (buf', r, g\<lparr>rs_grpcErrCnt := rs_grpcErrCnt g + 1, rs_lastE2SARError := ParameterError\<rparr>, w)"
proof -
  have "1 < fill_percent g" using fill_percent_range(2)[of g] assms(2) by simp
  then show ?thesis using assms
    by (auto simp: sendState_tick_def sendState_stats_def sendState_ts_def Let_def split: prod.splits)
qed

text \<open>The sample taken: error and integral of the PID over the window that starts at the oldest sample.\<close>

lemma sendState_tick_sample:
  assumes "sendState_tick stub now nowSec buf r g w = Some (buf', r', g', w')" and "0 < ra_pidCapacity r"
  shows "ps_sampleTime (last buf') = now" "ps_error (last buf') = rf_setPoint (ra_flags r) - fill_percent g"
    "ps_integral (last buf') = ps_error (last buf') * (of_int (uint (now - ps_sampleTime (hd buf))) / 1000000) + ps_integral (last buf)"
    "buf' = cb_push (ra_pidCapacity r) (last buf') buf"
  using assms
  by (auto simp: sendState_tick_def pid_def Let_def cb_push_last split: prod.splits if_splits sum.splits)

lemma sendState_tick_buffer:
  assumes "sendState_tick stub now nowSec buf r g w = Some (buf', r', g', w')"
  shows "buf \<noteq> []" "length buf \<le> ra_pidCapacity r \<Longrightarrow> length buf' \<le> ra_pidCapacity r"
    "rs_eventQueue g' = rs_eventQueue g" "ra_pidCapacity r' = ra_pidCapacity r"
  using assms
  by (auto simp: sendState_tick_def Let_def cb_push_length split: prod.splits if_splits sum.splits)

section \<open>Registration\<close>

text \<open>
  A worker is deregistered only when it was registered before, and the second of two calls in a row
  is refused.
\<close>

lemma deregister_twice:
  assumes "reas_deregisterWorker stub r w = (res, r', w')" and "rf_useCP (ra_flags r)"
  shows "reas_deregisterWorker stub r' w' =
    (Err LogicError ''Attempting to unregister a worker when it hasn't been registered.'', r', w')"
  using assms by (auto simp: reas_deregisterWorker_def split: if_splits prod.splits)

lemma register_sets_flag:
  assumes "reas_registerWorker h stub name r w = (res, r', w')"
  shows "ra_registeredWorker r' \<longleftrightarrow> ra_registeredWorker r \<or> rf_useCP (ra_flags r)"
    "ra_flags r' = ra_flags r" "ra_threadsStop r' = ra_threadsStop r"
  using assms by (auto simp: reas_registerWorker_def split: if_splits prod.splits)

text \<open>By default every thread gets one or two ports.\<close>

lemma default_ports_per_thread:
  assumes "Reassembler_new h affinity uri ip port cores threads f = Some (Inr r)" and "rf_portRange f = -1" and "j < threads"
  shows "ra_numRecvPorts r = 2 ^ get_PortRange (int threads) \<and> threads \<le> ra_numRecvPorts r \<and>
    ra_numRecvPorts r < 2 * threads \<and>
    1 \<le> length (ra_threadsToPorts r ! j) \<and> length (ra_threadsToPorts r ! j) \<le> 2"
proof -
  note P = Reassembler_new_ports[OF assms(1)]
  have "threads \<le> 128" using reas_sanityChecks_ok[of r] P by simp
  then have n: "threads \<le> ra_numRecvPorts r" "ra_numRecvPorts r < 2 * threads"
    using default_ports_enough[of threads] P assms(2) by simp_all
  have len: "length (ra_threadsToPorts r ! j) = ra_numRecvPorts r div threads + (if j < ra_numRecvPorts r mod threads then 1 else 0)"
    using P assms(3) length_dealt[of threads j "unat port" "ra_numRecvPorts r"] by simp
  have "ra_numRecvPorts r div threads = 1" using n by (intro div_nat_eqI) simp_all
  moreover have "ra_numRecvPorts r = 2 ^ get_PortRange (int threads)"
    using P assms(2) by (simp add: reas_portRange_def reas_numRecvPorts_power)
  ultimately show ?thesis using n len by simp
qed

text \<open>No thread or a report period of 0: nothing is constructed, and without a thread the dealing of ports does not end.\<close>

lemma degenerate_reassembler_not_constructed:
  "Reassembler_new h affinity uri ip port cores 0 f \<noteq> Some (Inr r) \<and>
   Reassembler_new h affinity uri ip port cores threads (f\<lparr>rf_period_ms := 0\<rparr>) \<noteq> Some (Inr r) \<and>
   assignPortsToThreads base (reas_numRecvPorts prange) 0 = None"
proof -
  have "Reassembler_new h affinity uri ip port cores threads (f\<lparr>rf_period_ms := 0\<rparr>) \<noteq> Some (Inr r)"
    by (auto simp: Reassembler_new_def split: sum.splits)
  then show ?thesis
    using Reassembler_new_no_thread assignPortsToThreads_no_thread[OF reas_numRecvPorts_pos] by blast
qed

text \<open>What an INI file cannot set: the warm up time is read as a truth value, and the weight and the factors end up in \<open>Kd\<close>.\<close>

lemma configuration_file_limits:
  "sf_warmUpMs (seg_flags_of_ini t sf) \<in> {0, 1} \<and>
   rf_weight (reas_flags_of_ini t rf) = rf_weight rf \<and> rf_min_factor (reas_flags_of_ini t rf) = rf_min_factor rf \<and>
   rf_max_factor (reas_flags_of_ini t rf) = rf_max_factor rf \<and>
   (ini_float t ''pid.max_factor'' = Some x \<longrightarrow> rf_Kd (reas_flags_of_ini t rf) = x)"
  using seg_ini_warmUp[of t sf] by (simp add: reas_flags_of_ini_def Let_def ini_get_def)

lemma sendState_tick_returns: "sendState_tick stub now nowSec buf r g w = None \<longleftrightarrow> buf = []"
  by (simp add: sendState_tick_def Let_def split: prod.split)

text \<open>
  Every report goes out with a fresh PID sample: the sample's error is the set point less the fill
  level of the event queue, the buffer keeps the samples of one epoch at most and is never empty, and
  the integral grows by the error times the age of the oldest sample kept, not by the time since the
  last report.  The report touches neither the queue nor the configuration.
\<close>

lemma report_takes_sample:
  assumes "sendState_tick stub now nowSec buf r g w = Some (buf', r', g', w')" and "0 < ra_pidCapacity r"
    and "length buf \<le> ra_pidCapacity r"
  shows "ps_sampleTime (last buf') = now \<and> ps_error (last buf') = rf_setPoint (ra_flags r) - fill_percent g \<and>
    ps_integral (last buf') = ps_error (last buf') * (of_int (uint (now - ps_sampleTime (hd buf))) / 1000000) +
      ps_integral (last buf) \<and>
    buf' \<noteq> [] \<and> length buf' \<le> ra_pidCapacity r \<and> rs_eventQueue g' = rs_eventQueue g \<and> ra_pidCapacity r' = ra_pidCapacity r"
  using sendState_tick_sample[OF assms(1,2)] sendState_tick_buffer[OF assms(1)] assms(3)
    cb_push_nonempty[OF assms(2), of "last buf'" buf] by metis

end
