(* ===== verification/E2SAR_Relay.thy ===== *)
theory E2SAR_Relay
  imports E2SAR_SegmenterSetup
begin

text \<open>
  The UDP relay of sync messages (\<^verbatim>\<open>bin/e2sar_udp_relay.cpp\<close>): the check of a packet, the relay
  loop with its counters, the sockets, and the checks of the two addresses on the command line.
  What \<^verbatim>\<open>recvfrom\<close> gives is a list of inputs, \<^verbatim>\<open>send\<close> a parameter; printing is left out.
\<close>

section \<open>Checking a packet\<close>

definition validateSyncPacket :: "byte_order \<Rightarrow> u8 list \<Rightarrow> bool" where
  "validateSyncPacket h buffer \<longleftrightarrow>
     length buffer = sizeof_SyncHdr \<and>
     (let hdr = sync_cast h buffer
      in sync_preamble0 hdr = char_L \<and> sync_preamble1 hdr = char_C \<and>
         sync_check_version hdr \<and> sync_rsvd hdr = 0)"

section \<open>The relay loop\<close>

record relay_stats =
  rl_packetsReceived :: u64
  rl_bytesReceived :: u64
  rl_packetsSent :: u64
  rl_sendErrors :: u64
  rl_packetsDiscarded :: u64

definition relay_stats_new :: relay_stats where
  "relay_stats_new = \<lparr>rl_packetsReceived = 0, rl_bytesReceived = 0, rl_packetsSent = 0,
     rl_sendErrors = 0, rl_packetsDiscarded = 0\<rparr>"

text \<open>What one call of \<^verbatim>\<open>recvfrom\<close> gives: an error number or a datagram, cut to the buffer.\<close>

datatype relay_input = RecvError int | RecvPacket "u8 list"

definition EINTR :: int where "EINTR = 4"
definition RELAY_BUFFER_SIZE :: nat where "RELAY_BUFFER_SIZE = 65536"

definition send_failed :: "relay_stats \<Rightarrow> relay_stats" where
  "send_failed s = s\<lparr>rl_sendErrors := rl_sendErrors s + 1\<rparr>"

definition relay_step ::
  "byte_order \<Rightarrow> (u8 list \<Rightarrow> 'w \<Rightarrow> (int + nat) \<times> 'w) \<Rightarrow> relay_input \<Rightarrow> relay_stats \<times> 'w \<Rightarrow> relay_stats \<times> 'w" where
  "relay_step h send inp sw =
     (case (inp, sw) of
        (RecvError errno, (s, w)) \<Rightarrow> (if errno = EINTR then s else send_failed s, w)
      | (RecvPacket pkt, (s, w)) \<Rightarrow>
          let buffer = take RELAY_BUFFER_SIZE pkt in
          if buffer = [] then (s, w) else
          let s1 = s\<lparr>rl_packetsReceived := rl_packetsReceived s + 1,
                     rl_bytesReceived := rl_bytesReceived s + word_of_nat (length buffer)\<rparr> in
          if \<not> validateSyncPacket h buffer then
            (s1\<lparr>rl_packetsDiscarded := rl_packetsDiscarded s1 + 1\<rparr>, w)
          else case send buffer w of
            (Inl _, w') \<Rightarrow> (send_failed s1, w')
          | (Inr sentLen, w') \<Rightarrow>
              if sentLen = length buffer then (s1\<lparr>rl_packetsSent := rl_packetsSent s1 + 1\<rparr>, w')
              else (send_failed s1, w'))"

text \<open>\<open>relayLoop\<close> over the receptions until \<open>keepRunning\<close> is cleared.\<close>

definition relayLoop ::
  "byte_order \<Rightarrow> (u8 list \<Rightarrow> 'w \<Rightarrow> (int + nat) \<times> 'w) \<Rightarrow> relay_input list \<Rightarrow> relay_stats \<times> 'w \<Rightarrow> relay_stats \<times> 'w" where
  "relayLoop h send inputs sw = fold (relay_step h send) inputs sw"

section \<open>Sockets and the command line\<close>

definition named_failure :: "'w sock_ops \<Rightarrow> string \<Rightarrow> int \<Rightarrow> 'x result" where
  "named_failure ops what errno = Err SocketError (what @ so_strerror ops errno)"

definition family_name :: "ip_address \<Rightarrow> string" where
  "family_name a = (if is_v6 a then ''IPv6'' else ''IPv4'')"

definition createReceiveSocket ::
  "host_ops \<Rightarrow> 'w sock_ops \<Rightarrow> ip_address \<Rightarrow> u16 \<Rightarrow> int \<Rightarrow> 'w \<Rightarrow> nat result \<times> 'w" where
  "createReceiveSocket h ops addr port bufSize w =
     (case so_socket ops (is_v6 addr) w of
        (Inl e, w1) \<Rightarrow> (named_failure ops (''Unable to create '' @ family_name addr @ '' receive socket: '') e, w1)
      | (Inr fd, w1) \<Rightarrow>
          (case so_setbuf ops fd bufSize w1 of
             (Some e, w2) \<Rightarrow> (named_failure ops ''Unable to set receive buffer size: '' e, so_close ops fd w2)
           | (None, w2) \<Rightarrow>
               (case so_bind ops fd port w2 of
                  (Some e, w3) \<Rightarrow>
                    (named_failure ops (''Failed to bind '' @ family_name addr @ '' socket to '' @ addr_str h addr @
                       '':'' @ nat_str (unat port) @ '': '') e, so_close ops fd w3)
                | (None, w3) \<Rightarrow> (Ok fd, w3))))"

definition createSendSocket ::
  "host_ops \<Rightarrow> 'w sock_ops \<Rightarrow> ip_address \<Rightarrow> u16 \<Rightarrow> int \<Rightarrow> 'w \<Rightarrow> nat result \<times> 'w" where
  "createSendSocket h ops dest port bufSize w =
     (case so_socket ops (is_v6 dest) w of
        (Inl e, w1) \<Rightarrow> (named_failure ops (''Unable to create '' @ family_name dest @ '' send socket: '') e, w1)
      | (Inr fd, w1) \<Rightarrow>
          (case so_setbuf ops fd bufSize w1 of
             (Some e, w2) \<Rightarrow> (named_failure ops ''Unable to set send buffer size: '' e, so_close ops fd w2)
           | (None, w2) \<Rightarrow>
               (case so_connect ops fd (dest, port) w2 of
                  (Some e, w3) \<Rightarrow>
                    (named_failure ops (''Failed to connect '' @ family_name dest @ '' socket to '' @ addr_str h dest @
                       '':'' @ nat_str (unat port) @ '': '') e, so_close ops fd w3)
                | (None, w3) \<Rightarrow> (Ok fd, w3))))"

text \<open>
  \<open>main\<close> between the parsing of the options and the loop: the addresses with the messages of its
  refusals, then the sockets.  \<open>Inl\<close> carries what is printed before the exit with -1.
\<close>

definition relay_addresses ::
  "host_ops \<Rightarrow> string \<Rightarrow> string option \<Rightarrow> string + (ip_address \<times> u16) \<times> (ip_address \<times> u16)" where
  "relay_addresses h rxAddrStr txAddrStr =
     (case txAddrStr of
        None \<Rightarrow> Inl ''Error: --tx-addr is required''
      | Some tx \<Rightarrow>
          (case string_tuple_to_ip_and_port h rxAddrStr of
             Inl e \<Rightarrow> Inl (''Invalid receive address: '' @ msg e)
           | Inr (rxAddr, rxPort) \<Rightarrow>
               if rxPort = 0 then Inl ''Error: Receive port must be specified in format IP:PORT''
               else (case string_tuple_to_ip_and_port h tx of
                  Inl e \<Rightarrow> Inl (''Invalid destination address: '' @ msg e)
                | Inr (destAddr, destPort) \<Rightarrow>
                    if destPort = 0 then Inl ''Error: Destination port must be specified in format IP:PORT''
                    else Inr ((rxAddr, rxPort), (destAddr, destPort)))))"

definition relay_default_rx :: string where
  "relay_default_rx = ''127.0.0.1:0''"

definition relay_sockets ::
  "host_ops \<Rightarrow> 'w sock_ops \<Rightarrow> (ip_address \<times> u16) \<times> (ip_address \<times> u16) \<Rightarrow> int \<Rightarrow> int \<Rightarrow> 'w \<Rightarrow>
     (string + nat \<times> nat) \<times> 'w" where
  "relay_sockets h ops addrs rxBufSize txBufSize w =
     (case createReceiveSocket h ops (fst (fst addrs)) (snd (fst addrs)) rxBufSize w of
        (Inl e, w1) \<Rightarrow> (Inl (''Failed to create receive socket: '' @ msg e), w1)
      | (Inr rxSocket, w1) \<Rightarrow>
          (case createSendSocket h ops (fst (snd addrs)) (snd (snd addrs)) txBufSize w1 of
             (Inl e, w2) \<Rightarrow> (Inl (''Failed to create send socket: '' @ msg e), so_close ops rxSocket w2)
           | (Inr txSocket, w2) \<Rightarrow> (Inr (rxSocket, txSocket), w2)))"

section \<open>What is accepted\<close>

text \<open>A packet passes when it is the image of a sync header with the fixed fields in place.\<close>

lemma validateSyncPacket_iff:
  "validateSyncPacket h pkt \<longleftrightarrow>
     (\<exists>hdr. pkt = sync_bytes h hdr \<and> sync_preamble0 hdr = char_L \<and> sync_preamble1 hdr = char_C \<and>
            sync_version hdr = synchdrVersion2 \<and> sync_rsvd hdr = 0)" (is "_ \<longleftrightarrow> ?R")
proof
  assume v: "validateSyncPacket h pkt"
  then have "sync_bytes h (sync_cast h pkt) = pkt"
    using sync_wire.to_bytes_cast[of pkt h] by (simp add: validateSyncPacket_def)
  then show ?R using v
    by (intro exI[of _ "sync_cast h pkt"]) (simp add: validateSyncPacket_def sync_check_version_def Let_def)
next
  assume ?R
  then show "validateSyncPacket h pkt"
    by (auto simp: validateSyncPacket_def sync_check_version_def Let_def sync_wire.cast_to_bytes sync_wire.to_bytes_length)
qed

text \<open>The check looks at single bytes and so does not depend on the byte order of the host.\<close>

lemma validateSyncPacket_order: "validateSyncPacket h pkt = validateSyncPacket LittleEndian pkt"
  by (simp add: validateSyncPacket_def sync_check_version_def sync_cast_def Let_def)

lemma validate_fillSyncHdr: "validateSyncPacket h2 (sync_bytes h1 (fillSyncHdr h1 c now t))"
  unfolding validateSyncPacket_order[of h2]
  by (subst validateSyncPacket_order[of h1, symmetric])
    (auto simp: validateSyncPacket_iff fillSyncHdr_def sync_set_def SyncHdr_new_def)

section \<open>What is forwarded\<close>

text \<open>A \<open>send\<close> that records what it is given.\<close>

definition recording :: "u8 list \<Rightarrow> u8 list list \<Rightarrow> (int + nat) \<times> u8 list list" where
  "recording buffer sent = (Inr (length buffer), sent @ [buffer])"

fun packets_of :: "relay_input list \<Rightarrow> u8 list list" where
  "packets_of [] = []"
| "packets_of (RecvError e # xs) = packets_of xs"
| "packets_of (RecvPacket p # xs) = p # packets_of xs"

lemma validate_short: "validateSyncPacket h p \<Longrightarrow> length p = sizeof_SyncHdr"
  by (simp add: validateSyncPacket_def)

lemma relay_step_recording:
  "snd (relay_step h recording (RecvPacket p) (s, w)) =
     (if validateSyncPacket h (take RELAY_BUFFER_SIZE p) then w @ [take RELAY_BUFFER_SIZE p] else w)"
  by (auto simp: relay_step_def recording_def Let_def validateSyncPacket_def sizeof_SyncHdr_def)

lemma take_valid:
  "validateSyncPacket h (take RELAY_BUFFER_SIZE p) \<longleftrightarrow> validateSyncPacket h p"
  "validateSyncPacket h p \<Longrightarrow> take RELAY_BUFFER_SIZE p = p"
proof -
  have "take RELAY_BUFFER_SIZE p = p" if "length p = sizeof_SyncHdr \<or> length (take RELAY_BUFFER_SIZE p) = sizeof_SyncHdr"
    using that by (auto simp: sizeof_SyncHdr_def RELAY_BUFFER_SIZE_def min_def split: if_splits)
  then show "validateSyncPacket h (take RELAY_BUFFER_SIZE p) \<longleftrightarrow> validateSyncPacket h p"
    "validateSyncPacket h p \<Longrightarrow> take RELAY_BUFFER_SIZE p = p"
    using validate_short by metis+
qed

lemma relayLoop_forwards:
  "snd (relayLoop h recording xs (s, w)) = w @ filter (validateSyncPacket h) (packets_of xs)"
proof (induction xs arbitrary: s w)
  case Nil
  then show ?case by (simp add: relayLoop_def)
next
  case (Cons x xs)
  obtain s1 w1 where st: "relay_step h recording x (s, w) = (s1, w1)" by fastforce
  have "snd (relayLoop h recording (x # xs) (s, w)) = w1 @ filter (validateSyncPacket h) (packets_of xs)"
    using Cons.IH[of s1 w1] st by (simp add: relayLoop_def)
  moreover have "w1 = w @ filter (validateSyncPacket h) (packets_of [x])"
  proof (cases x)
    case (RecvError e)
    then show ?thesis using st by (auto simp: relay_step_def)
  next
    case (RecvPacket p)
    then show ?thesis using st relay_step_recording[of h p s w] take_valid[of h p] by auto
  qed
  ultimately show ?case by (cases x) auto
qed

section \<open>The counters\<close>

text \<open>Errors counted by the loop that are not failures of \<open>send\<close>: receptions other than EINTR.\<close>

fun recv_errors :: "relay_input list \<Rightarrow> nat" where
  "recv_errors [] = 0"
| "recv_errors (RecvError e # xs) = (if e = EINTR then 0 else 1) + recv_errors xs"
| "recv_errors (RecvPacket p # xs) = recv_errors xs"

definition relay_balance :: "relay_stats \<Rightarrow> u64" where
  "relay_balance s = rl_packetsReceived s - rl_packetsSent s - rl_packetsDiscarded s - rl_sendErrors s"

lemma relay_step_balance:
  assumes "relay_step h send x (s, w) = (s', w')"
  shows "relay_balance s' = relay_balance s - word_of_nat (recv_errors [x])"
  using assms
  by (cases x) (auto simp: relay_step_def relay_balance_def send_failed_def Let_def split: if_splits prod.splits sum.splits)

text \<open>Every packet received is sent, discarded or counted as an error, whatever \<open>send\<close> does.\<close>

lemma relayLoop_balance:
  assumes "relayLoop h send xs (s, w) = (s', w')"
  shows "relay_balance s' = relay_balance s - word_of_nat (recv_errors xs)"
  using assms
proof (induction xs arbitrary: s w)
  case Nil
  then show ?case by (simp add: relayLoop_def)
next
  case (Cons x xs)
  obtain s1 w1 where st: "relay_step h send x (s, w) = (s1, w1)" by fastforce
  have "relayLoop h send xs (s1, w1) = (s', w')" using Cons.prems st by (simp add: relayLoop_def)
  note IH = Cons.IH[OF this]
  have "recv_errors (x # xs) = recv_errors [x] + recv_errors xs" by (cases x) auto
  then show ?case using IH relay_step_balance[OF st] by (simp add: algebra_simps)
qed

section \<open>The command line\<close>

text \<open>The default receive address names port 0, which the parser refuses.\<close>

lemma string_to_port_0: "string_to_port ''0'' = Err OutOfRange ''Port value 0 is out of range''"
  by code_simp

lemma relay_default_tuple:
  "string_tuple_to_ip_and_port h relay_default_rx =
     Err ParameterError ''Unable to convert 127.0.0.1:0 to ip address and port''"
proof -
  have "find_last_of '']:'' ''127.0.0.1:0'' = Some 9" by code_simp
  then show ?thesis
    by (simp add: string_tuple_to_ip_and_port_def relay_default_rx_def string_to_port_0 Let_def split: sum.splits)
qed

lemma string_tuple_port:
  "string_tuple_to_ip_and_port h s = Ok (a, p) \<Longrightarrow> p = 0 \<or> 1024 \<le> unat p"
  by (auto simp: string_tuple_to_ip_and_port_def Let_def string_to_port_def split: option.splits sum.splits if_splits)

text \<open>
  The relay starts exactly with a receive and a destination address that parse and carry a port of
  at least 1024, and uses these; the default of the receive address is refused by this check, so the
  program never runs without an explicit \<open>--rx-addr\<close>.
\<close>

lemma relay_addresses_checked:
  "(relay_addresses h rx tx = Inr (a, d) \<longleftrightarrow> string_tuple_to_ip_and_port h rx = Ok a \<and> 1024 \<le> unat (snd a) \<and>
     tx \<noteq> None \<and> string_tuple_to_ip_and_port h (the tx) = Ok d \<and> 1024 \<le> unat (snd d)) \<and>
   relay_addresses h relay_default_rx (Some tx') =
     Inl ''Invalid receive address: Unable to convert 127.0.0.1:0 to ip address and port''"
  using string_tuple_port[of h rx "fst a" "snd a"] string_tuple_port[of h "the tx" "fst d" "snd d"]
  by (auto simp: relay_addresses_def relay_default_tuple split: option.splits sum.splits if_splits prod.splits)

end
