(* ===== verification/E2SAR_Options.thy ===== *)
theory E2SAR_Options
  imports E2SAR_Prelude
begin

text \<open>
  The checks of command line options that the programs under \<^verbatim>\<open>bin\<close> share: each has its own copy of
  \<open>conflicting_options\<close> and \<open>option_dependency\<close>.  The option parser is a parameter: a \<open>variables_map\<close>
  says of each option whether it is absent, defaulted or given.
\<close>

datatype opt_state = OptAbsent | OptDefaulted | OptGiven

type_synonym variables_map = "string \<Rightarrow> opt_state"

definition vm_count :: "variables_map \<Rightarrow> string \<Rightarrow> bool" where
  "vm_count vm name \<longleftrightarrow> vm name \<noteq> OptAbsent"

definition vm_defaulted :: "variables_map \<Rightarrow> string \<Rightarrow> bool" where
  "vm_defaulted vm name \<longleftrightarrow> vm name = OptDefaulted"

definition quoted :: "string \<Rightarrow> string" where
  "quoted s = [CHR 0x27] @ s @ [CHR 0x27]"

text \<open>The two checks throw a \<^verbatim>\<open>std::logic_error\<close> with a text, here \<open>Inl\<close>.\<close>

definition conflicting_options :: "variables_map \<Rightarrow> string \<Rightarrow> string \<Rightarrow> string + unit" where
  "conflicting_options vm opt1 opt2 =
     (if vm_count vm opt1 \<and> \<not> vm_defaulted vm opt1 \<and> vm_count vm opt2 \<and> \<not> vm_defaulted vm opt2
      then Inl (''Conflicting options '' @ quoted opt1 @ '' and '' @ quoted opt2 @ ''.'')
      else Inr ())"

definition option_dependency :: "variables_map \<Rightarrow> string \<Rightarrow> string \<Rightarrow> string + unit" where
  "option_dependency vm for_what required_option =
     (if vm_count vm for_what \<and> \<not> vm_defaulted vm for_what \<and> \<not> vm_count vm required_option
      then Inl (''Option '' @ quoted for_what @ '' requires option '' @ quoted required_option @ ''.'')
      else Inr ())"

text \<open>A sequence of checks stops at the first that throws.\<close>

datatype option_check = Conflicting string string | Requires string string

fun run_check :: "variables_map \<Rightarrow> option_check \<Rightarrow> string + unit" where
  "run_check vm (Conflicting a b) = conflicting_options vm a b"
| "run_check vm (Requires a b) = option_dependency vm a b"

fun run_checks :: "variables_map \<Rightarrow> option_check list \<Rightarrow> string + unit" where
  "run_checks vm [] = Inr ()"
| "run_checks vm (c # cs) = (case run_check vm c of Inl e \<Rightarrow> Inl e | Inr _ \<Rightarrow> run_checks vm cs)"

text \<open>What the parser stores: options given on the command line, and the defaults of the others.\<close>

definition stored_options :: "string set \<Rightarrow> string set \<Rightarrow> variables_map" where
  "stored_options defaults given name =
     (if name \<in> given then OptGiven else if name \<in> defaults then OptDefaulted else OptAbsent)"

lemma vm_stored [simp]:
  "vm_count (stored_options d g) n \<longleftrightarrow> n \<in> g \<or> n \<in> d"
  "vm_count (stored_options d g) n \<and> \<not> vm_defaulted (stored_options d g) n \<longleftrightarrow> n \<in> g"
  by (auto simp: vm_count_def vm_defaulted_def stored_options_def)

lemma run_checks_ok: "run_checks vm cs = Inr () \<longleftrightarrow> list_all (\<lambda>c. run_check vm c = Inr ()) cs"
  by (induction cs) (auto split: sum.splits)

lemma run_check_stored:
  "run_check (stored_options d g) (Conflicting a b) = Inr () \<longleftrightarrow> \<not> (a \<in> g \<and> b \<in> g)"
  "run_check (stored_options d g) (Requires a b) = Inr () \<longleftrightarrow> (a \<in> g \<longrightarrow> b \<in> g \<or> b \<in> d)"
  using vm_stored[of d g a] vm_stored[of d g b]
  by (auto simp: conflicting_options_def option_dependency_def split: if_splits)

end
