(* ===== verification/E2SAR_FileTransfer.thy ===== *)
theory E2SAR_FileTransfer
  imports E2SAR_Sending E2SAR_ReassemblerSetup E2SAR_Options
begin

text \<open>
  The file transfer program \<^verbatim>\<open>bin/e2sar_ft.cpp\<close>: option checks and flags, the sender that maps files and
  offers them to the send queue from a pool of threads, the receiver that writes every event to a file
  of its own, and the shutdown.

  The file systems are parameters over an abstract world: \<open>in_files\<close> for the files sent, \<open>out_files\<close> for
  those written, \<open>path_ops\<close> for what \<^verbatim>\<open>boost::filesystem\<close> says of paths.  \<open>memory_files\<close> is the instance
  that keeps files in a map.  Progress messages are left out.
\<close>

section \<open>Options\<close>

definition ft_checks :: "option_check list" where
  "ft_checks =
     [Conflicting ''send'' ''recv'', Conflicting ''recv'' ''num'', Conflicting ''recv'' ''mtu'',
      Conflicting ''recv'' ''rate'', Conflicting ''recv'' ''src'', Conflicting ''recv'' ''dataid'',
      Conflicting ''send'' ''threads'', Conflicting ''ipv4'' ''ipv6'', Conflicting ''recv'' ''smooth'',
      Conflicting ''send'' ''timeout'', Requires ''recv'' ''ip'', Requires ''recv'' ''port'',
      Requires ''send'' ''ip'', Requires ''send'' ''path'', Requires ''recv'' ''path'',
      Conflicting ''send'' ''port'', Conflicting ''deq'' ''send'', Conflicting ''enq'' ''recv'',
      Conflicting ''cores'' ''threads'', Conflicting ''cores'' ''sockets'', Conflicting ''recv'' ''sockets'']"

definition ft_defaults :: "string set" where
  "ft_defaults = {''mtu'', ''threads'', ''sockets'', ''rate'', ''src'', ''dataid'', ''withcp'', ''bufsize'', ''ip'', ''port'',
     ''autoip'', ''numa'', ''deq'', ''enq'', ''recurse'', ''prefix'', ''smooth'', ''timeout''}"

definition ft_options :: "string set" where
  "ft_options = ft_defaults \<union> {''help'', ''send'', ''recv'', ''uri'', ''ipv6'', ''ipv4'', ''novalidate'', ''cores'',
     ''optimize'', ''path'', ''extension''}"

record ft_args =
  fa_vm :: variables_map
  fa_uri :: string
  fa_mtu :: u16
  fa_threads :: nat
  fa_sockets :: nat
  fa_rate :: rat
  fa_src :: u32
  fa_dataid :: u16
  fa_withcp :: bool
  fa_bufsize :: int
  fa_ip :: string
  fa_port :: u16
  fa_autoip :: bool
  fa_cores :: "int list"
  fa_optimize :: "string list"
  fa_numa :: int
  fa_path :: "string list"
  fa_extension :: string
  fa_deq :: nat
  fa_enq :: nat
  fa_recurse :: bool
  fa_prefix :: string
  fa_smooth :: bool
  fa_timeout :: int

text \<open>A dot goes in front of the extension; alone it stands for any.\<close>

definition ft_extension :: "ft_args \<Rightarrow> string" where
  "ft_extension a = CHR ''.'' # fa_extension a"

text \<open>
  \<open>main\<close> up to the choice between sending and receiving: \<open>Inl\<close> is the exit code.  The selection of code
  paths and its outcome come back with the URI.
\<close>

record ft_env =
  fe_host :: host_ops
  fe_parse_uri :: "string \<Rightarrow> url_view option"
  fe_junk :: u16
  fe_build :: build_flags
  fe_numa :: "int \<times> bool"

definition ft_prefer_host :: "ft_args \<Rightarrow> bool" where
  "ft_prefer_host a \<longleftrightarrow> vm_count (fa_vm a) ''ipv6'' \<or> vm_count (fa_vm a) ''ipv4''"

definition ft_validate :: "ft_args \<Rightarrow> bool" where
  "ft_validate a \<longleftrightarrow> \<not> vm_count (fa_vm a) ''novalidate''"

definition ft_prepare :: "ft_env \<Rightarrow> ft_args \<Rightarrow> int + (OptimizationsWord \<times> EjfatURI)" where
  "ft_prepare env a =
     (case run_checks (fa_vm a) ft_checks of
        Inl _ \<Rightarrow> Inl (-1)
      | Inr _ \<Rightarrow>
          if vm_count (fa_vm a) ''help'' then Inl 0
          else (case select_names (fe_build env) (fa_optimize a) opt_initial of
                  (Inl _, _) \<Rightarrow> Inl (-1)
                | (Inr _, sel) \<Rightarrow>
                    if fa_numa a \<ge> 0 \<and>
                       has_error (fst (setNUMABind (fst (fe_numa env)) (snd (fe_numa env)) (fa_numa a))) then Inl (-1)
                    else if \<not> fa_autoip a \<and> fa_ip a = [] then Inl (-1)
                    else if fa_rate a < 0 \<and> fa_smooth a then Inl (-1)
                    else if \<not> (vm_count (fa_vm a) ''send'' \<or> vm_count (fa_vm a) ''recv'') then Inl 0
                    else (case (if vm_count (fa_vm a) ''uri''
                                then getFromString (fe_host env) (fe_parse_uri env) (fe_junk env) (fa_uri a) TT_instance
                                       (vm_count (fa_vm a) ''ipv6'')
                                else getFromEnv (fe_host env) (fe_parse_uri env) (fe_junk env) ''EJFAT_URI'' TT_instance
                                       (vm_count (fa_vm a) ''ipv6'')) of
                            Inl _ \<Rightarrow> Inl (-1)
                          | Inr uri \<Rightarrow> Inr (sel, uri))))"

definition ft_segmenter_flags :: "ft_args \<Rightarrow> SegmenterFlags" where
  "ft_segmenter_flags a = SegmenterFlags_new\<lparr>sf_useCP := fa_withcp a, sf_mtu := fa_mtu a,
     sf_sndSocketBufSize := fa_bufsize a, sf_numSendSockets := fa_sockets a, sf_rateGbps := fa_rate a,
     sf_smooth := fa_smooth a\<rparr>"

definition ft_reassembler_flags :: "ft_args \<Rightarrow> ReassemblerFlags" where
  "ft_reassembler_flags a = ReassemblerFlags_new\<lparr>rf_useCP := fa_withcp a, rf_withLBHeader := \<not> fa_withcp a,
     rf_rcvSocketBufSize := fa_bufsize a, rf_useHostAddress := ft_prefer_host a,
     rf_validateCert := ft_validate a, rf_eventTimeout_ms := fa_timeout a\<rparr>"

section \<open>Setting up\<close>

text \<open>
  With the control plane the sender's addresses are registered first; the constructor of the manager is
  outside the \<^verbatim>\<open>try\<close> block, so its exception ends the program (\<open>None\<close>).
\<close>

definition register_senders ::
  "host_ops \<Rightarrow> route_ops \<Rightarrow> ('w, 'ws) lb_stub \<Rightarrow> bool \<Rightarrow> bool \<Rightarrow> bool \<Rightarrow> string option \<Rightarrow> EjfatURI \<Rightarrow> 'w \<Rightarrow>
     (int + (LBManager option \<times> string list)) option \<times> 'w" where
  "register_senders h r stub useCP validate preferHost ip uri w =
     (if \<not> useCP then (Some (Inr (None, [])), w)
      else case LBManager_new h uri validate preferHost SslCredentialsOptions_new of
        Inl _ \<Rightarrow> (None, w)
      | Inr m \<Rightarrow>
          let senders = (case ip of None \<Rightarrow> [] | Some a \<Rightarrow> [a])
          in (case (if ip = None then addSenderSelf h r stub False m w else addSenders h stub senders m w) of
                (Inl _, m', w') \<Rightarrow> (Some (Inl (-1)), w')
              | (Inr _, m', w') \<Rightarrow> (Some (Inr (Some m', senders)), w')))"

definition ft_ip :: "ft_args \<Rightarrow> string option" where
  "ft_ip a = (if fa_autoip a then None else Some (fa_ip a))"

definition ft_add_senders ::
  "host_ops \<Rightarrow> route_ops \<Rightarrow> ('w, 'ws) lb_stub \<Rightarrow> ft_args \<Rightarrow> EjfatURI \<Rightarrow> 'w \<Rightarrow>
     (int + (LBManager option \<times> string list)) option \<times> 'w" where
  "ft_add_senders h r stub a uri w =
     register_senders h r stub (fa_withcp a) (ft_validate a) (ft_prefer_host a) (ft_ip a) uri w"

definition ft_new_segmenter ::
  "host_ops \<Rightarrow> seg_host \<Rightarrow> (Code \<Rightarrow> bool) \<Rightarrow> ft_args \<Rightarrow> EjfatURI \<Rightarrow> thrown + segmenter" where
  "ft_new_segmenter h sh isSel a uri =
     (if vm_count (fa_vm a) ''cores''
      then Segmenter_new h sh isSel uri (fa_dataid a) (fa_src a) (fa_cores a) (ft_segmenter_flags a)
      else Segmenter_new_nocores h sh isSel uri (fa_dataid a) (fa_src a) (ft_segmenter_flags a))"

definition prepareToSend ::
  "'w sock_ops \<Rightarrow> (Code \<Rightarrow> bool) \<Rightarrow> segmenter \<Rightarrow> seg_state \<Rightarrow> 'w \<Rightarrow> int result \<times> seg_running \<times> seg_state \<times> 'w" where
  "prepareToSend ops isSel sg s w =
     (case seg_openAndStart ops isSel sg s w of
        (Inl e, run, s', w') \<Rightarrow> (Inl e, run, s', w')
      | (Inr _, run, s', w') \<Rightarrow> (Ok 0, run, s', w'))"

text \<open>\<^verbatim>\<open>ip::make_address\<close> throws an exception that is not an \<open>E2SARException\<close>: \<open>None\<close>, as is a crash.\<close>

definition ft_new_reassembler ::
  "host_ops \<Rightarrow> seg_host \<Rightarrow> ft_args \<Rightarrow> EjfatURI \<Rightarrow> reassembler constructed option" where
  "ft_new_reassembler h sh a uri =
     (let f = ft_reassembler_flags a
      in if \<not> fa_autoip a then
           (case make_address h (fa_ip a) of
              None \<Rightarrow> None
            | Some ip \<Rightarrow>
                if vm_count (fa_vm a) ''cores'' then Reassembler_cores h sh uri ip (fa_port a) (fa_cores a) f
                else Reassembler_threads h uri ip (fa_port a) (fa_threads a) f)
         else if vm_count (fa_vm a) ''cores'' then Reassembler_auto_cores h sh uri (fa_port a) (fa_cores a) f False
         else Reassembler_auto_threads h sh uri (fa_port a) (fa_threads a) f False)"

text \<open>
  Register first, then open the sockets and start the threads.  The first world is the control plane's,
  the second that of the sockets.
\<close>

definition prepareToReceive ::
  "host_ops \<Rightarrow> ('w, 'ws) lb_stub \<Rightarrow> 'v sock_ops \<Rightarrow> string option \<Rightarrow> reassembler \<Rightarrow> reas_shared \<Rightarrow> 'w \<Rightarrow> 'v \<Rightarrow>
     int result \<times> reassembler \<times> recv_thread list \<times> reas_shared \<times> 'w \<times> 'v" where
  "prepareToReceive h stub ops hostname r g w v =
     (case getHostName hostname of
        Inl e \<Rightarrow> (Err (ec e) (msg e), r, [], g, w, v)
      | Inr name \<Rightarrow>
          (case reas_registerWorker h stub name r w of
             (Inl e, r1, w1) \<Rightarrow>
               (Err RPCError (''Unable to register worker node due to '' @ msg e), r1, [], g, w1, v)
           | (Inr _, r1, w1) \<Rightarrow>
               (case reas_openAndStart ops r1 g v of
                  (Inl e, _, ts, g1, v1) \<Rightarrow> (Inl e, r1, ts, g1, w1, v1)
                | (Inr _, _, ts, g1, v1) \<Rightarrow> (Ok 0, r1, ts, g1, w1, v1))))"

section \<open>Sending files\<close>

text \<open>
  Files to send: \<open>open\<close> (a descriptor), \<open>fstat\<close> (the size), \<open>mmap\<close> (what the mapping shows),
  \<open>munmap\<close> and \<open>close\<close>.  A mapping is known by its descriptor.
\<close>

record 'v in_files =
  if_open :: "string \<Rightarrow> 'v \<Rightarrow> nat option \<times> 'v"
  if_fstat :: "nat \<Rightarrow> 'v \<Rightarrow> nat option"
  if_mmap :: "nat \<Rightarrow> nat \<Rightarrow> 'v \<Rightarrow> u8 list option \<times> 'v"
  if_munmap :: "nat \<Rightarrow> 'v \<Rightarrow> 'v"
  if_close :: "nat \<Rightarrow> 'v \<Rightarrow> 'v"

definition unmapFileCallback :: "'v in_files \<Rightarrow> nat \<Rightarrow> 'v \<Rightarrow> 'v" where
  "unmapFileCallback files fd v = if_close files fd (if_munmap files fd v)"

text \<open>The first half of \<open>sendFile\<close>: the descriptor, the size and the contents of the mapping.\<close>

definition map_file :: "'v in_files \<Rightarrow> string \<Rightarrow> 'v \<Rightarrow> (nat \<times> nat \<times> u8 list) result \<times> 'v" where
  "map_file files path v =
     (case if_open files path v of
        (None, v1) \<Rightarrow> (Err SystemError ''Unable to open file'', v1)
      | (Some fd, v1) \<Rightarrow>
          (case if_fstat files fd v1 of
             None \<Rightarrow> (Err SystemError ''Unable to stat file'', if_close files fd v1)
           | Some inFileSize \<Rightarrow>
               (case if_mmap files fd inFileSize v1 of
                  (None, v2) \<Rightarrow> (Err SystemError ''Unable to mmap file'', if_close files fd v2)
                | (Some d, v2) \<Rightarrow> (Ok (fd, inFileSize, d), v2))))"

text \<open>
  One offer to the send queue, with event number, data id and entropy left to the segmenter; the
  callback, number 1, gets the mapping.
\<close>

definition UNMAP_CALLBACK :: nat where
  "UNMAP_CALLBACK = 1"

definition offer_file :: "seg_cfg \<Rightarrow> nat \<times> nat \<times> u8 list \<Rightarrow> seg_state \<Rightarrow> int result \<times> seg_state" where
  "offer_file c = (\<lambda>(fd, n, d) s. seg_addToSendQueue c d n 0 0 0 (Some UNMAP_CALLBACK) fd s)"

text \<open>
  The loop that offers the file until the queue takes it, whatever the error was; each element of the
  schedule is what the other threads did to the segmenter between two offers.
\<close>

fun offer_loop :: "seg_cfg \<Rightarrow> nat \<times> nat \<times> u8 list \<Rightarrow> (seg_state \<Rightarrow> seg_state) list \<Rightarrow> seg_state \<Rightarrow> seg_state option" where
  "offer_loop c m envs s =
     (case offer_file c m s of
        (Inr _, s') \<Rightarrow> Some s'
      | (Inl _, s') \<Rightarrow> (case envs of [] \<Rightarrow> None | env # envs' \<Rightarrow> offer_loop c m envs' (env s')))"

definition sendFile ::
  "'v in_files \<Rightarrow> seg_cfg \<Rightarrow> string \<Rightarrow> u64 \<Rightarrow> (seg_state \<Rightarrow> seg_state) list \<Rightarrow> seg_state \<Rightarrow> 'v \<Rightarrow>
     (int result \<times> seg_state \<times> 'v) option" where
  "sendFile files c path num envs s v =
     (case map_file files path v of
        (Inl e, v1) \<Rightarrow> Some (Inl e, s, v1)
      | (Inr m, v1) \<Rightarrow>
          (case offer_loop c m envs s of None \<Rightarrow> None | Some s1 \<Rightarrow> Some (Ok 0, s1, v1)))"

subsection \<open>Which files are sent\<close>

record path_ops =
  po_exists :: "string \<Rightarrow> bool"
  po_is_regular :: "string \<Rightarrow> bool"
  po_is_directory :: "string \<Rightarrow> bool"
  po_extension :: "string \<Rightarrow> string"
  po_file_size :: "string \<Rightarrow> nat"
  po_entries :: "bool \<Rightarrow> string \<Rightarrow> string list"

definition checkPath :: "path_ops \<Rightarrow> string \<Rightarrow> string \<Rightarrow> bool" where
  "checkPath fs extension p \<longleftrightarrow> po_exists fs p \<and> po_is_regular fs p \<and> \<not> po_is_directory fs p \<and>
     (extension = ''.'' \<or> (extension \<noteq> ''.'' \<and> po_extension fs p = extension))"

text \<open>The tasks posted to the pool, the next event number and the bytes to send.\<close>

type_synonym postings = "(string \<times> u64) list \<times> u64 \<times> nat"

definition postToThreadPool :: "path_ops \<Rightarrow> string \<Rightarrow> postings \<Rightarrow> postings" where
  "postToThreadPool fs p = (\<lambda>(tasks, evt, bytesSent). (tasks @ [(p, evt)], evt + 1, bytesSent + po_file_size fs p))"

definition post_matching :: "path_ops \<Rightarrow> string \<Rightarrow> string list \<Rightarrow> postings \<Rightarrow> postings" where
  "post_matching fs extension entries = fold (postToThreadPool fs) (filter (checkPath fs extension) entries)"

text \<open>\<open>traversePaths\<close> up to the join: every path comes with the \<open>threadsRunning\<close> read before it.\<close>

fun traverse_paths :: "path_ops \<Rightarrow> string \<Rightarrow> bool \<Rightarrow> (bool \<times> string) list \<Rightarrow> postings \<Rightarrow> postings" where
  "traverse_paths fs extension recurse [] t = t"
| "traverse_paths fs extension recurse ((threadsRunning, p) # ps) t =
     (if \<not> threadsRunning then t
      else traverse_paths fs extension recurse ps
             (if \<not> po_exists fs p then t
              else if checkPath fs extension p then postToThreadPool fs p t
              else if po_is_directory fs p then post_matching fs extension (po_entries fs recurse p) t
              else t))"

lemma post_matching_tasks:
  "map fst (fst (post_matching fs extension es t)) = map fst (fst t) @ filter (checkPath fs extension) es"
  by (induction es arbitrary: t) (auto simp: post_matching_def postToThreadPool_def split: prod.splits)

text \<open>The event numbers handed to the tasks count up from the first, one per file.\<close>

definition numbered :: "u64 \<Rightarrow> postings \<Rightarrow> bool" where
  "numbered e0 t \<longleftrightarrow> (case t of (tasks, evt, _) \<Rightarrow>
     map snd tasks = map (\<lambda>i. e0 + word_of_nat i) [0..<length tasks] \<and> evt = e0 + word_of_nat (length tasks))"

lemma numbered_post: "numbered e0 t \<Longrightarrow> numbered e0 (postToThreadPool fs p t)"
  by (auto simp: numbered_def postToThreadPool_def split: prod.splits)

lemma numbered_matching: "numbered e0 t \<Longrightarrow> numbered e0 (post_matching fs extension es t)"
  by (induction es arbitrary: t) (auto simp: post_matching_def numbered_post)

lemma numbered_traverse: "numbered e0 t \<Longrightarrow> numbered e0 (traverse_paths fs extension recurse ps t)"
  by (induction fs extension recurse ps t rule: traverse_paths.induct) (auto simp: numbered_post numbered_matching)

lemma traverse_checked:
  "\<forall>p\<in>set (map fst (fst t)). checkPath fs extension p \<Longrightarrow>
   \<forall>p\<in>set (map fst (fst (traverse_paths fs extension recurse ps t))). checkPath fs extension p"
proof (induction fs extension recurse ps t rule: traverse_paths.induct)
  case (2 fs extension recurse running p ps t)
  have "\<forall>q\<in>set (map fst (fst (post_matching fs extension (po_entries fs recurse p) t))). checkPath fs extension q"
    using "2.prems" unfolding post_matching_tasks by auto
  moreover have "checkPath fs extension p \<Longrightarrow> \<forall>q\<in>set (map fst (fst (postToThreadPool fs p t))). checkPath fs extension q"
    using "2.prems" by (auto simp: postToThreadPool_def split: prod.splits)
  ultimately show ?case using 2 by auto
qed simp

subsection \<open>The pool of reading threads\<close>

text \<open>
  What \<open>traversePaths\<close> runs until the pool is joined and the segmenter stopped: the tasks not yet
  started, the mappings the \<open>tpSize\<close> threads are offering, the segmenter, its network and the files.
  The threads and the send thread interleave freely.
\<close>

record ('v, 'w) ft_pool =
  fp_todo :: "(string \<times> u64) list"
  fp_busy :: "(nat \<times> nat \<times> u8 list) list"
  fp_seg :: seg_state
  fp_net :: 'w
  fp_files :: 'v

definition run_callbacks :: "'v in_files \<Rightarrow> (nat \<times> nat) list \<Rightarrow> 'v \<Rightarrow> 'v" where
  "run_callbacks files calls v = fold (\<lambda>(f, fd). if f = UNMAP_CALLBACK then unmapFileCallback files fd else id) calls v"

inductive ft_step ::
  "'w net_ops \<Rightarrow> byte_order \<Rightarrow> (Code \<Rightarrow> bool) \<Rightarrow> seg_cfg \<Rightarrow> 'v in_files \<Rightarrow> nat \<Rightarrow>
     ('v, 'w) ft_pool \<Rightarrow> ('v, 'w) ft_pool \<Rightarrow> bool"
  for net h isSel c files tpSize where
  unreadable: "fp_todo x = (p, num) # ts \<Longrightarrow> length (fp_busy x) < tpSize \<Longrightarrow> map_file files p (fp_files x) = (Inl e, v) \<Longrightarrow>
     ft_step net h isSel c files tpSize x (x\<lparr>fp_todo := ts, fp_files := v\<rparr>)"
| mapped: "fp_todo x = (p, num) # ts \<Longrightarrow> length (fp_busy x) < tpSize \<Longrightarrow> map_file files p (fp_files x) = (Inr m, v) \<Longrightarrow>
     ft_step net h isSel c files tpSize x (x\<lparr>fp_todo := ts, fp_busy := m # fp_busy x, fp_files := v\<rparr>)"
| offered: "fp_busy x = ms1 @ m # ms2 \<Longrightarrow> offer_file c m (fp_seg x) = (Inr r, s) \<Longrightarrow>
     ft_step net h isSel c files tpSize x (x\<lparr>fp_busy := ms1 @ ms2, fp_seg := s\<rparr>)"
| refused: "m \<in> set (fp_busy x) \<Longrightarrow> offer_file c m (fp_seg x) = (Inl e, s) \<Longrightarrow>
     ft_step net h isSel c files tpSize x (x\<lparr>fp_seg := s\<rparr>)"
| sent: "seg_thread_step net h isSel c now lsb rnd cqes (fp_seg x) (fp_net x) = Some (s, w) \<Longrightarrow>
     ft_step net h isSel c files tpSize x
       (x\<lparr>fp_seg := s, fp_net := w,
          fp_files := run_callbacks files (drop (length (sg_callbacks (fp_seg x))) (sg_callbacks s)) (fp_files x)\<rparr>)"

text \<open>The pool has been joined and \<open>stopThreads\<close> found the queue empty.\<close>

definition ft_done :: "('v, 'w) ft_pool \<Rightarrow> bool" where
  "ft_done x \<longleftrightarrow> fp_todo x = [] \<and> fp_busy x = [] \<and> sg_queue (fp_seg x) = []"

definition ft_start :: "string list \<Rightarrow> 'v \<Rightarrow> 'w \<Rightarrow> ('v, 'w) ft_pool" where
  "ft_start paths v w = \<lparr>fp_todo = zip paths (map word_of_nat [0..<length paths]), fp_busy = [],
     fp_seg = seg_state_new, fp_net = w, fp_files = v\<rparr>"

text \<open>Files that do not change while they are sent: what mapping each of them shows, if it can be mapped.\<close>

definition stable_files :: "'v in_files \<Rightarrow> (string \<Rightarrow> u8 list option) \<Rightarrow> bool" where
  "stable_files files content \<longleftrightarrow> (\<forall>p v. case fst (map_file files p v) of
     Inl _ \<Rightarrow> content p = None | Inr (fd, n, d) \<Rightarrow> content p = Some d \<and> n = length d)"

lemma stable_map_file:
  assumes "stable_files files content"
  shows "map_file files p v = (Inl e, v') \<Longrightarrow> content p = None"
    and "map_file files p v = (Inr (fd, n, d), v') \<Longrightarrow> content p = Some d \<and> n = length d"
proof -
  have k: "case fst (map_file files p v) of Inl _ \<Rightarrow> content p = None
      | Inr (fd, n, d) \<Rightarrow> content p = Some d \<and> n = length d"
    using assms unfolding stable_files_def by blast
  show "map_file files p v = (Inl e, v') \<Longrightarrow> content p = None" using k by simp
  show "map_file files p v = (Inr (fd, n, d), v') \<Longrightarrow> content p = Some d \<and> n = length d" using k by simp
qed

text \<open>The item an offer puts into the queue; the event number is used up even when the queue is full.\<close>

lemma offer_file_cases:
  "offer_file c (fd, n, d) s =
     (let item = \<lparr>qi_bytes = word_of_nat n, qi_eventNum = sg_userEventNum s, qi_dataId = sg_dataId c, qi_event = d,
        qi_entropy = 0, qi_callback = Some UNMAP_CALLBACK, qi_cbArg = fd\<rparr>;
        s1 = s\<lparr>sg_userEventNum := sg_userEventNum s + 1\<rparr>
      in if length (sg_queue s) < SEG_QSIZE then (Ok 0, s1\<lparr>sg_queue := sg_queue s @ [item]\<rparr>)
         else (Err MemoryError ''Send queue is temporarily full, try again later'', s1))"
  by (simp add: offer_file_def seg_addToSendQueue_def seg_push_def Let_def)

lemma reap_keeps:
  "sg_queue (seg_reap bs s) = sg_queue s" "sg_userEventNum (seg_reap bs s) = sg_userEventNum s"
proof -
  have o: "sg_queue (reap_one e s) = sg_queue s \<and> sg_userEventNum (reap_one e s) = sg_userEventNum s" for e s
    by (auto simp: reap_one_def on_sendStats_def Let_def split: prod.splits option.splits)
  have f: "sg_queue (fold reap_one es s) = sg_queue s \<and> sg_userEventNum (fold reap_one es s) = sg_userEventNum s" for es s
    by (induction es arbitrary: s) (simp_all add: o)
  have "sg_queue (seg_reap bs s) = sg_queue s \<and> sg_userEventNum (seg_reap bs s) = sg_userEventNum s"
    by (induction bs s rule: seg_reap.induct) (simp_all add: Let_def f o)
  then show "sg_queue (seg_reap bs s) = sg_queue s" "sg_userEventNum (seg_reap bs s) = sg_userEventNum s" by simp_all
qed

lemma seg_thread_step_sends:
  assumes m: "0 < sg_maxPldLen c" and n: "sg_numSendSockets c \<noteq> 0" and q: "sg_queue s = i # q"
    and r: "seg_thread_step wire_net h isSel c now lsb rnd cqes s w = Some (s', w')"
  shows "w' = w @ item_frames h c ((now, lsb, rnd), i)" and "sg_queue s' = q"
    and "sg_userEventNum s' = sg_userEventNum s"
proof -
  let ?rri = "(sg_roundRobinIndex s + 1) mod sg_numSendSockets c"
  let ?s1 = "s\<lparr>sg_queue := q, sg_roundRobinIndex := ?rri\<rparr>"
  obtain s2 where s2: "seg_send wire_net h isSel c now lsb rnd (qi_event i) (unat (qi_bytes i)) (qi_eventNum i)
      (qi_dataId i) (qi_entropy i) ?rri (qi_callback i) (qi_cbArg i) ?s1 w =
      Some (Ok 0, s2, w @ item_frames h c ((now, lsb, rnd), i))"
    using seg_send_wire[OF m] unfolding item_frames_def prod.case by blast
  have k: "sg_queue s2 = q" "sg_userEventNum s2 = sg_userEventNum s"
    using seg_send_counters[OF m s2] by (simp_all add: counters_only_def)
  have p: "seg_pop (sg_queue s) = (q, Some i)" by (simp add: seg_pop_def q)
  have "w' = w @ item_frames h c ((now, lsb, rnd), i) \<and> sg_queue s' = q \<and> sg_userEventNum s' = sg_userEventNum s"
    using r unfolding seg_thread_step_def p prod.case option.case if_not_P[OF n] Let_def s2
    using k by (auto simp: reap_keeps split: if_splits option.splits)
  then show "w' = w @ item_frames h c ((now, lsb, rnd), i)" "sg_queue s' = q" "sg_userEventNum s' = sg_userEventNum s"
    by simp_all
qed

lemma seg_thread_step_idle:
  "sg_queue s = [] \<Longrightarrow> seg_thread_step net h isSel c now lsb rnd cqes s w = Some (s, w)"
  by (simp add: seg_thread_step_def seg_pop_def)

end
