(* ===== verification/E2SAR_FileSaving.thy ===== *)
theory E2SAR_FileSaving
  imports E2SAR_FileTransfer
begin

text \<open>
  The receiving half of the file transfer program: \<open>recvFiles\<close> writes every event to a hidden file and
  renames it, \<open>shutDown\<close> and \<open>main\<close> end the program.  The file system written to is the parameter
  \<open>out_files\<close>; the locale \<open>file_store\<close> is what saving an event relies on, and \<open>memory_files\<close>, files
  in a map, provides it.
\<close>

section \<open>Saving an event\<close>

text \<open>
  \<open>open\<close> with \<^verbatim>\<open>O_RDWR|O_CREAT\<close>, \<open>ftruncate\<close>, \<open>mmap\<close> of a size at an address, \<open>memcpy\<close> to it, \<open>munmap\<close>,
  \<open>close\<close>, \<open>rename\<close>, and \<open>/=\<close> of two paths.
\<close>

record 'v out_files =
  of_join :: "string \<Rightarrow> string \<Rightarrow> string"
  of_open :: "string \<Rightarrow> 'v \<Rightarrow> nat option \<times> 'v"
  of_truncate :: "nat \<Rightarrow> nat \<Rightarrow> 'v \<Rightarrow> bool \<times> 'v"
  of_mmap :: "nat \<Rightarrow> nat \<Rightarrow> 'v \<Rightarrow> nat option \<times> 'v"
  of_memcpy :: "nat \<Rightarrow> buffer \<Rightarrow> 'v \<Rightarrow> 'v"
  of_munmap :: "nat \<Rightarrow> nat \<Rightarrow> 'v \<Rightarrow> bool \<times> 'v"
  of_close :: "nat \<Rightarrow> 'v \<Rightarrow> 'v"
  of_rename :: "string \<Rightarrow> string \<Rightarrow> 'v \<Rightarrow> 'v"

definition final_name :: "string \<Rightarrow> string \<Rightarrow> u64 \<Rightarrow> u16 \<Rightarrow> string" where
  "final_name prefix0 extension evtNum dataId =
     prefix0 @ ''_'' @ nat_str (unat evtNum) @ ''_'' @ nat_str (unat dataId) @
       (if extension \<noteq> ''.'' then extension else [])"

definition hidden_name :: "string \<Rightarrow> string" where
  "hidden_name name = CHR ''.'' # name"

text \<open>The body of the loop once an event is there; every failure goes on with the next event.\<close>

definition save_event ::
  "'v out_files \<Rightarrow> string \<Rightarrow> string \<Rightarrow> string \<Rightarrow> buffer \<times> nat \<times> u64 \<times> u16 \<Rightarrow> 'v \<Rightarrow> 'v" where
  "save_event files path prefix0 extension = (\<lambda>(evtBuf, evtSize, evtNum, dataId) v.
     let final = final_name prefix0 extension evtNum dataId;
         filePath = of_join files path (hidden_name final);
         finalFilePath = of_join files path final
     in case of_open files filePath v of
          (None, v1) \<Rightarrow> v1
        | (Some fdOut, v1) \<Rightarrow>
            (case of_truncate files fdOut evtSize v1 of
               (False, v2) \<Rightarrow> of_close files fdOut v2
             | (True, v2) \<Rightarrow>
                 (case of_mmap files fdOut evtSize v2 of
                    (None, v3) \<Rightarrow> of_close files fdOut v3
                  | (Some outPtr, v3) \<Rightarrow>
                      (case of_munmap files outPtr evtSize (of_memcpy files outPtr (take evtSize evtBuf) v3) of
                         (False, v4) \<Rightarrow> of_close files fdOut v4
                       | (True, v4) \<Rightarrow> of_rename files filePath finalFilePath (of_close files fdOut v4)))))"

text \<open>
  \<open>recvFiles\<close>: each element of the schedule is one turn of the loop, with the clock, the stop flag and
  the wake ups of its call of \<open>recvEvent\<close>; the end of the list is \<open>threadsRunning\<close> turned false.
\<close>

fun recvFiles ::
  "'v out_files \<Rightarrow> string \<Rightarrow> string \<Rightarrow> string \<Rightarrow> (int \<times> bool \<times> wake_up list) list \<Rightarrow> u64 \<Rightarrow> reas_shared \<Rightarrow> 'v \<Rightarrow>
     (u64 \<times> reas_shared \<times> 'v) option" where
  "recvFiles files path prefix0 extension [] errs g v = Some (errs, g, v)"
| "recvFiles files path prefix0 extension ((nowT, stop, ws) # turns) errs g v =
     (case recvEvent nowT 1000 stop ws g of
        None \<Rightarrow> None
      | Some (Inl _, _, g1) \<Rightarrow> recvFiles files path prefix0 extension turns (errs + 1) g1 v
      | Some (Inr r, got, g1) \<Rightarrow>
          if r = -1 then recvFiles files path prefix0 extension turns errs g1 v
          else recvFiles files path prefix0 extension turns errs g1
                 (case got of None \<Rightarrow> v | Some ev \<Rightarrow> save_event files path prefix0 extension ev v))"

section \<open>The names of the files\<close>

lemma nat_str_inj: "nat_str a = nat_str b \<Longrightarrow> a = b"
  by (metis digits_value_nat_str)

lemma digits_then:
  assumes "list_all is_digit xs" and "list_all is_digit ys" and "\<not> is_digit c" and "xs @ c # us = ys @ c # vs"
  shows "xs = ys \<and> us = vs"
proof -
  have t: "takeWhile is_digit (zs @ c # ws) = zs" if "list_all is_digit zs" for zs ws
    using that assms(3) by (simp add: takeWhile_append2 list_all_iff)
  have "xs = ys" using t[OF assms(1), of us] t[OF assms(2), of vs] assms(4) by simp
  then show ?thesis using assms(4) by simp
qed

text \<open>An event number and a data id have a name of their own.\<close>

lemma final_name_inj:
  assumes "final_name p e n d = final_name p e n' d'"
  shows "n = n' \<and> d = d'"
proof -
  let ?x = "if e \<noteq> ''.'' then e else []"
  have "nat_str (unat n) @ CHR ''_'' # (nat_str (unat d) @ ?x) = nat_str (unat n') @ CHR ''_'' # (nat_str (unat d') @ ?x)"
    using assms by (simp add: final_name_def)
  then have "nat_str (unat n) = nat_str (unat n') \<and> nat_str (unat d) @ ?x = nat_str (unat d') @ ?x"
    by (rule digits_then[OF nat_str_digits nat_str_digits, rotated]) (simp add: is_digit_def)
  then show ?thesis by (auto dest!: nat_str_inj simp: word_unat_eq_iff)
qed

lemma dot_not_prefix: "CHR ''.'' # p @ CHR ''_'' # xs \<noteq> p @ CHR ''_'' # ys"
  by (induction p) auto

text \<open>No hidden name is the final name of another event.\<close>

lemma hidden_not_final: "hidden_name (final_name p e n d) \<noteq> final_name p e n' d'"
  using dot_not_prefix[of p "nat_str (unat n) @ ''_'' @ nat_str (unat d) @ (if e \<noteq> ''.'' then e else [])"]
  by (simp add: final_name_def hidden_name_def)

section \<open>What saving relies on\<close>

text \<open>
  A store of files: \<open>look\<close> is the contents of a path.  Saving an event of at least one byte makes its
  path show the event and leaves every path other than that and the hidden one alone.
\<close>

locale file_store =
  fixes files :: "'v out_files" and look :: "'v \<Rightarrow> string \<Rightarrow> buffer option" and intact :: "'v \<Rightarrow> bool" and path :: string
  assumes join_inj: "of_join files path x = of_join files path y \<Longrightarrow> x = y"
    and intact: "intact v \<Longrightarrow> intact (save_event files path p e ev v)"
    and saved: "intact v \<Longrightarrow> 0 < n \<Longrightarrow> length b = n \<Longrightarrow>
      look (save_event files path p e (b, n, num, d) v) (of_join files path (final_name p e num d)) = Some b"
    and others: "intact v \<Longrightarrow> q \<noteq> of_join files path (final_name p e num d) \<Longrightarrow>
      q \<noteq> of_join files path (hidden_name (final_name p e num d)) \<Longrightarrow>
      look (save_event files path p e (b, n, num, d) v) q = look v q"
begin

lemma save_keeps:
  assumes "intact v" and "(num', d') \<noteq> (num, d)"
  shows "look (save_event files path p e (b, n, num, d) v) (of_join files path (final_name p e num' d')) =
    look v (of_join files path (final_name p e num' d'))"
proof (rule others[OF assms(1)])
  show "of_join files path (final_name p e num' d') \<noteq> of_join files path (final_name p e num d)"
    using assms(2) by (auto dest!: join_inj final_name_inj)
  show "of_join files path (final_name p e num' d') \<noteq> of_join files path (hidden_name (final_name p e num d))"
    using hidden_not_final[of p e num d num' d'] by (auto dest!: join_inj)
qed

lemma save_all_intact: "intact v \<Longrightarrow> intact (fold (save_event files path p e) evs v)"
  by (induction evs arbitrary: v) (simp_all add: intact)

text \<open>Any number of events, those of one key at most once: every one of them is there afterwards.\<close>

lemma save_all:
  assumes "intact v" and "\<forall>(b, n, num, d)\<in>set evs. 0 < n \<and> length b = n"
    and "distinct (map (\<lambda>(b, n, num, d). (num, d)) evs)" and "(b, n, num, d) \<in> set evs"
  shows "look (fold (save_event files path p e) evs v) (of_join files path (final_name p e num d)) = Some b"
proof -
  have keep: "look (fold (save_event files path p e) es w) (of_join files path (final_name p e num d)) =
      look w (of_join files path (final_name p e num d))"
    if "intact w" and "(num, d) \<notin> set (map (\<lambda>(b, n, num, d). (num, d)) es)" for es w
    using that by (induction es arbitrary: w) (auto simp: save_keeps intact)
  obtain es1 es2 where evs: "evs = es1 @ (b, n, num, d) # es2" using assms(4) by (meson split_list)
  let ?v1 = "fold (save_event files path p e) es1 v"
  have i: "intact ?v1" by (rule save_all_intact[OF assms(1)])
  have "(num, d) \<notin> set (map (\<lambda>(b, n, num, d). (num, d)) es2)" using assms(3) by (simp add: evs)
  then have "look (fold (save_event files path p e) evs v) (of_join files path (final_name p e num d)) =
      look (save_event files path p e (b, n, num, d) ?v1) (of_join files path (final_name p e num d))"
    by (simp add: evs keep intact i)
  also have "\<dots> = Some b" by (rule saved[OF i]) (use assms(2) evs in auto)
  finally show ?thesis .
qed

end

text \<open>A receive loop that gets one event at each turn saves the events of the queue in order.\<close>

lemma recvFiles_queue:
  "\<exists>g'. recvFiles files path p e (map (\<lambda>_. (0, False, [])) (rs_eventQueue g)) errs g v =
    Some (errs, g', fold (save_event files path p e) (map item_out (rs_eventQueue g)) v) \<and> rs_eventQueue g' = []"
proof (induction "rs_eventQueue g" arbitrary: g v)
  case Nil
  then show ?case by simp
next
  case (Cons i q)
  let ?g1 = "g\<lparr>rs_eventQueue := q, rs_eventQueueDepth := rs_eventQueueDepth g - 1\<rparr>"
  have r: "recvEvent 0 1000 False [] g = Some (Ok 0, Some (item_out i), ?g1)"
    using Cons.hyps(2)[symmetric] by (simp add: recvEvent_def reas_dequeue_def)
  have "q = rs_eventQueue ?g1" by simp
  from Cons.hyps(1)[OF this, of "save_event files path p e (item_out i) v"]
  show ?case by (simp add: Cons.hyps(2)[symmetric] r)
qed

section \<open>Files in memory\<close>

text \<open>
  Directory entries name files by a number, descriptors and addresses are that number too.  As POSIX
  has it, truncating pads with zeros, a mapping of 0 bytes is refused, renaming replaces.
\<close>

record memory_fs =
  mf_names :: "string \<Rightarrow> nat option"
  mf_data :: "nat \<Rightarrow> buffer"
  mf_next :: nat

definition memory_files :: "memory_fs out_files" where
  "memory_files = \<lparr>
     of_join = (\<lambda>a b. a @ CHR ''/'' # b),
     of_open = (\<lambda>p m. case mf_names m p of
        Some k \<Rightarrow> (Some k, m)
      | None \<Rightarrow> (Some (mf_next m), m\<lparr>mf_names := (mf_names m)(p \<mapsto> mf_next m), mf_data := (mf_data m)(mf_next m := []),
                    mf_next := mf_next m + 1\<rparr>)),
     of_truncate = (\<lambda>k n m. (True, m\<lparr>mf_data := (mf_data m)(k := take n (mf_data m k @ replicate n (Some 0)))\<rparr>)),
     of_mmap = (\<lambda>k n m. (if n = 0 then None else Some k, m)),
     of_memcpy = (\<lambda>k b m. m\<lparr>mf_data := (mf_data m)(k := b @ drop (length b) (mf_data m k))\<rparr>),
     of_munmap = (\<lambda>k n m. (True, m)),
     of_close = (\<lambda>k m. m),
     of_rename = (\<lambda>p q m. case mf_names m p of
        None \<Rightarrow> m
      | Some k \<Rightarrow> if p = q then m else m\<lparr>mf_names := (mf_names m)(q \<mapsto> k, p := None)\<rparr>)\<rparr>"

definition memory_look :: "memory_fs \<Rightarrow> string \<Rightarrow> buffer option" where
  "memory_look m p = (case mf_names m p of None \<Rightarrow> None | Some k \<Rightarrow> Some (mf_data m k))"

definition memory_empty :: memory_fs where
  "memory_empty = \<lparr>mf_names = (\<lambda>_. None), mf_data = (\<lambda>_. []), mf_next = 0\<rparr>"

text \<open>Every file has one name, and the numbers in use are below the next.\<close>

definition memory_intact :: "memory_fs \<Rightarrow> bool" where
  "memory_intact m \<longleftrightarrow> (\<forall>p q k. mf_names m p = Some k \<longrightarrow> (mf_names m q = Some k \<longrightarrow> p = q) \<and> k < mf_next m)"

lemma memory_empty_intact: "memory_intact memory_empty"
  by (simp add: memory_intact_def memory_empty_def)

text \<open>Opening a path and writing through it: the file of the path, and nothing else, becomes the event.\<close>

definition memory_put :: "string \<Rightarrow> buffer \<Rightarrow> memory_fs \<Rightarrow> memory_fs" where
  "memory_put p b m = (case of_open memory_files p m of (k, m1) \<Rightarrow> m1\<lparr>mf_data := (mf_data m1)(the k := b)\<rparr>)"

lemma memory_save_cases:
  fixes path :: string
  defines "hid \<equiv> \<lambda>p e num d. of_join memory_files path (hidden_name (final_name p e num d))"
    and "fin \<equiv> \<lambda>p e num d. of_join memory_files path (final_name p e num d)"
  shows "\<exists>b'. save_event memory_files path p e (b, n, num, d) m =
      (if n = 0 then memory_put (hid p e num d) b' m
       else of_rename memory_files (hid p e num d) (fin p e num d) (memory_put (hid p e num d) b' m)) \<and>
      (0 < n \<and> length b = n \<longrightarrow> b' = b)"
  unfolding hid_def fin_def
  by (cases "mf_names m (of_join memory_files path (hidden_name (final_name p e num d)))")
    (auto simp: save_event_def memory_files_def memory_put_def Let_def intro!: exI)

lemma memory_put_facts:
  assumes "memory_intact m"
  shows "memory_intact (memory_put p b m)" and "memory_look (memory_put p b m) p = Some b"
    and "q \<noteq> p \<Longrightarrow> memory_look (memory_put p b m) q = memory_look m q"
  using assms
  by (auto simp: memory_put_def memory_files_def memory_intact_def memory_look_def less_SucI split: option.splits)

lemma memory_rename_facts:
  assumes "memory_intact m" and "p \<noteq> q"
  shows "memory_intact (of_rename memory_files p q m)"
    and "memory_look m p = Some b \<Longrightarrow> memory_look (of_rename memory_files p q m) q = Some b"
    and "r \<noteq> p \<Longrightarrow> r \<noteq> q \<Longrightarrow> memory_look (of_rename memory_files p q m) r = memory_look m r"
  using assms by (auto simp: memory_files_def memory_intact_def memory_look_def split: option.splits)

lemma hidden_join:
  "of_join memory_files path (hidden_name (final_name p e n d)) \<noteq> of_join memory_files path (final_name p e n' d')"
  using hidden_not_final[of p e n d n' d'] by (simp add: memory_files_def)

interpretation memory: file_store memory_files memory_look memory_intact path for path
proof (unfold_locales, goal_cases)
  case (1 x y)
  then show ?case by (simp add: memory_files_def)
next
  case (2 v p e ev)
  obtain b n num d where ev: "ev = (b, n, num, d)" by (cases ev) auto
  obtain b' where "save_event memory_files path p e ev v = memory_put (of_join memory_files path (hidden_name (final_name p e num d))) b' v \<or>
      save_event memory_files path p e ev v = of_rename memory_files (of_join memory_files path (hidden_name (final_name p e num d)))
        (of_join memory_files path (final_name p e num d))
        (memory_put (of_join memory_files path (hidden_name (final_name p e num d))) b' v)"
    using memory_save_cases[of path p e b n num d v] unfolding ev by metis
  then show ?case
    using memory_rename_facts(1)[OF memory_put_facts(1)[OF 2] hidden_join] memory_put_facts(1)[OF 2] by auto
next
  case (3 v n b p e num d)
  then show ?case
    using memory_save_cases[of path p e b n num d v]
      memory_rename_facts(2)[OF memory_put_facts(1)[OF 3(1)] hidden_join memory_put_facts(2)[OF 3(1)]] by auto
next
  case (4 v q p e num d b n)
  then show ?case
    using memory_save_cases[of path p e b n num d v] memory_put_facts(3)[OF 4(1,3)]
      memory_rename_facts(3)[OF memory_put_facts(1)[OF 4(1)] hidden_join 4(3,2)]
    by (cases "n = 0") auto
qed

section \<open>Ending the program\<close>

text \<open>\<open>exit\<close> or \<open>return\<close> with a code, or an exception nobody catches.\<close>

datatype ft_exit = Exit int | Uncaught

text \<open>The senders given or detected are removed again; an error is only reported.\<close>

definition ft_remove_senders ::
  "host_ops \<Rightarrow> route_ops \<Rightarrow> ('w, 'ws) lb_stub \<Rightarrow> LBManager option \<Rightarrow> string list \<Rightarrow> 'w \<Rightarrow> LBManager option \<times> 'w" where
  "ft_remove_senders h r stub lbm senders w =
     (case lbm of
        None \<Rightarrow> (None, w)
      | Some m \<Rightarrow>
          (case (if senders \<noteq> [] then removeSenders h stub senders m w else removeSenderSelf h r stub False m w) of
             (_, m', w') \<Rightarrow> (Some m', w')))"

text \<open>The loop that reads the lost events until there is an error.\<close>

function list_lost :: "reas_shared \<Rightarrow> (u64 \<times> u16 \<times> nat) list \<times> reas_shared" where
  "list_lost g =
     (case get_LostEvent g of
        (Inl _, g') \<Rightarrow> ([], g')
      | (Inr e, g') \<Rightarrow> (case list_lost g' of (es, g'') \<Rightarrow> (e # es, g'')))"
  by pat_completeness auto
termination
  by (relation "measure (\<lambda>g. length (rs_lostEventsQueue g))") (auto simp: get_LostEvent_def split: list.splits)

declare list_lost.simps [simp del]

lemma list_lost_all: "list_lost g = (rs_lostEventsQueue g, g\<lparr>rs_lostEventsQueue := []\<rparr>)"
proof (induction "rs_lostEventsQueue g" arbitrary: g)
  case Nil
  then show ?case by (subst list_lost.simps) (simp add: get_LostEvent_def)
next
  case (Cons e es)
  have "es = rs_lostEventsQueue (g\<lparr>rs_lostEventsQueue := es\<rparr>)" by simp
  from Cons.hyps(1)[OF this] show ?case
    by (subst list_lost.simps) (simp add: get_LostEvent_def Cons.hyps(2)[symmetric])
qed

record ft_report =
  fr_ports :: "(u16 \<times> nat) list"
  fr_total :: nat
  fr_stats :: ReportedStats
  fr_lost :: "(u64 \<times> u16 \<times> nat) list"

text \<open>
  \<open>shutDown\<close> of the receiver: deregister, stop the threads, print, delete.  The value of a failed
  \<open>get_FDStats\<close> is taken all the same, which throws.
\<close>

definition ft_stop_receiving ::
  "('w, 'ws) lb_stub \<Rightarrow> reassembler \<Rightarrow> recv_thread list \<Rightarrow> reas_shared \<Rightarrow> 'w \<Rightarrow> ft_report option \<times> ft_exit \<times> 'w" where
  "ft_stop_receiving stub r ts g w =
     (case reas_deregisterWorker stub r w of
        (_, r1, w1) \<Rightarrow>
          (case reas_stopThreads r1 ts g of
             (r2, ts2, g2) \<Rightarrow>
               (case get_FDStats (ra_threadsStop r2) g2 of
                  Some (Inr fds) \<Rightarrow>
                    (case list_lost g2 of
                       (lost, g3) \<Rightarrow>
                         (case reas_destroy stub r2 ts2 g3 w1 of
                            (_, _, _, w2) \<Rightarrow>
                              (Some \<lparr>fr_ports = fds, fr_total = sum_list (map snd fds), fr_stats = reas_getStats g2,
                                 fr_lost = lost\<rparr>, Exit 0, w2)))
                | _ \<Rightarrow> (None, Uncaught, w1))))"

section \<open>The two programs\<close>

text \<open>
  Sending, up to the pool: \<open>Inl\<close> is how the program ends early.  A constructor that throws leads to
  \<open>shutDown\<close>, which without a segmenter leaves the senders registered and exits with 0; the \<open>exit(-1)\<close>
  after it is not reached.
\<close>

record ft_sender =
  fs_lbm :: "LBManager option"
  fs_senders :: "string list"
  fs_segmenter :: segmenter
  fs_state :: seg_state

definition ft_start_sending ::
  "host_ops \<Rightarrow> seg_host \<Rightarrow> ('w, 'ws) lb_stub \<Rightarrow> 'v sock_ops \<Rightarrow> (Code \<Rightarrow> bool) \<Rightarrow> ft_args \<Rightarrow> EjfatURI \<Rightarrow> 'w \<Rightarrow> 'v \<Rightarrow>
     (ft_exit + ft_sender) \<times> 'w \<times> 'v" where
  "ft_start_sending h sh stub ops isSel a uri w v =
     (case ft_add_senders h (sh_route sh) stub a uri w of
        (None, w1) \<Rightarrow> (Inl Uncaught, w1, v)
      | (Some (Inl code), w1) \<Rightarrow> (Inl (Exit code), w1, v)
      | (Some (Inr (lbm, senders)), w1) \<Rightarrow>
          (case ft_new_segmenter h sh isSel a uri of
             Inl (ThrowsException _) \<Rightarrow> (Inl (Exit 0), w1, v)
           | Inl (ThrowsInfo _) \<Rightarrow> (Inl Uncaught, w1, v)
           | Inr sg \<Rightarrow>
               (case prepareToSend ops isSel sg seg_state_new v of
                  (Inl _, _, _, v1) \<Rightarrow> (Inl (Exit (-1)), w1, v1)
                | (Inr _, _, s1, v1) \<Rightarrow>
                    (Inr \<lparr>fs_lbm = lbm, fs_senders = senders, fs_segmenter = sg, fs_state = s1\<rparr>, w1, v1))))"

text \<open>The output directory: one path, a directory, all permissions of one class.\<close>

record dir_ops =
  do_is_directory :: "string \<Rightarrow> bool"
  do_stat :: "string \<Rightarrow> u32 option"

definition ft_output_dir :: "dir_ops \<Rightarrow> string list \<Rightarrow> string option" where
  "ft_output_dir fs filePaths =
     (if length filePaths \<noteq> 1 then None
      else let p = filePaths ! 0
           in if \<not> do_is_directory fs p then None
              else (case do_stat fs p of
                      None \<Rightarrow> None
                    | Some st_mode \<Rightarrow>
                        if st_mode AND 0x1C0 \<noteq> 0x1C0 \<and> st_mode AND 0x38 \<noteq> 0x38 \<and> st_mode AND 0x7 \<noteq> 0x7 then None
                        else Some p))"

record ft_receiver =
  fv_path :: string
  fv_reassembler :: reassembler
  fv_threads :: "recv_thread list"
  fv_shared :: reas_shared

definition ft_start_receiving ::
  "host_ops \<Rightarrow> seg_host \<Rightarrow> ('w, 'ws) lb_stub \<Rightarrow> 'v sock_ops \<Rightarrow> dir_ops \<Rightarrow> string option \<Rightarrow> ft_args \<Rightarrow> EjfatURI \<Rightarrow> 'w \<Rightarrow> 'v \<Rightarrow>
     (ft_exit + ft_receiver) \<times> 'w \<times> 'v" where
  "ft_start_receiving h sh stub ops fs hostname a uri w v =
     (case ft_output_dir fs (fa_path a) of
        None \<Rightarrow> (Inl (Exit (-1)), w, v)
      | Some path \<Rightarrow>
          (case ft_new_reassembler h sh a uri of
             Some (Inl _) \<Rightarrow> (Inl (Exit 0), w, v)
           | Some (Inr r) \<Rightarrow>
               (case prepareToReceive h stub ops hostname r reas_shared_new w v of
                  (Inl _, r1, ts, g1, w1, v1) \<Rightarrow>
                    (case ft_stop_receiving stub r1 ts g1 w1 of (_, code, w2) \<Rightarrow> (Inl code, w2, v1))
                | (Inr _, r1, ts, g1, w1, v1) \<Rightarrow>
                    (Inr \<lparr>fv_path = path, fv_reassembler = r1, fv_threads = ts, fv_shared = g1\<rparr>, w1, v1))
           | None \<Rightarrow> (Inl Uncaught, w, v)))"

text \<open>What \<open>shutDown\<close> prints of the lost events, and with what code the program ends.\<close>

lemma ft_stop_receiving_report:
  assumes "ft_stop_receiving stub r ts g w = (Some rep, code, w')" and "\<not> ra_threadsStop r"
  shows "fr_lost rep = [] \<and> code = Exit 0 \<and> fr_stats rep = reas_getStats (g\<lparr>rs_eventQueue := [], rs_lostEventsQueue := []\<rparr>)"
proof -
  obtain res r1 w1 where d: "reas_deregisterWorker stub r w = (res, r1, w1)" by (metis prod_cases3)
  then have "\<not> ra_threadsStop r1"
    using assms(2) by (auto simp: reas_deregisterWorker_def split: if_splits prod.splits)
  then show ?thesis using assms(1)
    by (auto simp: ft_stop_receiving_def d reas_stopThreads_def list_lost_all split: option.splits sum.splits prod.splits)
qed

text \<open>
  The receiver's shutdown reports no lost events, whatever was lost: \<open>stopThreads\<close> has emptied the list
  of them by then.  The totals it prints are those of the ports, and the program ends with 0.
\<close>

lemma shutdown_forgets_lost_events:
  assumes "\<not> ra_threadsStop r" and "length (rs_fragmentsPerFd g) \<le> length (rs_portPerFd g)"
  shows "\<exists>rep w'. ft_stop_receiving stub r ts g w = (Some rep, Exit 0, w') \<and> fr_lost rep = [] \<and>
    fr_total rep = sum_list (map snd (filter (\<lambda>(p, n). p \<noteq> 0) (zip (rs_portPerFd g) (rs_fragmentsPerFd g)))) \<and>
    rep_reassemblyLoss (fr_stats rep) = rs_reassemblyLoss g"
proof -
  obtain res r1 w1 where d: "reas_deregisterWorker stub r w = (res, r1, w1)" by (metis prod_cases3)
  then have r1: "\<not> ra_threadsStop r1"
    using assms(1) by (auto simp: reas_deregisterWorker_def split: if_splits prod.splits)
  let ?g = "g\<lparr>rs_eventQueue := [], rs_lostEventsQueue := []\<rparr>"
  obtain x where x: "ft_stop_receiving stub r ts g w = x" by blast
  have s: "reas_stopThreads r1 ts g = (r1\<lparr>ra_threadsStop := True\<rparr>, gc_drain ts, ?g)"
    using r1 by (simp add: reas_stopThreads_def)
  have f: "get_FDStats True ?g = Some (Ok (filter (\<lambda>(p, n). p \<noteq> 0) (zip (rs_portPerFd g) (rs_fragmentsPerFd g))))"
    using assms(2) by (simp add: get_FDStats_def)
  show ?thesis
    by (auto simp: ft_stop_receiving_def d s f list_lost_all reas_getStats_def split: prod.splits)
qed

end
