(* ===== verification/E2SAR_Transfer.thy ===== *)
theory E2SAR_Transfer
  imports E2SAR_FileSaving "HOL-Library.Multiset"
begin

text \<open>
  What the sending half of the file transfer program guarantees, however its reading threads and the
  send thread interleave: the invariant of \<open>ft_step\<close> and what it says once the program is done.
\<close>

section \<open>The invariant of the pool\<close>

text \<open>
  The items pushed so far: their sizes and data ids, and event numbers that are distinct offers among
  the first \<open>m\<close> since the segmenter's counter was \<open>u\<close>.
\<close>

definition items_ok :: "seg_cfg \<Rightarrow> u64 \<Rightarrow> nat \<Rightarrow> seg_item list \<Rightarrow> bool" where
  "items_ok c u m items \<longleftrightarrow>
     (\<forall>i\<in>set items. qi_bytes i = word_of_nat (length (qi_event i)) \<and> qi_dataId i = sg_dataId c) \<and>
     (\<exists>ks. map qi_eventNum items = map (\<lambda>k. u + word_of_nat k) ks \<and> distinct ks \<and> (\<forall>k\<in>set ks. k < m))"

lemma items_ok_Nil: "items_ok c u m []"
  by (simp add: items_ok_def)

lemma items_ok_mono: "items_ok c u m items \<Longrightarrow> m \<le> m' \<Longrightarrow> items_ok c u m' items"
  unfolding items_ok_def using order_less_le_trans by blast

lemma items_ok_push:
  assumes "items_ok c u m items" and "qi_bytes i = word_of_nat (length (qi_event i))" and "qi_dataId i = sg_dataId c"
    and "qi_eventNum i = u + word_of_nat m"
  shows "items_ok c u (Suc m) (items @ [i])"
proof -
  obtain ks where ks: "map qi_eventNum items = map (\<lambda>k. u + word_of_nat k) ks" "distinct ks" "\<forall>k\<in>set ks. k < m"
    using assms(1) by (auto simp: items_ok_def)
  have "map qi_eventNum (items @ [i]) = map (\<lambda>k. u + word_of_nat k) (ks @ [m])"
    by (simp only: map_append ks(1) list.map assms(4))
  moreover have "distinct (ks @ [m])" "\<forall>k\<in>set (ks @ [m]). k < Suc m" using ks(2,3) by auto
  ultimately have "\<exists>ks. map qi_eventNum (items @ [i]) = map (\<lambda>k. u + word_of_nat k) ks \<and> distinct ks \<and> (\<forall>k\<in>set ks. k < Suc m)"
    by blast
  moreover have "\<forall>j\<in>set (items @ [i]). qi_bytes j = word_of_nat (length (qi_event j)) \<and> qi_dataId j = sg_dataId c"
    using assms(1-3) by (auto simp: items_ok_def)
  ultimately show ?thesis by (simp only: items_ok_def)
qed

text \<open>Fewer than \<open>2 ^ 64\<close> offers: no event number occurs twice.\<close>

lemma items_ok_distinct:
  assumes "items_ok c u m items" and "m \<le> 2 ^ 64"
  shows "distinct (map qi_eventNum items)"
proof -
  obtain ks where ks: "map qi_eventNum items = map (\<lambda>k. u + word_of_nat k) ks" "distinct ks" "\<forall>k\<in>set ks. k < m"
    using assms(1) by (auto simp: items_ok_def)
  have "inj_on (\<lambda>k. u + word_of_nat k :: u64) (set ks)"
  proof (rule inj_onI)
    fix a b assume ab: "a \<in> set ks" "b \<in> set ks" "u + word_of_nat a = (u + word_of_nat b :: u64)"
    have "a < 2 ^ 64" "b < 2 ^ 64" using ks(3) ab(1,2) assms(2) by fastforce+
    moreover have "unat (word_of_nat a :: u64) = unat (word_of_nat b :: u64)" using ab(3) by simp
    ultimately show "a = b" by (simp add: unat_of_nat)
  qed
  then show ?thesis unfolding ks(1) by (simp add: distinct_map ks(2))
qed

record ft_spec =
  sp_sent :: "((u64 \<times> u8 \<times> u16) \<times> seg_item) list"
  sp_offers :: nat

definition pool_inv ::
  "byte_order \<Rightarrow> seg_cfg \<Rightarrow> (string \<Rightarrow> u8 list option) \<Rightarrow> u64 \<Rightarrow> u8 list list \<Rightarrow> u8 list multiset \<Rightarrow> ft_spec \<Rightarrow>
     ('v, u8 list list) ft_pool \<Rightarrow> bool" where
  "pool_inv h c content u w0 all sp x \<longleftrightarrow>
     fp_net x = w0 @ concat (map (item_frames h c) (sp_sent sp)) \<and>
     mset (map qi_event (map snd (sp_sent sp) @ sg_queue (fp_seg x))) + mset (map (snd \<circ> snd) (fp_busy x)) +
       mset (List.map_filter content (map fst (fp_todo x))) = all \<and>
     (\<forall>(fd, n, d)\<in>set (fp_busy x). n = length d) \<and>
     items_ok c u (sp_offers sp) (map snd (sp_sent sp) @ sg_queue (fp_seg x)) \<and>
     sg_userEventNum (fp_seg x) = u + word_of_nat (sp_offers sp)"

lemma pool_inv_start:
  "pool_inv h c content 0 w (mset (List.map_filter content paths)) \<lparr>sp_sent = [], sp_offers = 0\<rparr> (ft_start paths v w)"
  by (simp add: pool_inv_def ft_start_def seg_state_new_def items_ok_Nil)

lemma offer_ok:
  assumes "offer_file c (fd, length d, d) s = (Inr r, s')"
  obtains i where "sg_queue s' = sg_queue s @ [i]" and "qi_event i = d" and "qi_bytes i = word_of_nat (length d)"
    and "qi_dataId i = sg_dataId c" and "qi_eventNum i = sg_userEventNum s" and "sg_userEventNum s' = sg_userEventNum s + 1"
  using assms by (auto simp: offer_file_cases Let_def split: if_splits)

lemma offer_full:
  "offer_file c (fd, n, d) s = (Inl e, s') \<Longrightarrow> sg_queue s' = sg_queue s \<and> sg_userEventNum s' = sg_userEventNum s + 1"
  by (auto simp: offer_file_cases Let_def split: if_splits)

text \<open>Each step keeps the invariant and makes at most one offer.\<close>

lemma ft_step_inv:
  assumes m: "0 < sg_maxPldLen c" and ns: "sg_numSendSockets c \<noteq> 0" and st: "stable_files files content"
    and "ft_step wire_net h isSel c files tpSize x y" and inv: "pool_inv h c content u w0 all sp x"
  shows "\<exists>sp'. pool_inv h c content u w0 all sp' y \<and> sp_offers sp' \<le> Suc (sp_offers sp)"
  using assms(4)
proof cases
  case (unreadable p num ts e v)
  then have "content p = None" using stable_map_file(1)[OF st] by blast
  then show ?thesis using inv unreadable by (intro exI[of _ sp]) (simp add: pool_inv_def map_filter_simps)
next
  case (mapped p num ts mm v)
  obtain fd n d where mm: "mm = (fd, n, d)" by (cases mm) auto
  then have "content p = Some d \<and> n = length d" using stable_map_file(2)[OF st] mapped(4) by blast
  then show ?thesis using inv mapped(1,2) by (intro exI[of _ sp]) (simp add: pool_inv_def map_filter_simps mm)
next
  case (offered ms1 mm ms2 r s)
  obtain fd n d where mm: "mm = (fd, n, d)" by (cases mm) auto
  have n: "n = length d" using inv offered(2) mm by (auto simp: pool_inv_def)
  obtain i where i: "sg_queue s = sg_queue (fp_seg x) @ [i]" "qi_event i = d" "qi_bytes i = word_of_nat (length d)"
    "qi_dataId i = sg_dataId c" "qi_eventNum i = sg_userEventNum (fp_seg x)"
    "sg_userEventNum s = sg_userEventNum (fp_seg x) + 1"
    using offer_ok offered(3)[unfolded mm n] by blast
  have "items_ok c u (Suc (sp_offers sp)) ((map snd (sp_sent sp) @ sg_queue (fp_seg x)) @ [i])"
    by (rule items_ok_push) (use inv i in \<open>simp_all add: pool_inv_def\<close>)
  then show ?thesis using inv offered(1,2) i mm
    by (intro exI[of _ "sp\<lparr>sp_offers := Suc (sp_offers sp)\<rparr>"]) (auto simp: pool_inv_def)
next
  case (refused mm e s)
  obtain fd n d where mm: "mm = (fd, n, d)" by (cases mm) auto
  have k: "sg_queue s = sg_queue (fp_seg x)" "sg_userEventNum s = sg_userEventNum (fp_seg x) + 1"
    using offer_full refused(3)[unfolded mm] by blast+
  have "items_ok c u (Suc (sp_offers sp)) (map snd (sp_sent sp) @ sg_queue (fp_seg x))"
    by (rule items_ok_mono[of _ _ "sp_offers sp"]) (use inv in \<open>simp_all add: pool_inv_def\<close>)
  then show ?thesis using inv refused(1) k
    by (intro exI[of _ "sp\<lparr>sp_offers := Suc (sp_offers sp)\<rparr>"]) (simp add: pool_inv_def)
next
  case (sent now lsb rnd cqes s w)
  show ?thesis
  proof (cases "sg_queue (fp_seg x)")
    case Nil
    then have "s = fp_seg x" "w = fp_net x" using sent(2) by (simp_all add: seg_thread_step_idle)
    then show ?thesis using inv sent(1) by (intro exI[of _ sp]) (simp add: pool_inv_def)
  next
    case (Cons i q)
    note k = seg_thread_step_sends[OF m ns Cons sent(2)]
    show ?thesis using inv sent(1) k Cons
      by (intro exI[of _ "sp\<lparr>sp_sent := sp_sent sp @ [((now, lsb, rnd), i)]\<rparr>"]) (simp add: pool_inv_def)
  qed
qed

lemma ft_steps_inv:
  assumes m: "0 < sg_maxPldLen c" and ns: "sg_numSendSockets c \<noteq> 0" and st: "stable_files files content"
    and "(ft_step wire_net h isSel c files tpSize ^^ n) x y" and "pool_inv h c content u w0 all sp x"
  shows "\<exists>sp'. pool_inv h c content u w0 all sp' y \<and> sp_offers sp' \<le> sp_offers sp + n"
  using assms(4)
proof (induction n arbitrary: y)
  case 0
  then show ?case using assms(5) by (intro exI[of _ sp]) simp
next
  case (Suc n)
  obtain z where z: "(ft_step wire_net h isSel c files tpSize ^^ n) x z" "ft_step wire_net h isSel c files tpSize z y"
    using Suc.prems by auto
  obtain sp1 where sp1: "pool_inv h c content u w0 all sp1 z" "sp_offers sp1 \<le> sp_offers sp + n"
    using Suc.IH[OF z(1)] by blast
  obtain sp2 where "pool_inv h c content u w0 all sp2 y" "sp_offers sp2 \<le> Suc (sp_offers sp1)"
    using ft_step_inv[OF m ns st z(2) sp1(1)] by blast
  then show ?case using sp1(2) by (intro exI[of _ sp2]) simp
qed

text \<open>
  Done: the network has the frames of one item per file that could be mapped, in some order, the items
  carry the contents and distinct event numbers.
\<close>

lemma ft_done_sent:
  assumes m: "0 < sg_maxPldLen c" and ns: "sg_numSendSockets c \<noteq> 0" and st: "stable_files files content"
    and run: "(ft_step wire_net h isSel c files tpSize ^^ n) (ft_start paths v []) y" and d: "ft_done y" and n: "n \<le> 2 ^ 64"
  obtains sent where "fp_net y = concat (map (item_frames h c) sent)"
    and "mset (map (qi_event \<circ> snd) sent) = mset (List.map_filter content paths)"
    and "\<forall>i\<in>set (map snd sent). qi_bytes i = word_of_nat (length (qi_event i)) \<and> qi_dataId i = sg_dataId c"
    and "distinct (map (qi_eventNum \<circ> snd) sent)"
proof -
  obtain sp where sp: "pool_inv h c content 0 [] (mset (List.map_filter content paths)) sp y" "sp_offers sp \<le> n"
    using ft_steps_inv[OF m ns st run pool_inv_start] by auto
  have q: "sg_queue (fp_seg y) = []" "fp_busy y = []" "fp_todo y = []" using d by (simp_all add: ft_done_def)
  have i: "items_ok c 0 (sp_offers sp) (map snd (sp_sent sp))" using sp(1) q by (simp add: pool_inv_def)
  have "distinct (map qi_eventNum (map snd (sp_sent sp)))"
    using items_ok_distinct[OF i] sp(2) n by simp
  moreover have "fp_net y = concat (map (item_frames h c) (sp_sent sp))"
    "mset (map qi_event (map snd (sp_sent sp))) = mset (List.map_filter content paths)"
    using sp(1) q by (simp_all add: pool_inv_def map_filter_simps)
  moreover have "\<forall>i\<in>set (map snd (sp_sent sp)). qi_bytes i = word_of_nat (length (qi_event i)) \<and> qi_dataId i = sg_dataId c"
    using i unfolding items_ok_def by blast
  ultimately show ?thesis using that[of "sp_sent sp"] by (simp only: map_map)
qed

section \<open>Any interleaving of complete events\<close>

text \<open>
  On a receive thread that starts afresh: an event with no fragment in the trace is not in the queue,
  one whose fragments all arrived, fragment 0 first, is there once and complete.
\<close>

lemma trace_delivered:
  assumes "0 < m" and "trace_ok h lb m E nfd xs" and "fresh_receiver nfd (t, g)"
  shows "\<exists>t' g'. recv_run h lb (map fst xs) (t, g) = Some (t', g') \<and>
    (\<forall>k. frags_of k xs = [] \<longrightarrow> E k \<noteq> [] \<longrightarrow> queued k g' = []) \<and>
    (\<forall>k. frags_of k xs \<noteq> [] \<and> hd (frags_of k xs) = 0 \<and>
         set (frags_of k xs) = {..<numBuffers m (length (E k))} \<longrightarrow>
       (\<exists>item. queued k g' = [item] \<and> item_out item = (map Some (E k), length (E k), fst k, snd k)))"
proof -
  have F: "length (rs_fragmentsPerFd g) = nfd" "\<And>k. map_of (rt_eventsInProgress t) k = None"
    "\<And>k. queued k g = []"
    using assms(3) by (auto simp: fresh_receiver_def queued_def)
  obtain t' g' where run: "recv_run h lb (map fst xs) (t, g) = Some (t', g')"
    and st: "\<And>k. E k \<noteq> [] \<Longrightarrow> stage m (E k) k [] (assembled (frags_of k xs)) (t', g')"
    using recv_run_stages[OF assms(1) assms(2)[folded F(1)] fresh_receiver_ok[OF assms(3)] F(2)]
    unfolding F(3) by fastforce
  have none: "queued k g' = []" if "frags_of k xs = []" "E k \<noteq> []" for k
    using st[OF that(2)] less_numBuffers[OF assms(1), of 0 "length (E k)"] that
    by (auto simp: stage_def in_assembly_def all_frags_def split: if_splits)
  have one: "\<exists>item. queued k g' = [item] \<and> item_out item = (map Some (E k), length (E k), fst k, snd k)"
    if k: "frags_of k xs \<noteq> []" "hd (frags_of k xs) = 0"
      "set (frags_of k xs) = {..<numBuffers m (length (E k))}" for k
  proof -
    obtain x i where "(x, k, i) \<in> set xs" using k(1) by (auto simp: frags_of_def filter_empty_conv)
    then have d: "distinct (frags_of k xs)" using assms(2) by (auto simp: trace_ok_def list_all_iff)
    have "E k \<noteq> []" using k(1,3) assms(1) by (metis length_0_conv lessThan_0 numBuffers_0 set_empty)
    then have "delivered (E k) k [] (t', g')"
      using st[of k] assembled_first[OF d k(1,2)] k(3) by (simp add: stage_def all_frags_def)
    then show ?thesis by (simp add: delivered_def)
  qed
  show ?thesis using run none one by blast
qed

section \<open>From the wire to the files\<close>

text \<open>What a receiver of byte order \<open>h\<close> reads in a datagram of the segmenter: the event and the offset.\<close>

definition frame_event :: "byte_order \<Rightarrow> u8 list \<Rightarrow> event_key" where
  "frame_event h f = (case re_get_Fields h (re_cast h (drop sizeof_LBHdr f)) of (dataId, off, len, num) \<Rightarrow> (num, dataId))"

definition frame_offset :: "byte_order \<Rightarrow> u8 list \<Rightarrow> u32" where
  "frame_offset h f = (case re_get_Fields h (re_cast h (drop sizeof_LBHdr f)) of (dataId, off, len, num) \<Rightarrow> off)"

text \<open>Of each event the datagram with offset 0 comes first.\<close>

definition first_leads :: "byte_order \<Rightarrow> u8 list list \<Rightarrow> bool" where
  "first_leads h fs \<longleftrightarrow> (\<forall>b<length fs. \<forall>a<b. frame_event h (fs ! a) = frame_event h (fs ! b) \<longrightarrow> frame_offset h (fs ! b) \<noteq> 0)"

type_synonym sent_item = "(u64 \<times> u8 \<times> u16) \<times> seg_item"

definition sent_key :: "sent_item \<Rightarrow> event_key" where
  "sent_key x = (qi_eventNum (snd x), qi_dataId (snd x))"

definition item_labels :: "nat \<Rightarrow> sent_item \<Rightarrow> (event_key \<times> nat) list" where
  "item_labels m x = map (Pair (sent_key x)) [0..<numBuffers m (length (qi_event (snd x)))]"

definition wire_labels :: "nat \<Rightarrow> sent_item list \<Rightarrow> (event_key \<times> nat) list" where
  "wire_labels m sent = concat (map (item_labels m) sent)"

definition sent_event :: "sent_item list \<Rightarrow> event_key \<Rightarrow> u8 list" where
  "sent_event sent k = (case map_of (map (\<lambda>x. (sent_key x, qi_event (snd x))) sent) k of None \<Rightarrow> [0] | Some d \<Rightarrow> d)"

definition whole_item :: "sent_item \<Rightarrow> bool" where
  "whole_item x \<longleftrightarrow> qi_event (snd x) \<noteq> [] \<and> length (qi_event (snd x)) < 2 ^ 32 \<and>
     qi_bytes (snd x) = word_of_nat (length (qi_event (snd x)))"

lemma whole_item_frames:
  assumes "whole_item ((now, lsb, rnd), i)"
  shows "item_frames h c ((now, lsb, rnd), i) =
    map (sent_frame h c now lsb rnd (qi_event i) (qi_eventNum i) (qi_dataId i) (qi_entropy i))
      [0..<numBuffers (sg_maxPldLen c) (length (qi_event i))]"
  using assms by (simp add: whole_item_def item_frames_def seg_frames_def sent_frame_def unat_of_nat)

lemma sent_event_key:
  "distinct (map sent_key sent) \<Longrightarrow> x \<in> set sent \<Longrightarrow> sent_event sent (sent_key x) = qi_event (snd x)"
proof -
  assume d: "distinct (map sent_key sent)" and x: "x \<in> set sent"
  have "map_of (map (\<lambda>x. (sent_key x, qi_event (snd x))) sent) (sent_key x) = Some (qi_event (snd x))"
    by (rule map_of_is_SomeI) (use d x in \<open>auto simp: comp_def\<close>)
  then show ?thesis by (simp add: sent_event_def)
qed

lemma sent_event_other: "k \<notin> sent_key ` set sent \<Longrightarrow> sent_event sent k = [0]"
proof -
  assume "k \<notin> sent_key ` set sent"
  then have "map_of (map (\<lambda>x. (sent_key x, qi_event (snd x))) sent) k = None" by (auto simp: map_of_eq_None_iff)
  then show ?thesis by (simp add: sent_event_def)
qed

text \<open>Each datagram on the wire is the fragment its label says.\<close>

definition labelled_frame :: "byte_order \<Rightarrow> seg_cfg \<Rightarrow> sent_item list \<Rightarrow> u8 list \<Rightarrow> event_key \<times> nat \<Rightarrow> bool" where
  "labelled_frame h c sent f = (\<lambda>(k, j). \<exists>now lsb rnd entropy.
     f = sent_frame h c now lsb rnd (sent_event sent k) (fst k) (snd k) entropy j \<and>
     j < numBuffers (sg_maxPldLen c) (length (sent_event sent k)) \<and> length (sent_event sent k) < 2 ^ 32)"

lemma wire_labelled:
  assumes "\<And>x. x \<in> set ys \<Longrightarrow> whole_item x \<and> sent_event sent (sent_key x) = qi_event (snd x)"
  shows "list_all2 (labelled_frame h c sent) (concat (map (item_frames h c) ys)) (wire_labels (sg_maxPldLen c) ys)"
  using assms
proof (induction ys)
  case Nil
  then show ?case by (simp add: wire_labels_def)
next
  case (Cons x ys)
  obtain now lsb rnd i where x: "x = ((now, lsb, rnd), i)" by (metis prod.collapse)
  have w: "whole_item ((now, lsb, rnd), i)" and e: "sent_event sent (sent_key x) = qi_event i"
    using Cons.prems[of x] x by simp_all
  have "list_all2 (labelled_frame h c sent) (item_frames h c x) (item_labels (sg_maxPldLen c) x)"
    unfolding x whole_item_frames[OF w] item_labels_def
    using w e by (auto simp: list_all2_conv_all_nth labelled_frame_def x sent_key_def whole_item_def)
  then show ?case using Cons by (simp add: wire_labels_def list_all2_appendI)
qed

lemma set_wire_labels:
  "set (wire_labels m sent) = (\<Union>x\<in>set sent. {(sent_key x, j) | j. j < numBuffers m (length (qi_event (snd x)))})"
  by (auto simp: wire_labels_def item_labels_def)

lemma distinct_wire_labels: "distinct (map sent_key sent) \<Longrightarrow> distinct (wire_labels m sent)"
proof (induction sent)
  case Nil
  then show ?case by (simp add: wire_labels_def)
next
  case (Cons x sent)
  have "wire_labels m (x # sent) = item_labels m x @ wire_labels m sent" by (simp add: wire_labels_def)
  moreover have "distinct (item_labels m x)" by (simp add: item_labels_def distinct_map inj_on_def)
  moreover have "set (item_labels m x) \<inter> set (wire_labels m sent) = {}"
    using Cons.prems unfolding set_wire_labels by (auto simp: item_labels_def image_iff)
  ultimately show ?case using Cons by simp
qed

text \<open>What a receiver reads in a labelled datagram.\<close>

lemma labelled_frame_read:
  assumes "labelled_frame h1 c sent f (k, j)" and "\<not> sg_ticksAsREEventNum c" and "0 < sg_maxPldLen c"
  shows "frame_event h2 f = k" and "frame_offset h2 f = 0 \<longleftrightarrow> j = 0"
proof -
  obtain now lsb rnd entropy where f: "f = sent_frame h1 c now lsb rnd (sent_event sent k) (fst k) (snd k) entropy j"
    and j: "j < numBuffers (sg_maxPldLen c) (length (sent_event sent k))" and l: "length (sent_event sent k) < 2 ^ 32"
    using assms(1) by (auto simp: labelled_frame_def)
  have b: "j * sg_maxPldLen c < length (sent_event sent k)" using less_numBuffers[OF assms(3)] j by blast
  have o: "unat (word_of_nat (j * sg_maxPldLen c) :: u32) = j * sg_maxPldLen c"
    by (rule unat_u32[OF less_trans[OF b l]])
  have r: "re_get_Fields h2 (re_cast h2 (drop sizeof_LBHdr f)) =
      (snd k, word_of_nat (j * sg_maxPldLen c), word_of_nat (length (sent_event sent k)), fst k)"
    using sent_headers_re assms(2) by (simp add: f sent_frame_def frag_frame_def frag_off_def sent_eventNum_def)
  show "frame_event h2 f = k" by (simp add: frame_event_def r)
  have "word_of_nat (j * sg_maxPldLen c) = (0 :: u32) \<longleftrightarrow> j * sg_maxPldLen c = 0" using o by (metis unat_eq_zero)
  then show "frame_offset h2 f = 0 \<longleftrightarrow> j = 0" using assms(3) by (simp add: frame_offset_def r)
qed

lemma labelled_frame_carries:
  assumes "labelled_frame h1 c sent f (k, j)" and "\<not> sg_ticksAsREEventNum c" and "0 < sg_maxPldLen c"
    and "sizeof_LBHdr + sizeof_REHdr + sg_maxPldLen c \<le> RECV_BUFFER_SIZE" and "in_outcome x = RecvData (lb_forward lb f)"
  shows "carries h2 lb (sg_maxPldLen c) (sent_event sent k) k x j"
proof -
  obtain now lsb rnd entropy where f: "f = sent_frame h1 c now lsb rnd (sent_event sent k) (fst k) (snd k) entropy j"
    and j: "j < numBuffers (sg_maxPldLen c) (length (sent_event sent k))" and l: "length (sent_event sent k) < 2 ^ 32"
    using assms(1) by (auto simp: labelled_frame_def)
  have "carries h2 lb (sg_maxPldLen c) (sent_event sent k) (sent_eventNum c now lsb (fst k), snd k) x j"
    using sent_frame_carries[OF assms(3) j l assms(4)] assms(5) f by simp
  then show ?thesis using assms(2) by (simp add: sent_eventNum_def)
qed

text \<open>The fragments of one event in a labelled trace.\<close>

lemma frags_of_labels: "length xs = length ls \<Longrightarrow> frags_of k (zip xs ls) = map snd (filter (\<lambda>l. fst l = k) ls)"
  by (induction xs ls rule: list_induct2) (auto simp: frags_of_def)

lemma distinct_frags: "distinct ls \<Longrightarrow> distinct (map snd (filter (\<lambda>l. fst l = k) ls))"
  by (auto simp: distinct_map inj_on_def)

lemma hd_frags:
  assumes "(k, 0) \<in> set ls" and "\<forall>b<length ls. \<forall>a<b. fst (ls ! a) = fst (ls ! b) \<longrightarrow> snd (ls ! b) \<noteq> (0::nat)"
  shows "hd (map snd (filter (\<lambda>l. fst l = k) ls)) = 0"
proof -
  obtain l1 l2 where ls: "ls = l1 @ (k, 0) # l2" using assms(1) by (meson split_list)
  have "fst l \<noteq> k" if "l \<in> set l1" for l
  proof
    assume "fst l = k"
    obtain a where a: "a < length l1" "l1 ! a = l" using \<open>l \<in> set l1\<close> by (auto simp: in_set_conv_nth)
    have n: "ls ! a = l" "ls ! length l1 = (k, 0)"
      unfolding ls using nth_append_length[of l1 "(k, 0)" l2] nth_append_left[OF a(1), of "(k, 0) # l2"] a(2) by simp_all
    have "length l1 < length ls" by (simp add: ls)
    moreover have "fst (ls ! a) = fst (ls ! length l1)" "snd (ls ! length l1) = 0"
      using \<open>fst l = k\<close> by (simp_all add: n)
    ultimately show False using assms(2)[rule_format, of "length l1" a] a(1) by blast
  qed
  then have "filter (\<lambda>l. fst l = k) l1 = []" by (simp add: filter_empty_conv)
  then show ?thesis by (simp add: ls)
qed

text \<open>
  All datagrams of the wire arrive, each once, in an order in which the first fragments lead; \<open>arrived\<close>
  are their labels in that order.
\<close>

definition whole_arrival ::
  "byte_order \<Rightarrow> byte_order \<Rightarrow> bool \<Rightarrow> seg_cfg \<Rightarrow> sent_item list \<Rightarrow> nat \<Rightarrow> nat list \<Rightarrow> recv_input list \<Rightarrow> bool" where
  "whole_arrival h1 h2 lb c sent nfd js xs \<longleftrightarrow>
     (let wire = concat (map (item_frames h1 c) sent)
      in (\<forall>x\<in>set sent. whole_item x) \<and> distinct (map sent_key sent) \<and> distinct js \<and> set js = {..<length wire} \<and>
         first_leads h2 (map ((!) wire) js) \<and> arrives lb wire nfd js xs)"

definition good_cfg :: "seg_cfg \<Rightarrow> bool" where
  "good_cfg c \<longleftrightarrow> 0 < sg_maxPldLen c \<and> \<not> sg_ticksAsREEventNum c \<and>
     sizeof_LBHdr + sizeof_REHdr + sg_maxPldLen c \<le> RECV_BUFFER_SIZE"

definition arrived :: "seg_cfg \<Rightarrow> sent_item list \<Rightarrow> nat list \<Rightarrow> (event_key \<times> nat) list" where
  "arrived c sent js = map ((!) (wire_labels (sg_maxPldLen c) sent)) js"

lemma wire_labels_match:
  assumes "\<forall>x\<in>set sent. whole_item x" and "distinct (map sent_key sent)"
  shows "list_all2 (labelled_frame h c sent) (concat (map (item_frames h c) sent)) (wire_labels (sg_maxPldLen c) sent)"
  by (rule wire_labelled) (use assms sent_event_key in auto)

lemma arrived_labels:
  assumes "whole_arrival h1 h2 lb c sent nfd js xs"
  shows "length xs = length (arrived c sent js)" and "distinct (arrived c sent js)"
    and "set (arrived c sent js) = set (wire_labels (sg_maxPldLen c) sent)"
proof -
  let ?wire = "concat (map (item_frames h1 c) sent)" and ?labels = "wire_labels (sg_maxPldLen c) sent"
  have A: "\<forall>x\<in>set sent. whole_item x" "distinct (map sent_key sent)" "distinct js" "set js = {..<length ?wire}"
    "arrives lb ?wire nfd js xs"
    using assms by (simp_all add: whole_arrival_def Let_def)
  have l: "length ?labels = length ?wire"
    using wire_labels_match[OF A(1,2)] by (metis list_all2_lengthD)
  show "length xs = length (arrived c sent js)" using A(5) by (simp add: arrives_def arrived_def)
  have "inj_on ((!) ?labels) (set js)"
    using distinct_wire_labels[OF A(2), of "sg_maxPldLen c"] A(4) l by (auto simp: inj_on_def nth_eq_iff_index_eq)
  then show "distinct (arrived c sent js)" by (simp add: arrived_def distinct_map A(3))
  show "set (arrived c sent js) = set ?labels"
    unfolding arrived_def set_map A(4) l[symmetric] using nth_image[of "length ?labels" ?labels]
    by (simp add: lessThan_atLeast0)
qed

lemma arrived_frame:
  assumes "whole_arrival h1 h2 lb c sent nfd js xs" and "n < length js"
  shows "labelled_frame h1 c sent (concat (map (item_frames h1 c) sent) ! (js ! n)) (arrived c sent js ! n)"
    and "in_outcome (xs ! n) = RecvData (lb_forward lb (concat (map (item_frames h1 c) sent) ! (js ! n)))"
    and "in_fd (xs ! n) < nfd" and "in_alloc (xs ! n)"
proof -
  let ?wire = "concat (map (item_frames h1 c) sent)"
  have A: "\<forall>x\<in>set sent. whole_item x" "distinct (map sent_key sent)" "arrives lb ?wire nfd js xs"
    using assms(1) by (simp_all add: whole_arrival_def Let_def)
  show "in_outcome (xs ! n) = RecvData (lb_forward lb (?wire ! (js ! n)))" "in_fd (xs ! n) < nfd" "in_alloc (xs ! n)"
    using A(3) assms(2) by (auto simp: arrives_def list_all_length)
  have "js ! n < length ?wire" using A(3) assms(2) by (auto simp: arrives_def list_all_length)
  then show "labelled_frame h1 c sent (?wire ! (js ! n)) (arrived c sent js ! n)"
    using wire_labels_match[OF A(1,2), of h1 c] assms(2) by (auto simp: arrived_def list_all2_conv_all_nth)
qed

lemma arrived_leads:
  assumes arr: "whole_arrival h1 h2 lb c sent nfd js xs" and "good_cfg c"
  shows "\<forall>b<length (arrived c sent js). \<forall>a<b.
    fst (arrived c sent js ! a) = fst (arrived c sent js ! b) \<longrightarrow> snd (arrived c sent js ! b) \<noteq> 0"
proof (intro allI impI)
  fix a b assume b: "b < length (arrived c sent js)" "a < b"
    and k: "fst (arrived c sent js ! a) = fst (arrived c sent js ! b)"
  let ?f = "\<lambda>n. concat (map (item_frames h1 c) sent) ! (js ! n)"
  have m: "0 < sg_maxPldLen c" and tick: "\<not> sg_ticksAsREEventNum c" using assms(2) by (simp_all add: good_cfg_def)
  have n: "a < length js" "b < length js" using b by (simp_all add: arrived_def)
  obtain ka ja kb jb where l: "arrived c sent js ! a = (ka, ja)" "arrived c sent js ! b = (kb, jb)" by (metis surj_pair)
  have "frame_event h2 (?f a) = ka" "frame_event h2 (?f b) = kb" "frame_offset h2 (?f b) = 0 \<longleftrightarrow> jb = 0"
    using labelled_frame_read[OF arrived_frame(1)[OF arr n(1), unfolded l] tick m]
      labelled_frame_read[OF arrived_frame(1)[OF arr n(2), unfolded l] tick m] by simp_all
  moreover have "frame_event h2 (?f a) = frame_event h2 (?f b) \<longrightarrow> frame_offset h2 (?f b) \<noteq> 0"
    using arr b n by (simp add: whole_arrival_def first_leads_def Let_def)
  ultimately show "snd (arrived c sent js ! b) \<noteq> 0" using k l by simp
qed

lemma arrived_trace:
  assumes arr: "whole_arrival h1 h2 lb c sent nfd js xs" and "good_cfg c"
  shows "trace_ok h2 lb (sg_maxPldLen c) (sent_event sent) nfd (zip xs (arrived c sent js))"
  unfolding trace_ok_def list_all_length
proof (intro allI impI)
  let ?ls = "arrived c sent js"
  fix n assume n: "n < length (zip xs ?ls)"
  obtain k j where l: "?ls ! n = (k, j)" by (metis surj_pair)
  have nj: "n < length js" using n by (simp add: arrived_def)
  note f = arrived_frame[OF arr nj]
  have c: "carries h2 lb (sg_maxPldLen c) (sent_event sent k) k (xs ! n) j"
    by (rule labelled_frame_carries[OF f(1)[unfolded l] _ _ _ f(2)]) (use assms(2) in \<open>simp_all add: good_cfg_def\<close>)
  show "case zip xs ?ls ! n of (x, k, i) \<Rightarrow> carries h2 lb (sg_maxPldLen c) (sent_event sent k) k x i \<and>
      i < numBuffers (sg_maxPldLen c) (length (sent_event sent k)) \<and>
      in_fd x < nfd \<and> in_alloc x \<and> distinct (frags_of k (zip xs ?ls))"
    using c f(1,3,4) n distinct_frags[OF arrived_labels(2)[OF arr], of k]
    by (simp add: l frags_of_labels[OF arrived_labels(1)[OF arr]] labelled_frame_def)
qed

lemma labels_of:
  assumes "distinct (map sent_key sent)" and "x \<in> set sent"
  shows "{l \<in> set (wire_labels m sent). fst l = sent_key x} = Pair (sent_key x) ` {..<numBuffers m (length (qi_event (snd x)))}"
proof -
  have y: "y = x" if "y \<in> set sent" "sent_key y = sent_key x" for y
    using assms that by (simp add: distinct_map inj_on_def)
  show ?thesis
  proof (intro equalityI subsetI)
    fix l assume "l \<in> {l \<in> set (wire_labels m sent). fst l = sent_key x}"
    then obtain z j where "z \<in> set sent" "l = (sent_key z, j)" "j < numBuffers m (length (qi_event (snd z)))"
      "sent_key z = sent_key x"
      by (auto simp: set_wire_labels)
    then show "l \<in> Pair (sent_key x) ` {..<numBuffers m (length (qi_event (snd x)))}" using y by blast
  next
    fix l assume "l \<in> Pair (sent_key x) ` {..<numBuffers m (length (qi_event (snd x)))}"
    then show "l \<in> {l \<in> set (wire_labels m sent). fst l = sent_key x}"
      using assms(2) unfolding set_wire_labels by fastforce
  qed
qed

lemma arrived_frags:
  assumes arr: "whole_arrival h1 h2 lb c sent nfd js xs" and "good_cfg c" and x: "x \<in> set sent"
  shows "set (frags_of (sent_key x) (zip xs (arrived c sent js))) = {..<numBuffers (sg_maxPldLen c) (length (qi_event (snd x)))}"
    and "frags_of (sent_key x) (zip xs (arrived c sent js)) \<noteq> []"
    and "hd (frags_of (sent_key x) (zip xs (arrived c sent js))) = 0"
proof -
  let ?m = "sg_maxPldLen c" and ?ls = "arrived c sent js"
  note F = frags_of_labels[OF arrived_labels(1)[OF arr], of "sent_key x"]
  have A: "\<forall>x\<in>set sent. whole_item x" "distinct (map sent_key sent)" and m: "0 < ?m"
    using assms(1,2) by (simp_all add: whole_arrival_def good_cfg_def Let_def)
  show s: "set (frags_of (sent_key x) (zip xs ?ls)) = {..<numBuffers ?m (length (qi_event (snd x)))}"
    unfolding F using labels_of[OF A(2) x] by (simp add: arrived_labels(3)[OF arr] image_image)
  have "qi_event (snd x) \<noteq> []" using A(1) x unfolding whole_item_def by blast
  then have z: "0 < numBuffers ?m (length (qi_event (snd x)))"
    using less_numBuffers[OF m, of 0 "length (qi_event (snd x))"] by simp
  show "frags_of (sent_key x) (zip xs ?ls) \<noteq> []" using s z by (metis empty_iff lessThan_iff list.set(1))
  have "(sent_key x, 0) \<in> set ?ls" using arrived_labels(3)[OF arr] x z by (auto simp: set_wire_labels)
  then show "hd (frags_of (sent_key x) (zip xs ?ls)) = 0"
    unfolding F by (rule hd_frags[OF _ arrived_leads[OF arr assms(2)]])
qed

text \<open>The queue then has each item once, complete, and nothing else.\<close>

lemma wire_delivered:
  assumes arr: "whole_arrival h1 h2 lb c sent nfd js xs" and c: "good_cfg c" and fresh: "fresh_receiver nfd (t, g)"
  shows "\<exists>t' g'. recv_run h2 lb xs (t, g) = Some (t', g') \<and>
    (\<forall>k. k \<notin> sent_key ` set sent \<longrightarrow> queued k g' = []) \<and>
    (\<forall>x\<in>set sent. \<exists>item. queued (sent_key x) g' = [item] \<and>
       item_out item = (map Some (qi_event (snd x)), length (qi_event (snd x)), fst (sent_key x), snd (sent_key x)))"
proof -
  let ?tr = "zip xs (arrived c sent js)" and ?E = "sent_event sent"
  have m: "0 < sg_maxPldLen c" using c by (simp add: good_cfg_def)
  obtain t' g' where run: "recv_run h2 lb xs (t, g) = Some (t', g')"
    and none: "\<And>k. frags_of k ?tr = [] \<Longrightarrow> ?E k \<noteq> [] \<Longrightarrow> queued k g' = []"
    and one: "\<And>k. frags_of k ?tr \<noteq> [] \<Longrightarrow> hd (frags_of k ?tr) = 0 \<Longrightarrow>
      set (frags_of k ?tr) = {..<numBuffers (sg_maxPldLen c) (length (?E k))} \<Longrightarrow>
      \<exists>item. queued k g' = [item] \<and> item_out item = (map Some (?E k), length (?E k), fst k, snd k)"
    using trace_delivered[OF m arrived_trace[OF arr c] fresh] unfolding map_fst_zip[OF arrived_labels(1)[OF arr]] by blast
  have "queued k g' = []" if "k \<notin> sent_key ` set sent" for k
  proof (rule none)
    show "frags_of k ?tr = []"
      unfolding frags_of_labels[OF arrived_labels(1)[OF arr]]
      using that arrived_labels(3)[OF arr] by (auto simp: filter_empty_conv set_wire_labels)
    show "?E k \<noteq> []" using sent_event_other[OF that] by simp
  qed
  moreover have "\<exists>item. queued (sent_key x) g' = [item] \<and>
      item_out item = (map Some (qi_event (snd x)), length (qi_event (snd x)), fst (sent_key x), snd (sent_key x))"
    if x: "x \<in> set sent" for x
  proof -
    have "?E (sent_key x) = qi_event (snd x)"
      by (rule sent_event_key[OF _ x]) (use arr in \<open>simp add: whole_arrival_def Let_def\<close>)
    then show ?thesis using one[OF arrived_frags(2,3)[OF arr c x]] arrived_frags(1)[OF arr c x] by simp
  qed
  ultimately show ?thesis using run by blast
qed

section \<open>Every file is saved\<close>

lemma distinct_queue_keys:
  assumes "\<And>k. length (queued k g) \<le> 1"
  shows "distinct (map item_key (rs_eventQueue g))"
proof (rule ccontr)
  assume "\<not> distinct (map item_key (rs_eventQueue g))"
  then obtain a b where ab: "a < b" "b < length (rs_eventQueue g)"
    "item_key (rs_eventQueue g ! a) = item_key (rs_eventQueue g ! b)"
    by (auto simp: distinct_conv_nth) (metis linorder_neqE_nat)
  let ?q = "rs_eventQueue g" and ?k = "item_key (rs_eventQueue g ! b)"
  have "?q = take b ?q @ ?q ! b # drop (Suc b) ?q" using id_take_nth_drop[OF ab(2)] .
  then have "queued ?k g = filter (\<lambda>i. item_key i = ?k) (take b ?q) @ ?q ! b # filter (\<lambda>i. item_key i = ?k) (drop (Suc b) ?q)"
    unfolding queued_def by (metis (mono_tags, lifting) filter.simps(2) filter_append)
  moreover have "?q ! a \<in> set (filter (\<lambda>i. item_key i = ?k) (take b ?q))"
    using ab by (auto simp: in_set_conv_nth intro: exI[of _ a])
  ultimately have "2 \<le> length (queued ?k g)" by (cases "filter (\<lambda>i. item_key i = ?k) (take b ?q)") auto
  then show False using assms[of ?k] by simp
qed

text \<open>The receiver of such an arrival leaves, in any store of files, the contents of every item under its name.\<close>

lemma transfer_saves:
  assumes arr: "whole_arrival h1 h2 lb c sent nfd js xs" and c: "good_cfg c" and fresh: "fresh_receiver nfd (t, g)"
    and store: "file_store out look intact dir" and v: "intact v"
  shows "\<exists>t' g' turns g'' v'. recv_run h2 lb xs (t, g) = Some (t', g') \<and>
    recvFiles out dir p e turns 0 g' v = Some (0, g'', v') \<and>
    (\<forall>x\<in>set sent. look v' (of_join out dir (final_name p e (qi_eventNum (snd x)) (qi_dataId (snd x)))) =
       Some (map Some (qi_event (snd x))))"
proof -
  obtain t' g' where run: "recv_run h2 lb xs (t, g) = Some (t', g')"
    and none: "\<And>k. k \<notin> sent_key ` set sent \<Longrightarrow> queued k g' = []"
    and one: "\<And>x. x \<in> set sent \<Longrightarrow> \<exists>item. queued (sent_key x) g' = [item] \<and>
      item_out item = (map Some (qi_event (snd x)), length (qi_event (snd x)), fst (sent_key x), snd (sent_key x))"
    using wire_delivered[OF arr c fresh] by blast
  let ?evs = "map item_out (rs_eventQueue g')"
  obtain g'' where save: "recvFiles out dir p e (map (\<lambda>_. (0, False, [])) (rs_eventQueue g')) 0 g' v =
      Some (0, g'', fold (save_event out dir p e) ?evs v)"
    using recvFiles_queue[of out dir p e g' 0 v] by blast
  have "length (queued k g') \<le> 1" for k
    by (cases "k \<in> sent_key ` set sent") (use none one in fastforce)+
  then have "distinct (map item_key (rs_eventQueue g'))" by (rule distinct_queue_keys)
  moreover have "map (\<lambda>(b, n, num, d). (num, d)) ?evs = map item_key (rs_eventQueue g')"
    by (simp add: item_out_def item_key_def)
  ultimately have keys: "distinct (map (\<lambda>(b, n, num, d). (num, d)) ?evs)" by (simp only:)
  have sizes: "\<forall>(b, n, num, d)\<in>set ?evs. 0 < n \<and> length b = n"
  proof (intro ballI)
    fix ev assume "ev \<in> set ?evs"
    then obtain i where i: "i \<in> set (rs_eventQueue g')" "ev = item_out i" by auto
    then have q: "i \<in> set (queued (item_key i) g')" by (simp add: queued_def)
    then have "item_key i \<in> sent_key ` set sent" using none[of "item_key i"] by (metis empty_iff list.set(1))
    then obtain x where x: "x \<in> set sent" "sent_key x = item_key i" by (metis imageE)
    then have "item_out i = (map Some (qi_event (snd x)), length (qi_event (snd x)), fst (sent_key x), snd (sent_key x))"
      using one[OF x(1)] q by auto
    moreover have "qi_event (snd x) \<noteq> []" using arr x(1) by (auto simp: whole_arrival_def whole_item_def Let_def)
    ultimately show "case ev of (b, n, num, d) \<Rightarrow> 0 < n \<and> length b = n" using i(2) by simp
  qed
  have "look (fold (save_event out dir p e) ?evs v) (of_join out dir (final_name p e (qi_eventNum (snd x)) (qi_dataId (snd x)))) =
      Some (map Some (qi_event (snd x)))" if x: "x \<in> set sent" for x
  proof (rule file_store.save_all[OF store v sizes keys])
    obtain item where item: "queued (sent_key x) g' = [item]" "item_out item =
        (map Some (qi_event (snd x)), length (qi_event (snd x)), qi_eventNum (snd x), qi_dataId (snd x))"
      using one[OF x] by (auto simp: sent_key_def)
    have "item \<in> set (queued (sent_key x) g')" by (simp add: item(1))
    then have "item \<in> set (rs_eventQueue g')" unfolding queued_def by simp
    then show "(map Some (qi_event (snd x)), length (qi_event (snd x)), qi_eventNum (snd x), qi_dataId (snd x)) \<in> set ?evs"
      unfolding item(2)[symmetric] by simp
  qed
  then show ?thesis using run save by blast
qed

text \<open>What the sending half puts on the wire is such a list of items.\<close>

lemma sent_items_arrive:
  assumes "\<forall>i\<in>set (map snd sent). qi_bytes i = word_of_nat (length (qi_event i)) \<and> qi_dataId i = sg_dataId c"
    and "distinct (map (qi_eventNum \<circ> snd) sent)"
    and "mset (map (qi_event \<circ> snd) sent) = mset (List.map_filter content paths)"
    and "\<forall>p\<in>set paths. \<forall>d. content p = Some d \<longrightarrow> d \<noteq> [] \<and> length d < 2 ^ 32"
    and "distinct js" and "set js = {..<length (concat (map (item_frames h1 c) sent))}"
    and "first_leads h2 (map ((!) (concat (map (item_frames h1 c) sent))) js)"
    and "arrives lb (concat (map (item_frames h1 c) sent)) nfd js xs"
  shows "whole_arrival h1 h2 lb c sent nfd js xs"
proof -
  have "\<forall>x\<in>set sent. whole_item x"
  proof
    fix x assume x: "x \<in> set sent"
    have "qi_event (snd x) \<in> set (map (qi_event \<circ> snd) sent)" using x by simp
    then have "qi_event (snd x) \<in> set (List.map_filter content paths)" using assms(3) by (metis set_mset_mset)
    then have "\<exists>p\<in>set paths. content p = Some (qi_event (snd x))" by (auto simp: List.map_filter_def)
    then show "whole_item x" using assms(1,4) x by (auto simp: whole_item_def)
  qed
  moreover have "distinct (map sent_key sent)"
    using assms(2) by (auto simp: distinct_map inj_on_def sent_key_def)
  ultimately show ?thesis using assms(5-8) by (simp add: whole_arrival_def Let_def)
qed

section \<open>Large files and full queues\<close>

text \<open>
  The queue keeps the size of an event in 32 bits, so of a file of \<open>2 ^ 32\<close>
  bytes or more only the first part, its size modulo \<open>2 ^ 32\<close>, is sent, and the offer still succeeds.
\<close>

lemma big_file_cut_short:
  assumes "0 < sg_maxPldLen c" and "sg_numSendSockets c \<noteq> 0" and "sg_queue s = []"
    and "offer_file c (fd, length d, d) s = (r, s1)"
    and "seg_thread_step wire_net h isSel c now lsb rnd cqes s1 w = Some (s2, w2)"
  shows "r = Ok 0 \<and> (\<exists>frames. w2 = w @ frames \<and>
    concat (map (drop (sizeof_LBHdr + sizeof_REHdr)) frames) = take (length d mod 2 ^ 32) d)"
proof -
  have o: "length (sg_queue s) < SEG_QSIZE" by (simp add: assms(3) SEG_QSIZE_def)
  obtain i where i: "r = Ok 0" "sg_queue s1 = [i]" "qi_event i = d" "qi_bytes i = word_of_nat (length d)"
    using assms(3,4) o by (auto simp: offer_file_cases Let_def)
  have u: "unat (qi_bytes i) = length d mod 2 ^ 32" using i(4) by (simp add: unat_of_nat)
  have "w2 = w @ item_frames h c ((now, lsb, rnd), i)"
    by (rule seg_thread_step_sends(1)[OF assms(1,2) i(2) assms(5)])
  moreover have "concat (map (drop (sizeof_LBHdr + sizeof_REHdr)) (item_frames h c ((now, lsb, rnd), i))) = take (unat (qi_bytes i)) d"
    unfolding item_frames_def prod.case i(3)
    by (rule seg_frames_payloads[OF assms(1)]) (simp_all add: u sent_headers_length)
  ultimately show ?thesis using i(1) u by simp
qed

lemma offer_loop_returns:
  assumes "length (sg_queue s) < SEG_QSIZE \<or> (\<exists>k<length envs. \<forall>s. length (sg_queue ((envs ! k) s)) < SEG_QSIZE)"
  shows "\<exists>s1. offer_loop c m envs s = Some s1 \<and> sg_queue s1 \<noteq> [] \<and> qi_event (last (sg_queue s1)) = snd (snd m)"
  using assms
proof (induction envs arbitrary: s)
  case Nil
  obtain fd n d where m: "m = (fd, n, d)" by (cases m) auto
  then show ?case using Nil by (simp add: offer_file_cases Let_def)
next
  case (Cons env envs)
  obtain fd n d where m: "m = (fd, n, d)" by (cases m) auto
  show ?case
  proof (cases "length (sg_queue s) < SEG_QSIZE")
    case True
    then show ?thesis by (simp add: m offer_file_cases Let_def)
  next
    case False
    let ?s1 = "s\<lparr>sg_userEventNum := sg_userEventNum s + 1\<rparr>"
    obtain k where k: "k < length (env # envs)" "\<forall>s. length (sg_queue (((env # envs) ! k) s)) < SEG_QSIZE"
      using Cons.prems False by blast
    have "length (sg_queue (env ?s1)) < SEG_QSIZE \<or> (\<exists>k<length envs. \<forall>s. length (sg_queue ((envs ! k) s)) < SEG_QSIZE)"
      using k by (cases k) auto
    from Cons.IH[OF this] show ?thesis using False by (simp add: m offer_file_cases Let_def)
  qed
qed

text \<open>
  \<open>sendFile\<close> does not offer for ever: a file that can be mapped is queued as soon as one of the offers
  finds room, and the call returns 0; one that cannot is an error and the queue is not touched.
\<close>

lemma sendFile_returns:
  assumes "length (sg_queue s) < SEG_QSIZE \<or> (\<exists>k<length envs. \<forall>s. length (sg_queue ((envs ! k) s)) < SEG_QSIZE)"
  shows "\<exists>r s1. sendFile files c path num envs s v = Some (r, s1, snd (map_file files path v)) \<and>
    (case fst (map_file files path v) of
       Inl e \<Rightarrow> r = Inl e \<and> s1 = s
     | Inr (fd, n, d) \<Rightarrow> r = Ok 0 \<and> sg_queue s1 \<noteq> [] \<and> qi_event (last (sg_queue s1)) = d)"
proof (cases "map_file files path v")
  case (Pair res v1)
  show ?thesis
  proof (cases res)
    case (Inl e)
    then show ?thesis by (simp add: sendFile_def Pair)
  next
    case (Inr m)
    obtain fd n d where m: "m = (fd, n, d)" by (cases m) auto
    obtain s1 where "offer_loop c m envs s = Some s1" "sg_queue s1 \<noteq> []" "qi_event (last (sg_queue s1)) = snd (snd m)"
      using offer_loop_returns[OF assms] by blast
    then show ?thesis by (simp add: sendFile_def Pair Inr m del: offer_loop.simps)
  qed
qed

end
