(* ===== verification/E2SAR_Admin.thy ===== *)
theory E2SAR_Admin
  imports E2SAR_ControlPlane E2SAR_Options
begin

text \<open>
  The administration program \<^verbatim>\<open>bin/lbadm.cpp\<close>: the checks of its options, the commands with what they
  print and return, the parsing of permissions and token selectors, the time series file, and the
  program from its parsed options to its exit code.

  Parsing of durations and time stamps and the printing of floats, durations and protocol messages
  (\<open>rendering\<close>) are parameters.  Output is the text written to the standard output.
\<close>

section \<open>Options\<close>

definition lbadm_commands :: "string list" where
  "lbadm_commands = [''reserve'', ''free'', ''version'', ''register'', ''deregister'', ''status'', ''state'',
     ''overview'', ''addsenders'', ''removesenders'', ''timeseries'', ''createtoken'', ''listtokenpermissions'',
     ''listchildtokens'', ''revoketoken'']"

definition lbadm_checks :: "option_check list" where
  "lbadm_checks =
     [Requires ''reserve'' ''lbname'', Requires ''reserve'' ''duration'', Requires ''register'' ''name'',
      Requires ''register'' ''port'', Requires ''register'' ''weight'', Requires ''register'' ''count'',
      Requires ''register'' ''minfactor'', Requires ''register'' ''maxfactor'', Requires ''state'' ''queue'',
      Requires ''state'' ''ctrl'', Requires ''state'' ''ready'', Requires ''timeseries'' ''lbpath'',
      Requires ''timeseries'' ''csv'', Requires ''createtoken'' ''tokenname'',
      Requires ''createtoken'' ''permission'', Requires ''listtokenpermissions'' ''tokenid'',
      Requires ''listchildtokens'' ''tokenid'', Requires ''revoketoken'' ''tokenid'',
      Conflicting ''root'' ''novalidate'', Conflicting ''ipv4'' ''ipv6''] @
     concat (map (\<lambda>c1. map (Conflicting c1) (filter (\<lambda>c2. c1 \<noteq> c2) lbadm_commands)) lbadm_commands)"

definition lbadm_token_type :: "variables_map \<Rightarrow> TokenType" where
  "lbadm_token_type vm =
     (if vm_count vm ''reserve'' \<or> vm_count vm ''free'' \<or> vm_count vm ''status'' \<or> vm_count vm ''version'' \<or>
         vm_count vm ''overview'' \<or> vm_count vm ''timeseries'' \<or> vm_count vm ''createtoken'' \<or>
         vm_count vm ''listtokenpermissions'' \<or> vm_count vm ''listchildtokens'' \<or> vm_count vm ''revoketoken''
      then TT_admin
      else if vm_count vm ''register'' \<or> vm_count vm ''addsenders'' \<or> vm_count vm ''removesenders'' then TT_instance
      else if vm_count vm ''deregister'' \<or> vm_count vm ''state'' then TT_session
      else TT_admin)"

section \<open>Permissions and token selectors\<close>

fun find_char :: "char \<Rightarrow> string \<Rightarrow> nat option" where
  "find_char c [] = None"
| "find_char c (x # xs) = (if x = c then Some 0 else map_option Suc (find_char c xs))"

definition resourceTypeMap :: "(string \<times> TokenType) list" where
  "resourceTypeMap = map (\<lambda>tt. (tt_toString tt, tt)) [TT_all, TT_admin, TT_instance, TT_session]"

definition permissionTypeMap :: "(string \<times> TokenPermission) list" where
  "permissionTypeMap = map (\<lambda>tp. (tp_toString tp, tp)) [TP_read_only, TP_register, TP_reserve, TP_update]"

fun tpAsIdx :: "TokenPermission \<Rightarrow> nat" where
  "tpAsIdx TP_read_only = 0"
| "tpAsIdx TP_register = 1"
| "tpAsIdx TP_reserve = 2"
| "tpAsIdx TP_update = 3"

definition token_perm :: "TokenType \<Rightarrow> string \<Rightarrow> TokenPermission \<Rightarrow> TokenPerm" where
  "token_perm tt rid tp = \<lparr>pm_resourceType = word_of_nat (ttAsIdx tt), pm_resourceId = rid,
     pm_permission = word_of_nat (tpAsIdx tp)\<rparr>"

text \<open>The second search starts behind the first colon; when there is none it starts at the front again.\<close>

definition parse_permission :: "string \<Rightarrow> TokenPerm result" where
  "parse_permission s =
     (let bad = Err ParameterError (''Invalid permission format: '' @ quoted s @
                  ''. Expected format: RESOURCE_TYPE:RESOURCE_ID:PERMISSION_TYPE'')
      in case find_char CHR '':'' s of
           None \<Rightarrow> bad
         | Some first \<Rightarrow>
             (case find_char CHR '':'' (drop (first + 1) s) of
                None \<Rightarrow> bad
              | Some second \<Rightarrow>
                  let res_type = take first s;
                      res_id = take second (drop (first + 1) s);
                      perm_type = drop (first + second + 2) s
                  in (case map_of resourceTypeMap res_type of
                        None \<Rightarrow> Err ParameterError (''Invalid resource type: '' @ quoted res_type @
                          ''. Valid types: ALL, LOAD_BALANCER, RESERVATION, SESSION'')
                      | Some tt \<Rightarrow>
                          (case map_of permissionTypeMap perm_type of
                             None \<Rightarrow> Err ParameterError (''Invalid permission type: '' @ quoted perm_type @
                               ''. Valid types: READ_ONLY, REGISTER, RESERVE, UPDATE'')
                           | Some tp \<Rightarrow> Ok (token_perm tt res_id tp)))))"

fun parsePermissions :: "string list \<Rightarrow> TokenPerm list result" where
  "parsePermissions [] = Ok []"
| "parsePermissions (s # ss) =
     (case parse_permission s of
        Inl e \<Rightarrow> Inl e
      | Inr p \<Rightarrow> (case parsePermissions ss of Inl e \<Rightarrow> Inl e | Inr ps \<Rightarrow> Ok (p # ps)))"

text \<open>
  \<^verbatim>\<open>std::stoul\<close> on digits fails above 64 bits; what it gives is narrowed to 32 bits.
\<close>

definition createTokenSelector :: "string \<Rightarrow> TokenSelector" where
  "createTokenSelector tokenid =
     (if tokenid \<noteq> [] \<and> list_all is_digit tokenid \<and> digits_value tokenid < 2 ^ 64
      then ById (word_of_nat (digits_value tokenid))
      else ByToken tokenid)"

text \<open>The text form of a permission, as \<open>listTokenPermissions\<close> prints it.\<close>

definition perm_spec :: "TokenType \<Rightarrow> string \<Rightarrow> TokenPermission \<Rightarrow> string" where
  "perm_spec tt rid tp = tt_toString tt @ '':'' @ rid @ '':'' @ tp_toString tp"

lemma find_char_append:
  "c \<notin> set xs \<Longrightarrow> find_char c (xs @ c # ys) = Some (length xs)"
  by (induction xs) auto

lemma tt_toString_no_colon: "CHR '':'' \<notin> set (tt_toString tt)"
  by (cases tt) simp_all

lemma resourceTypeMap_toString: "map_of resourceTypeMap (tt_toString tt) = Some tt"
  by (cases tt) (simp_all add: resourceTypeMap_def)

lemma permissionTypeMap_toString: "map_of permissionTypeMap (tp_toString tp) = Some tp"
  by (cases tp) (simp_all add: permissionTypeMap_def)

lemma parse_perm_spec:
  assumes "CHR '':'' \<notin> set rid"
  shows "parse_permission (perm_spec tt rid tp) = Ok (token_perm tt rid tp)"
  using find_char_append[OF tt_toString_no_colon, of tt "rid @ '':'' @ tp_toString tp"]
    find_char_append[OF assms, of "tp_toString tp"]
  by (simp add: parse_permission_def perm_spec_def resourceTypeMap_toString permissionTypeMap_toString Let_def)

lemma selector_of_id: "n < 2 ^ 64 \<Longrightarrow> createTokenSelector (nat_str n) = ById (word_of_nat n)"
  by (simp add: createTokenSelector_def nat_str_digits digits_value_nat_str)

section \<open>The time series file\<close>

text \<open>How the program prints what is not text: floats, durations, time stamps and protocol messages.\<close>

record ('ws) rendering =
  rn_float :: "rat \<Rightarrow> string"
  rn_duration :: "int \<Rightarrow> string"
  rn_stamp :: "time_stamp \<Rightarrow> string"
  rn_worker :: "'ws \<Rightarrow> string"

definition int_str :: "int \<Rightarrow> string" where
  "int_str i = (if i < 0 then CHR ''-'' # nat_str (nat (- i)) else nat_str (nat i))"

definition endl :: string where
  "endl = [CHR 0x0A]"

text \<open>
  A row has two cells per series: value and time stamp, or nothing once the series is over.  A series
  of a reply that has samples is one of floats or of integers (\<open>collect_series\<close>), \<open>NoTS\<close> does not occur.
\<close>

definition csv_header_cells :: "TimeseriesData \<Rightarrow> string" where
  "csv_header_cells d =
     sd_path d @ (if sd_unit d \<noteq> [] then ''('' @ sd_unit d @ ''),'' else '','') @ ''Timestamp(ms),''"

fun series_length :: "ts_samples \<Rightarrow> nat" where
  "series_length (FloatTS xs) = length xs"
| "series_length (IntTS xs) = length xs"
| "series_length NoTS = 0"

fun csv_cells :: "'ws rendering \<Rightarrow> nat \<Rightarrow> ts_samples \<Rightarrow> string" where
  "csv_cells rn i (FloatTS xs) =
     (if i < length xs then rn_float rn (snd (xs ! i)) @ '','' @ int_str (fst (xs ! i)) @ '','' else '',,'')"
| "csv_cells rn i (IntTS xs) =
     (if i < length xs then int_str (snd (xs ! i)) @ '','' @ int_str (fst (xs ! i)) @ '','' else '',,'')"
| "csv_cells rn i NoTS = []"

definition csv_row :: "'ws rendering \<Rightarrow> TimeseriesData list \<Rightarrow> nat \<Rightarrow> string" where
  "csv_row rn td i = concat (map (\<lambda>d. csv_cells rn i (sd_timeseries d)) td)"

text \<open>The loop writes a row and stops after the first one no series contributed to.\<close>

definition csv_finished :: "TimeseriesData list \<Rightarrow> nat \<Rightarrow> bool" where
  "csv_finished td i \<longleftrightarrow> list_all (\<lambda>d. series_length (sd_timeseries d) \<le> i) td"

definition longest_series :: "TimeseriesData list \<Rightarrow> nat" where
  "longest_series td = fold max (map (\<lambda>d. series_length (sd_timeseries d)) td) 0"

lemma fold_max_le: "fold max xs (n::nat) \<le> k \<longleftrightarrow> n \<le> k \<and> list_all (\<lambda>x. x \<le> k) xs"
  by (induction xs arbitrary: n) auto

lemma csv_finished_longest: "csv_finished td i \<longleftrightarrow> longest_series td \<le> i"
  by (simp add: csv_finished_def longest_series_def fold_max_le list_all_iff)

function csv_rows :: "'ws rendering \<Rightarrow> TimeseriesData list \<Rightarrow> nat \<Rightarrow> string list" where
  "csv_rows rn td i = csv_row rn td i # (if csv_finished td i then [] else csv_rows rn td (Suc i))"
  by pat_completeness auto
termination
  by (relation "measure (\<lambda>(rn, td, i). longest_series td - i)") (auto simp: csv_finished_longest)

declare csv_rows.simps [simp del]

definition csv_lines :: "'ws rendering \<Rightarrow> TimeseriesData list \<Rightarrow> string list" where
  "csv_lines rn td = concat (map csv_header_cells td) # csv_rows rn td 0"

definition csv_file :: "'ws rendering \<Rightarrow> TimeseriesData list \<Rightarrow> string" where
  "csv_file rn td = concat (map (\<lambda>l. l @ endl) (csv_lines rn td))"

lemma csv_rows_all: "i \<le> longest_series td \<Longrightarrow> csv_rows rn td i = map (csv_row rn td) [i..<Suc (longest_series td)]"
proof (induction "longest_series td - i" arbitrary: i)
  case 0
  then show ?case by (subst csv_rows.simps) (simp add: csv_finished_longest)
next
  case (Suc n)
  then have "csv_rows rn td (Suc i) = map (csv_row rn td) [Suc i..<Suc (longest_series td)]" by simp
  then show ?case using Suc by (subst csv_rows.simps) (simp add: csv_finished_longest upt_rec del: upt_Suc)
qed

definition commas :: "string \<Rightarrow> nat" where
  "commas s = length (filter (\<lambda>c. c = CHR '','') s)"

lemma commas_append [simp]: "commas (s @ t) = commas s + commas t"
  by (simp add: commas_def)

lemma commas_Cons [simp]: "commas (c # s) = (if c = CHR '','' then 1 else 0) + commas s"
  by (simp add: commas_def)

lemma commas_Nil [simp]: "commas [] = 0"
  by (simp add: commas_def)

lemma commas_nat_str: "commas (nat_str n) = 0"
proof -
  have "\<not> is_digit CHR '',''" by (simp add: is_digit_def)
  then show ?thesis using nat_str_digits[of n]
    by (auto simp: commas_def filter_empty_conv list_all_iff)
qed

lemma commas_int_str [simp]: "commas (int_str i) = 0"
  by (simp add: int_str_def commas_nat_str)

lemma commas_csv_row:
  assumes "\<And>x. commas (rn_float rn x) = 0" and "list_all (\<lambda>d. sd_timeseries d \<noteq> NoTS) td"
  shows "commas (csv_row rn td i) = 2 * length td"
  using assms(2)
proof (induction td)
  case Nil
  then show ?case by (simp add: csv_row_def)
next
  case (Cons d td)
  then show ?case by (cases "sd_timeseries d") (simp_all add: csv_row_def assms(1))
qed

section \<open>Commands\<close>

text \<open>A command makes one call, prints, and folds every error into one of its own.\<close>

type_synonym 'w command = "LBManager \<Rightarrow> 'w \<Rightarrow> (int result \<times> string) \<times> LBManager \<times> 'w"

definition report ::
  "string \<Rightarrow> string \<Rightarrow> ('a \<Rightarrow> LBManager \<Rightarrow> string) \<Rightarrow> 'a result \<times> LBManager \<times> 'w \<Rightarrow>
     (int result \<times> string) \<times> LBManager \<times> 'w" where
  "report what out ok_out x =
     (case x of
        (Inl e, m, w) \<Rightarrow> ((Err RPCError (what @ msg e), out), m, w)
      | (Inr v, m, w) \<Rightarrow> ((Ok 0, out @ ok_out v m), m, w))"

definition cp_failed :: string where
  "cp_failed = ''unable to connect to Load Balancer CP, error ''"

definition contacting :: "string \<Rightarrow> LBManager \<Rightarrow> string" where
  "contacting uri m = ''   Contacting: '' @ uri @ '' using address: '' @ lm_addr_string m @ endl"

definition spaced :: "string list \<Rightarrow> string" where
  "spaced ss = concat (map (\<lambda>s. s @ '' '') ss)"

definition export_uri :: "host_ops \<Rightarrow> LBManager \<Rightarrow> string" where
  "export_uri h m = ''export EJFAT_URI='' @ quoted (uri_to_string h TT_instance (lm_cpuri m)) @ endl"

definition success_line :: string where
  "success_line = ''Success.'' @ endl"

definition lb_name_line :: "LBManager \<Rightarrow> string" where
  "lb_name_line m = ''   LB Name: '' @
     (if uri_lbName (lm_cpuri m) = [] then ''not set'' else uri_lbId (lm_cpuri m)) @ endl"

definition cmd_reserveLB ::
  "host_ops \<Rightarrow> ('w, 'ws) lb_stub \<Rightarrow> 'ws rendering \<Rightarrow> (string \<Rightarrow> int option) \<Rightarrow> int \<Rightarrow> int \<Rightarrow>
     string \<Rightarrow> string list \<Rightarrow> string \<Rightarrow> int \<Rightarrow> bool \<Rightarrow> 'w command" where
  "cmd_reserveLB h stub rn duration_from_string dual_stack now lbname senders duration ipfam suppress m w =
     (case duration_from_string duration of
        None \<Rightarrow> ((Err ParameterError (''unable to convert duration string '' @ duration), []), m, w)
      | Some d \<Rightarrow>
          report cp_failed
            (if suppress then [] else
               ''Reserving a new load balancer '' @ endl @ contacting (uri_string h (lm_cpuri m)) m @
               ''   LB Name: '' @ lbname @ endl @ ''   Allowed senders: '' @ spaced senders @ endl @
               ''   Duration: '' @ rn_duration rn d @ endl)
            (\<lambda>fpga m'. if suppress then export_uri h m' else
               ''Success. FPGA ID is (for metrics): '' @ nat_str (unat fpga) @ endl @
               ''Updated URI after reserve with instance token: '' @ uri_to_string h TT_instance (lm_cpuri m') @ endl)
            (reserveLB_duration h stub dual_stack now lbname d senders ipfam m w))"

definition cmd_freeLB :: "host_ops \<Rightarrow> ('w, 'ws) lb_stub \<Rightarrow> string \<Rightarrow> 'w command" where
  "cmd_freeLB h stub lbid m w =
     report cp_failed
       (''Freeing a load balancer '' @ endl @ contacting (uri_to_string h TT_admin (lm_cpuri m)) m @
        ''   LB ID: '' @ (if lbid = [] then uri_lbId (lm_cpuri m) else lbid) @ endl)
       (\<lambda>_ _. success_line)
       (if lbid = [] then freeLB stub m w else freeLB_id stub lbid m w)"

text \<open>
  \<^verbatim>\<open>ip::make_address\<close> throws on a bad address, which is \<open>Inl\<close> with what was printed so far.  The automatic variant passes
  \<open>keeplbhdr\<close> where \<open>registerWorkerSelf\<close> has its parameter \<open>v6\<close>; \<open>keep_lb_header\<close> keeps its default.
\<close>

definition cmd_registerWorker ::
  "host_ops \<Rightarrow> route_ops \<Rightarrow> ('w, 'ws) lb_stub \<Rightarrow> 'ws rendering \<Rightarrow> string \<Rightarrow> string \<Rightarrow> u16 \<Rightarrow> rat \<Rightarrow> u16 \<Rightarrow> rat \<Rightarrow> rat \<Rightarrow>
     bool \<Rightarrow> bool \<Rightarrow> LBManager \<Rightarrow> 'w \<Rightarrow> string + (int result \<times> string) \<times> LBManager \<times> 'w" where
  "cmd_registerWorker h r stub rn node_name node_ip node_port weight src_cnt min_factor max_factor keeplbhdr suppress m w =
     (let out = (if suppress then [] else
            ''Registering a worker '' @ endl @ contacting (uri_to_string h TT_instance (lm_cpuri m)) m @
            ''   Worker details: '' @ node_name @ '' at '' @ node_ip @ '':'' @ nat_str (unat node_port) @ endl @
            (if node_ip = [] then ''      Will attempt to determine node IP automatically'' @ endl else []) @
            ''   CP parameters: w='' @ rn_float rn weight @ '',  source_count='' @ nat_str (unat src_cnt) @ endl);
          handleError = report cp_failed out
            (\<lambda>_ m'. if suppress then export_uri h m' else
               success_line @
               ''Updated URI after register with session token: '' @ uri_to_string h TT_session (lm_cpuri m') @ endl @
               ''Session id is: '' @ uri_sessionId (lm_cpuri m') @ endl)
      in if node_ip \<noteq> [] then
           (case make_address h node_ip of
              None \<Rightarrow> Inl out
            | Some a \<Rightarrow> Inr (handleError
                (registerWorker h stub node_name (a, node_port) weight src_cnt min_factor max_factor keeplbhdr m w)))
         else Inr (handleError
           (registerWorkerSelf h r stub node_name node_port weight src_cnt min_factor max_factor keeplbhdr False m w)))"

definition cmd_deregisterWorker :: "host_ops \<Rightarrow> ('w, 'ws) lb_stub \<Rightarrow> 'w command" where
  "cmd_deregisterWorker h stub m w =
     report cp_failed
       (''De-Registering a worker '' @ endl @ contacting (uri_to_string h TT_session (lm_cpuri m)) m)
       (\<lambda>_ _. success_line) (deregisterWorker stub m w)"

definition lb_details :: "'ws rendering \<Rightarrow> 'ws LBStatus \<Rightarrow> string" where
  "lb_details rn s = ''LB details: expiresat='' @ rn_stamp rn (ls_expiresAt s) @ '', currentepoch='' @
     nat_str (unat (ls_currentEpoch s)) @ '', predictedeventnum='' @
     nat_str (unat (ls_currentPredictedEventNumber s)) @ endl"

definition cmd_getLBStatus :: "host_ops \<Rightarrow> ('w, 'ws) lb_stub \<Rightarrow> 'ws rendering \<Rightarrow> string \<Rightarrow> 'w command" where
  "cmd_getLBStatus h stub rn lbid m w =
     report cp_failed
       (''Getting LB Status '' @ endl @ contacting (uri_to_string h TT_session (lm_cpuri m)) m @
        ''   LB ID: '' @ (if lbid = [] then uri_lbId (lm_cpuri m) else lbid) @ endl)
       (\<lambda>rep _. let s = asLBStatus rep in
          lb_details rn s @ ''Registered senders: '' @ spaced (ls_senderAddresses s) @ endl @
          ''Registered workers: '' @ endl @ concat (map (\<lambda>x. rn_worker rn x @ endl) (ls_workers s)) @ endl)
       (getLBStatus_id stub lbid m w)"

definition overview_text :: "host_ops \<Rightarrow> 'ws rendering \<Rightarrow> 'ws OverviewEntry \<Rightarrow> string" where
  "overview_text h rn e =
     ''LB '' @ ov_name e @ '' ID: '' @ ov_lbid e @ '' FPGA LBID: '' @ nat_str (unat (ov_fpgaLBId e)) @
     '' Data Min Port: '' @ nat_str (unat (ov_dataMinPort e)) @ '' Data Max Port: '' @
     nat_str (unat (ov_dataMaxPort e)) @ endl @
     ''  Sync on: '' @ addr_str h (fst (ov_syncIPv4AndPort e)) @ '':'' @ nat_str (unat (snd (ov_syncIPv4AndPort e))) @ '' '' @
     addr_str h (fst (ov_syncIPv6AndPort e)) @ '':'' @ nat_str (unat (snd (ov_syncIPv6AndPort e))) @ endl @
     ''  Registered sender addresses: '' @ spaced (ls_senderAddresses (ov_status e)) @ endl @
     ''  Registered workers: '' @ endl @
     concat (map (\<lambda>x. ''  '' @ rn_worker rn x @ endl) (ls_workers (ov_status e))) @ endl @
     ''  '' @ lb_details rn (ov_status e)"

text \<open>\<open>asOverviewMessage\<close> terminates the program on an address it cannot parse, which is \<open>Inl\<close>.\<close>

definition cmd_overview ::
  "host_ops \<Rightarrow> ('w, 'ws) lb_stub \<Rightarrow> 'ws rendering \<Rightarrow> LBManager \<Rightarrow> 'w \<Rightarrow>
     string \<times> 'w + (int result \<times> string) \<times> LBManager \<times> 'w" where
  "cmd_overview h stub rn m w =
     (let out = ''Getting Overview '' @ endl @ contacting (uri_to_string h TT_session (lm_cpuri m)) m
      in case lb_overview stub m w of
           (Inl e, m', w') \<Rightarrow> Inr ((Err RPCError (cp_failed @ msg e), out), m', w')
         | (Inr rep, m', w') \<Rightarrow>
             (case asOverviewMessage h rep of
                None \<Rightarrow> Inl (out, w')
              | Some es \<Rightarrow> Inr ((Ok 0, out @ concat (map (overview_text h rn) es)), m', w')))"

definition cmd_sendState :: "host_ops \<Rightarrow> ('w, 'ws) lb_stub \<Rightarrow> int \<Rightarrow> rat \<Rightarrow> rat \<Rightarrow> bool \<Rightarrow> WorkerStats \<Rightarrow> 'w command" where
  "cmd_sendState h stub now fill_percent ctrl_signal is_ready stats m w =
     report cp_failed
       (''Sending Worker State '' @ endl @ contacting (uri_to_string h TT_session (lm_cpuri m)) m @ lb_name_line m)
       (\<lambda>_ _. success_line)
       (sendState_stats stub now fill_percent ctrl_signal is_ready stats m w)"

definition sender_list :: "string list \<Rightarrow> string" where
  "sender_list senders =
     (if senders \<noteq> [] then ''   Sender list: '' @ spaced senders @ endl
      else ''   Will attempt to determine sender IP automatically'' @ endl)"

definition cmd_removeSenders ::
  "host_ops \<Rightarrow> route_ops \<Rightarrow> ('w, 'ws) lb_stub \<Rightarrow> string list \<Rightarrow> 'w command" where
  "cmd_removeSenders h r stub senders m w =
     report cp_failed
       (''Removing senders to CP '' @ endl @ contacting (uri_to_string h TT_session (lm_cpuri m)) m @ lb_name_line m @
        ''   Sender list: '' @ spaced senders @ sender_list senders)
       (\<lambda>_ _. success_line)
       (if senders \<noteq> [] then removeSenders h stub senders m w else removeSenderSelf h r stub False m w)"

definition cmd_addSenders ::
  "host_ops \<Rightarrow> route_ops \<Rightarrow> ('w, 'ws) lb_stub \<Rightarrow> string list \<Rightarrow> 'w command" where
  "cmd_addSenders h r stub senders m w =
     report ''Unable to add sender(s), error ''
       (''Adding senders to CP '' @ endl @ contacting (uri_to_string h TT_session (lm_cpuri m)) m @ lb_name_line m @
        sender_list senders)
       (\<lambda>_ _. success_line)
       (if senders \<noteq> [] then addSenders h stub senders m w else addSenderSelf h r stub False m w)"

definition cmd_version :: "host_ops \<Rightarrow> ('w, 'ws) lb_stub \<Rightarrow> 'w command" where
  "cmd_version h stub m w =
     report cp_failed
       (''Getting load balancer version '' @ endl @ contacting (uri_string h (lm_cpuri m)) m)
       (\<lambda>(commit, build, compat) _. success_line @ ''Reported version: '' @ endl @
          CHR 0x09 # ''Commit: '' @ commit @ endl @ CHR 0x09 # ''Build: '' @ build @ endl @
          CHR 0x09 # ''CompatTag: '' @ compat @ endl)
       (lb_version stub m w)"

text \<open>The file is part of the outcome: its text, when it could be opened and the call succeeded.\<close>

definition cmd_timeseries ::
  "host_ops \<Rightarrow> ('w, 'ws) lb_stub \<Rightarrow> 'ws rendering \<Rightarrow> (string \<Rightarrow> time_stamp option) \<Rightarrow> bool \<Rightarrow>
     string \<Rightarrow> string \<Rightarrow> string \<Rightarrow> LBManager \<Rightarrow> 'w \<Rightarrow> ((int result \<times> string) \<times> LBManager \<times> 'w) \<times> string option" where
  "cmd_timeseries h stub rn stamp_from_string csv_opens lbpath since csvsaveto m w =
     (let out = ''Requesting timeseries '' @ endl @ contacting (uri_to_string h TT_session (lm_cpuri m)) m @
            lb_name_line m @ ''   Query  path: '' @ lbpath @ endl @ ''   Since: '' @ since @ endl @
            ''   Save to CSV: '' @ csvsaveto @ endl
      in case stamp_from_string since of
           None \<Rightarrow> (((Err ParameterError (''unable to convert into timestamp: '' @ since), out), m, w), None)
         | Some ts \<Rightarrow>
             (case lb_timeseries stub lbpath ts m w of
                (Inl e, m', w') \<Rightarrow>
                  (((Err RPCError (''unable to connect to retrieve timeseries, error '' @ msg e), out), m', w'), None)
              | (Inr (_, td), m', w') \<Rightarrow>
                  let out' = out @ ''Success. Saving timeseries to CSV.'' @ endl
                  in if csv_opens then (((Ok 0, out'), m', w'), Some (csv_file rn td))
                     else (((Err SystemError (''unable to write timeseries file '' @ csvsaveto), out'), m', w'), None)))"

definition perm_line :: "TokenPerm \<Rightarrow> string" where
  "perm_line p = ''      ResourceType='' @ nat_str (unat (pm_resourceType p)) @ '', ResourceId='' @
     (if pm_resourceId p = [] then ''(none)'' else pm_resourceId p) @ '', Permission='' @
     nat_str (unat (pm_permission p)) @ endl"

definition cmd_createToken :: "host_ops \<Rightarrow> ('w, 'ws) lb_stub \<Rightarrow> string \<Rightarrow> TokenPerm list \<Rightarrow> bool \<Rightarrow> 'w command" where
  "cmd_createToken h stub name permissions suppress m w =
     report ''unable to create token, error ''
       (if suppress then [] else
          ''Creating a new token '' @ endl @ contacting (uri_to_string h TT_admin (lm_cpuri m)) m @
          ''   Token name: '' @ name @ endl @ ''   Permissions ('' @ nat_str (length permissions) @ ''):'' @ endl @
          concat (map perm_line permissions))
       (\<lambda>token _. if suppress then token @ endl else
          ''Success. Token created.'' @ endl @ ''Token: '' @ token @ endl)
       (createToken stub name permissions m w)"

text \<open>\<open>EjfatURI::toString\<close> on an enumeration value, \<^verbatim>\<open>UNKNOWN\<close> for one it does not know.\<close>

definition resource_name :: "u16 \<Rightarrow> string" where
  "resource_name v = (case List.find (\<lambda>tt. word_of_nat (ttAsIdx tt) = v) [TT_all, TT_admin, TT_instance, TT_session] of
     Some tt \<Rightarrow> tt_toString tt | None \<Rightarrow> ''UNKNOWN'')"

definition permission_name :: "u16 \<Rightarrow> string" where
  "permission_name v = (case List.find (\<lambda>tp. word_of_nat (tpAsIdx tp) = v) [TP_read_only, TP_register, TP_reserve, TP_update] of
     Some tp \<Rightarrow> tp_toString tp | None \<Rightarrow> ''UNKNOWN'')"

definition perm_text :: "TokenPerm \<Rightarrow> string" where
  "perm_text p = resource_name (pm_resourceType p) @ '':'' @ pm_resourceId p @ '':'' @ permission_name (pm_permission p)"

definition token_line :: "host_ops \<Rightarrow> string \<Rightarrow> string \<Rightarrow> string \<Rightarrow> LBManager \<Rightarrow> string" where
  "token_line h what label tokenid m =
     what @ endl @ contacting (uri_to_string h TT_admin (lm_cpuri m)) m @ label @ tokenid @ endl"

definition cmd_listTokenPermissions :: "host_ops \<Rightarrow> ('w, 'ws) lb_stub \<Rightarrow> string \<Rightarrow> bool \<Rightarrow> 'w command" where
  "cmd_listTokenPermissions h stub tokenid suppress m w =
     report ''unable to list token permissions, error ''
       (if suppress then [] else token_line h ''Listing token permissions '' ''   Token ID/String: '' tokenid m)
       (\<lambda>d _. if suppress then nat_str (unat (td_id d)) @ endl else
          success_line @ ''Token Details:'' @ endl @ ''  Name: '' @ td_name d @ endl @
          ''  ID: '' @ nat_str (unat (td_id d)) @ endl @ ''  Created: '' @ td_created_at d @ endl @
          ''  Permissions ('' @ nat_str (length (td_permissions d)) @ ''):'' @ endl @
          concat (map (\<lambda>p. perm_text p @ endl) (td_permissions d)))
       (listTokenPermissions stub (createTokenSelector tokenid) m w)"

definition child_line :: "TokenDetails \<Rightarrow> string" where
  "child_line d = ''  [ name='' @ td_name d @ '', id='' @ nat_str (unat (td_id d)) @ '', created='' @ td_created_at d @
     '', permissions='' @ nat_str (length (td_permissions d)) @ '' ]'' @ endl"

definition cmd_listChildTokens :: "host_ops \<Rightarrow> ('w, 'ws) lb_stub \<Rightarrow> string \<Rightarrow> bool \<Rightarrow> 'w command" where
  "cmd_listChildTokens h stub tokenid suppress m w =
     report ''unable to list child tokens, error ''
       (if suppress then [] else token_line h ''Listing child tokens '' ''   Parent Token ID/String: '' tokenid m)
       (\<lambda>ds _. if suppress then nat_str (length ds) @ endl else
          success_line @ ''Child tokens ('' @ nat_str (length ds) @ ''):'' @ endl @
          (if ds = [] then ''  (no child tokens)'' @ endl else concat (map child_line ds)))
       (listChildTokens stub (createTokenSelector tokenid) m w)"

definition cmd_revokeToken :: "host_ops \<Rightarrow> ('w, 'ws) lb_stub \<Rightarrow> string \<Rightarrow> bool \<Rightarrow> 'w command" where
  "cmd_revokeToken h stub tokenid suppress m w =
     report ''unable to revoke token, error ''
       (if suppress then [] else token_line h ''Revoking token (including all children) '' ''   Token ID/String: '' tokenid m)
       (\<lambda>_ _. if suppress then ''0'' @ endl else ''Success. Token revoked (including all child tokens).'' @ endl)
       (revokeToken stub (createTokenSelector tokenid) m w)"

section \<open>The program\<close>

text \<open>The values of the options; those without a default are meaningful only when the option is there.\<close>

record lbadm_args =
  la_vm :: variables_map
  la_lbname :: string
  la_lbid :: string
  la_address :: "string list"
  la_duration :: string
  la_uri :: string
  la_name :: string
  la_port :: u16
  la_weight :: rat
  la_count :: u16
  la_session :: string
  la_queue :: rat
  la_ctrl :: rat
  la_ready :: bool
  la_root :: string
  la_novalidate :: bool
  la_minfactor :: rat
  la_maxfactor :: rat
  la_keeplbhdr :: bool
  la_ipfam :: int
  la_lbpath :: string
  la_since :: string
  la_csv :: string
  la_stats :: WorkerStats
  la_tokenname :: string
  la_permission :: "string list"
  la_tokenid :: string

definition lbadm_defaults :: "string set" where
  "lbadm_defaults = {''duration'', ''weight'', ''count'', ''queue'', ''ctrl'', ''ready'', ''novalidate'', ''minfactor'',
     ''maxfactor'', ''keeplbhdr'', ''ipfam'', ''lbpath'', ''since'', ''csv'', ''total_events_recv'',
     ''total_events_reassembled'', ''total_events_reassembly_err'', ''total_events_dequeued'',
     ''total_event_enqueue_err'', ''total_bytes_recv'', ''total_packets_recv''}"

text \<open>What the program finds around it.\<close>

record 'ws admin_env =
  ad_host :: host_ops
  ad_route :: route_ops
  ad_rendering :: "'ws rendering"
  ad_parse_uri :: "string \<Rightarrow> url_view option"
  ad_junk :: u16
  ad_files :: "string \<Rightarrow> string option"
  ad_duration :: "string \<Rightarrow> int option"
  ad_stamp :: "string \<Rightarrow> time_stamp option"
  ad_csv_opens :: bool
  ad_now :: int
  ad_dual_stack :: int

text \<open>
  The program ends with an exit code, or is terminated by an exception nothing catches: an
  \<open>E2SARException\<close> is not a \<^verbatim>\<open>std::runtime_error\<close>.
\<close>

datatype admin_end = ExitCode int | Terminated

type_synonym 'w admin_outcome = "admin_end \<times> string \<times> string option \<times> 'w"

definition lbadm_uri :: "'ws admin_env \<Rightarrow> lbadm_args \<Rightarrow> EjfatURI result" where
  "lbadm_uri env a =
     (let tt = lbadm_token_type (la_vm a);
          preferV6 = vm_count (la_vm a) ''ipv6''
      in case (if vm_count (la_vm a) ''uri''
               then getFromString (ad_host env) (ad_parse_uri env) (ad_junk env) (la_uri a) tt preferV6
               else getFromEnv (ad_host env) (ad_parse_uri env) (ad_junk env) ''EJFAT_URI'' tt preferV6) of
           Inl e \<Rightarrow> Inl e
         | Inr uri \<Rightarrow>
             let uri1 = (if vm_count (la_vm a) ''session'' then set_sessionId (la_session a) uri else uri)
             in Inr (if vm_count (la_vm a) ''lbid'' then set_lbId (la_lbid a) uri1 else uri1))"

datatype admin_thrown = RuntimeError string | LibraryException E2SARException

definition lbadm_manager :: "'ws admin_env \<Rightarrow> lbadm_args \<Rightarrow> EjfatURI \<Rightarrow> admin_thrown + LBManager" where
  "lbadm_manager env a uri =
     (let preferHostAddr = (vm_count (la_vm a) ''ipv6'' \<or> vm_count (la_vm a) ''ipv4'')
      in if vm_count (la_vm a) ''root'' then
           (case makeSslOptionsFromFile (ad_files env) (la_root a) of
              Inl _ \<Rightarrow> Inl (RuntimeError ''Unable to read server root certificate file'')
            | Inr opts \<Rightarrow> map_sum LibraryException id (LBManager_new (ad_host env) uri True preferHostAddr opts))
         else map_sum LibraryException id (LBManager_new (ad_host env) uri (\<not> la_novalidate a) preferHostAddr
           SslCredentialsOptions_new))"

definition command_end :: "(int result \<times> string) \<times> LBManager \<times> 'w \<Rightarrow> 'w admin_outcome" where
  "command_end x = (case x of ((r, out), m, w) \<Rightarrow> (ExitCode (if has_error r then -1 else 0), out, None, w))"

definition lbadm_command ::
  "'ws admin_env \<Rightarrow> ('w, 'ws) lb_stub \<Rightarrow> lbadm_args \<Rightarrow> LBManager \<Rightarrow> 'w \<Rightarrow> 'w admin_outcome" where
  "lbadm_command env stub a m w =
     (let vm = la_vm a; h = ad_host env; r = ad_route env; rn = ad_rendering env;
          suppress = vm_count vm ''export'';
          addresses = (if vm_count vm ''address'' then la_address a else []);
          lbid = (if vm_count vm ''lbid'' then la_lbid a else [])
      in if vm_count vm ''reserve'' then
           command_end (cmd_reserveLB h stub rn (ad_duration env) (ad_dual_stack env) (ad_now env) (la_lbname a)
             addresses (la_duration a) (la_ipfam a) suppress m w)
         else if vm_count vm ''free'' then command_end (cmd_freeLB h stub lbid m w)
         else if vm_count vm ''version'' then command_end (cmd_version h stub m w)
         else if vm_count vm ''register'' then
           (case cmd_registerWorker h r stub rn (la_name a) (if addresses = [] then [] else hd addresses) (la_port a)
                   (la_weight a) (la_count a) (la_minfactor a) (la_maxfactor a) (la_keeplbhdr a) suppress m w of
              Inl out \<Rightarrow> (ExitCode (-1), out, None, w)
            | Inr x \<Rightarrow> command_end x)
         else if vm_count vm ''deregister'' then command_end (cmd_deregisterWorker h stub m w)
         else if vm_count vm ''status'' then command_end (cmd_getLBStatus h stub rn lbid m w)
         else if vm_count vm ''state'' then
           command_end (cmd_sendState h stub (ad_now env) (la_queue a) (la_ctrl a) (la_ready a) (la_stats a) m w)
         else if vm_count vm ''overview'' then
           (case cmd_overview h stub rn m w of
              Inl (out, w') \<Rightarrow> (Terminated, out, None, w')
            | Inr x \<Rightarrow> command_end x)
         else if vm_count vm ''addsenders'' then command_end (cmd_addSenders h r stub addresses m w)
         else if vm_count vm ''removesenders'' then command_end (cmd_removeSenders h r stub addresses m w)
         else if vm_count vm ''timeseries'' then
           (case cmd_timeseries h stub rn (ad_stamp env) (ad_csv_opens env) (la_lbpath a) (la_since a) (la_csv a) m w of
              (x, csv) \<Rightarrow> (case command_end x of (c, out, _, w') \<Rightarrow> (c, out, csv, w')))
         else if vm_count vm ''createtoken'' then
           (case parsePermissions (la_permission a) of
              Inl _ \<Rightarrow> (ExitCode (-1), [], None, w)
            | Inr perms \<Rightarrow> command_end (cmd_createToken h stub (la_tokenname a) perms suppress m w))
         else if vm_count vm ''listtokenpermissions'' then
           command_end (cmd_listTokenPermissions h stub (la_tokenid a) suppress m w)
         else if vm_count vm ''listchildtokens'' then
           command_end (cmd_listChildTokens h stub (la_tokenid a) suppress m w)
         else if vm_count vm ''revoketoken'' then command_end (cmd_revokeToken h stub (la_tokenid a) suppress m w)
         else (ExitCode 0, [], None, w))"

text \<open>\<open>main\<close> once the command line is parsed; the version and the help text it prints are left out.\<close>

definition lbadm_main ::
  "'ws admin_env \<Rightarrow> ('w, 'ws) lb_stub \<Rightarrow> lbadm_args \<Rightarrow> 'w \<Rightarrow> 'w admin_outcome" where
  "lbadm_main env stub a w =
     (case run_checks (la_vm a) lbadm_checks of
        Inl _ \<Rightarrow> (ExitCode (-1), [], None, w)
      | Inr _ \<Rightarrow>
          if vm_count (la_vm a) ''help'' then (ExitCode 0, [], None, w)
          else (case lbadm_uri env a of
                  Inl _ \<Rightarrow> (ExitCode (-1), [], None, w)
                | Inr uri \<Rightarrow>
                    (case lbadm_manager env a uri of
                       Inl (RuntimeError _) \<Rightarrow> (ExitCode (-1), [], None, w)
                     | Inl (LibraryException _) \<Rightarrow> (Terminated, [], None, w)
                     | Inr m \<Rightarrow> lbadm_command env stub a m w)))"

section \<open>Which token a command sends\<close>

text \<open>
  A call made with a logging stub sends nothing, or one request with the token of the given kind.
\<close>

definition sends_only :: "TokenType \<Rightarrow> LBManager \<Rightarrow> string list \<Rightarrow> string list \<Rightarrow> bool" where
  "sends_only tt m hist hist' \<longleftrightarrow> hist' = hist \<or>
     token_at tt (lm_cpuri m) \<noteq> [] \<and> hist' = hist @ [bearer (token_at tt (lm_cpuri m))]"

lemma sends_only_refl [simp]: "sends_only tt m hist hist"
  by (simp add: sends_only_def)

lemma sends_only_lb_exec:
  "sends_only (op_token op) m hist (snd (snd (snd (lb_exec h (logging stub) op m (w, hist)))))"
  using lb_exec_log[of h stub op m w hist] by (simp add: log_of_def sends_only_def)

lemma snd_outcome_of: "snd (outcome_of x) = snd x"
  by (simp add: outcome_of_def)

lemma snd_report: "snd (report what out ok x) = snd x"
  by (auto simp: report_def split: prod.splits sum.splits)

lemma snd_command_end: "snd (snd (snd (command_end x))) = snd (snd x)"
  by (simp add: command_end_def split: prod.splits)

lemmas call_sends =
  sends_only_lb_exec[where op = "OpReserve name until senders fam" for name until senders fam]
  sends_only_lb_exec[where op = "OpFree i" for i] sends_only_lb_exec[where op = "OpStatus i" for i]
  sends_only_lb_exec[where op = OpOverview] sends_only_lb_exec[where op = OpVersion]
  sends_only_lb_exec[where op = "OpRegister name a wt n mn mx keep" for name a wt n mn mx keep]
  sends_only_lb_exec[where op = OpDeregister]
  sends_only_lb_exec[where op = "OpSendState fill ctl ready ts stats" for fill ctl ready ts stats]
  sends_only_lb_exec[where op = "OpAddSenders ss" for ss] sends_only_lb_exec[where op = "OpRemoveSenders ss" for ss]
  sends_only_lb_exec[where op = "OpCreateToken name perms" for name perms]
  sends_only_lb_exec[where op = "OpListPerms t" for t] sends_only_lb_exec[where op = "OpListChildren t" for t]
  sends_only_lb_exec[where op = "OpRevoke t" for t] sends_only_lb_exec[where op = "OpTimeseries path since" for path since]

lemmas raw_call_sends = call_sends[unfolded lb_exec.simps op_token.simps snd_outcome_of]

lemma cmd_reserveLB_sends:
  "sends_only TT_admin m hist (snd (snd (snd (cmd_reserveLB h (logging stub) rn pd ds now n ss d f sup_out m (w, hist)))))"
  by (simp add: cmd_reserveLB_def snd_report reserveLB_duration_def raw_call_sends split: option.split)

lemma cmd_freeLB_sends: "sends_only TT_admin m hist (snd (snd (snd (cmd_freeLB h (logging stub) i m (w, hist)))))"
  by (simp add: cmd_freeLB_def snd_report freeLB_def raw_call_sends)

lemma cmd_registerWorker_sends:
  "cmd_registerWorker h r (logging stub) rn n ip p wt c mn mx keep sup_out m (w, hist) = Inr x \<Longrightarrow>
     sends_only TT_instance m hist (snd (snd (snd x)))"
  by (auto simp: cmd_registerWorker_def Let_def snd_report registerWorkerSelf_def raw_call_sends
      split: if_splits option.splits sum.splits list.splits)

lemma cmd_overview_sends:
  "cmd_overview h (logging stub) rn m (w, hist) = Inr x \<Longrightarrow> sends_only TT_admin m hist (snd (snd (snd x)))"
  "cmd_overview h (logging stub) rn m (w, hist) = Inl y \<Longrightarrow> sends_only TT_admin m hist (snd (snd y))"
  using raw_call_sends(4)[of m hist stub w]
  by (auto simp: cmd_overview_def Let_def split: sum.splits option.splits prod.splits)

lemma cmd_senders_sends:
  "sends_only TT_instance m hist (snd (snd (snd (cmd_addSenders h r (logging stub) ss m (w, hist)))))"
  "sends_only TT_instance m hist (snd (snd (snd (cmd_removeSenders h r (logging stub) ss m (w, hist)))))"
  by (auto simp: cmd_addSenders_def cmd_removeSenders_def snd_report addSenderSelf_def removeSenderSelf_def
      raw_call_sends split: sum.split)

lemma cmd_timeseries_sends:
  "sends_only TT_admin m hist (snd (snd (snd (fst (cmd_timeseries h (logging stub) rn pt opens p s c m (w, hist))))))"
proof (cases "pt s")
  case None
  then show ?thesis by (simp add: cmd_timeseries_def Let_def)
next
  case (Some t)
  then show ?thesis using raw_call_sends(15)[of m hist stub p t w]
    by (auto simp: cmd_timeseries_def Let_def split: sum.split prod.split)
qed

lemma other_commands_send:
  "sends_only TT_admin m hist (snd (snd (snd (cmd_version h (logging stub) m (w, hist)))))"
  "sends_only TT_session m hist (snd (snd (snd (cmd_deregisterWorker h (logging stub) m (w, hist)))))"
  "sends_only TT_admin m hist (snd (snd (snd (cmd_getLBStatus h (logging stub) rn i m (w, hist)))))"
  "sends_only TT_session m hist (snd (snd (snd (cmd_sendState h (logging stub) now f c rdy st m (w, hist)))))"
  "sends_only TT_admin m hist (snd (snd (snd (cmd_createToken h (logging stub) n ps sup_out m (w, hist)))))"
  "sends_only TT_admin m hist (snd (snd (snd (cmd_listTokenPermissions h (logging stub) i sup_out m (w, hist)))))"
  "sends_only TT_admin m hist (snd (snd (snd (cmd_listChildTokens h (logging stub) i sup_out m (w, hist)))))"
  "sends_only TT_admin m hist (snd (snd (snd (cmd_revokeToken h (logging stub) i sup_out m (w, hist)))))"
  by (simp_all add: cmd_version_def cmd_deregisterWorker_def cmd_getLBStatus_def cmd_sendState_def sendState_stats_def
      cmd_createToken_def cmd_listTokenPermissions_def cmd_listChildTokens_def cmd_revokeToken_def snd_report raw_call_sends)

text \<open>The checks let at most one command through, and none of them has a default.\<close>

lemma lbadm_one_command:
  assumes "run_checks (stored_options lbadm_defaults given) lbadm_checks = Inr ()"
    and "c1 \<in> set lbadm_commands" and "c2 \<in> set lbadm_commands" and "c1 \<in> given" and "c2 \<in> given"
  shows "c1 = c2"
proof (rule ccontr)
  assume "c1 \<noteq> c2"
  then have "Conflicting c1 c2 \<in> set lbadm_checks"
    using assms(2,3) by (auto simp: lbadm_checks_def)
  then have "run_check (stored_options lbadm_defaults given) (Conflicting c1 c2) = Inr ()"
    using assms(1) by (simp add: run_checks_ok list_all_iff del: run_check.simps)
  then show False using assms(4,5) by (simp only: run_check_stored) blast
qed

lemma lbadm_commands_no_default: "c \<in> set lbadm_commands \<Longrightarrow> c \<notin> lbadm_defaults"
  by (auto simp: lbadm_commands_def lbadm_defaults_def)

text \<open>The branches of the dispatch that do not end in \<open>command_end\<close> right away.\<close>

lemma register_branch_sends:
  "sends_only TT_instance m hist (snd (snd (snd (snd
     (case cmd_registerWorker h r (logging stub) rn n ip p wt c mn mx keep sup_out m (w, hist) of
        Inl out \<Rightarrow> (ExitCode (-1), out, None, w, hist) | Inr x \<Rightarrow> command_end x)))))"
  using cmd_registerWorker_sends[of h r stub rn n ip p wt c mn mx keep sup_out m w hist]
  by (simp add: snd_command_end split: sum.split)

lemma overview_branch_sends:
  "sends_only TT_admin m hist (snd (snd (snd (snd
     (case cmd_overview h (logging stub) rn m (w, hist) of
        Inl (out, w') \<Rightarrow> (Terminated, out, None, w') | Inr x \<Rightarrow> command_end x)))))"
  using cmd_overview_sends[of h stub rn m w hist]
  by (fastforce simp: snd_command_end split: sum.split prod.split)

lemma timeseries_branch_sends:
  "sends_only TT_admin m hist (snd (snd (snd (snd
     (case cmd_timeseries h (logging stub) rn pt opens p s c m (w, hist) of
        (x, csv) \<Rightarrow> (case command_end x of (c, out, _, w') \<Rightarrow> (c, out, csv, w')))))))"
  using cmd_timeseries_sends[of m hist h stub rn pt opens p s c w]
  by (auto simp: command_end_def split: prod.split)

lemma createToken_branch_sends:
  "sends_only TT_admin m hist (snd (snd (snd (snd
     (case parsePermissions ps of Inl _ \<Rightarrow> (ExitCode (-1), [], None, w, hist)
      | Inr perms \<Rightarrow> command_end (cmd_createToken h (logging stub) n perms sup_out m (w, hist)))))))"
  by (simp add: snd_command_end other_commands_send split: sum.split)

lemma lbadm_dispatch_sends:
  assumes "\<And>c'. c' \<in> set lbadm_commands \<Longrightarrow> vm_count (la_vm a) c' \<longleftrightarrow> c' = c" and "c \<in> set lbadm_commands"
  shows "sends_only (lbadm_token_type (la_vm a)) m hist (snd (snd (snd (snd (lbadm_command env (logging stub) a m (w, hist))))))"
proof -
  note C = assms(1)[unfolded lbadm_commands_def, simplified]
  note B = register_branch_sends overview_branch_sends timeseries_branch_sends createToken_branch_sends
    cmd_reserveLB_sends cmd_freeLB_sends cmd_senders_sends other_commands_send
  from assms(2) show ?thesis
    unfolding lbadm_commands_def list.set insert_iff empty_iff
    by (elim disjE; simp only: C lbadm_command_def lbadm_token_type_def Let_def snd_command_end if_True if_False B simp_thms list.inject char.inject)
qed

lemma lbadm_command_sends:
  assumes "la_vm a = stored_options lbadm_defaults given"
    and "run_checks (stored_options lbadm_defaults given) lbadm_checks = Inr ()"
  shows "sends_only (lbadm_token_type (la_vm a)) m hist (snd (snd (snd (snd (lbadm_command env (logging stub) a m (w, hist))))))"
proof -
  have cnt: "vm_count (la_vm a) c \<longleftrightarrow> c \<in> given" if "c \<in> set lbadm_commands" for c
    using lbadm_commands_no_default[OF that] by (simp add: assms(1))
  show ?thesis
  proof (cases "\<exists>c\<in>set lbadm_commands. c \<in> given")
    case True
    then obtain c where c: "c \<in> set lbadm_commands" "c \<in> given" by blast
    then have "vm_count (la_vm a) c' \<longleftrightarrow> c' = c" if "c' \<in> set lbadm_commands" for c'
      using lbadm_one_command[OF assms(2)] cnt that by blast
    then show ?thesis using c(1) by (rule lbadm_dispatch_sends)
  next
    case False
    then have "\<not> vm_count (la_vm a) c" if "c \<in> set lbadm_commands" for c using cnt that by blast
    note C = this[unfolded lbadm_commands_def, simplified]
    show ?thesis by (simp add: lbadm_command_def Let_def C)
  qed
qed

lemma LBManager_new_uri: "LBManager_new h uri v p opts = Inr m \<Longrightarrow> lm_cpuri m = uri"
  by (auto simp: LBManager_new_def Let_def split: option.splits sum.splits prod.splits if_splits)

lemma lbadm_manager_uri: "lbadm_manager env a uri = Inr m \<Longrightarrow> lm_cpuri m = uri"
  by (auto simp: lbadm_manager_def Let_def LBManager_new_uri map_sum_def split: if_splits sum.splits)

definition lbadm_uri_text :: "'ws admin_env \<Rightarrow> lbadm_args \<Rightarrow> string option" where
  "lbadm_uri_text env a =
     (if vm_count (la_vm a) ''uri'' then Some (la_uri a) else getenv (ad_host env) ''EJFAT_URI'')"

lemma lbadm_uri_token:
  assumes "lbadm_uri env a = Inr uri"
  shows "\<exists>text u. lbadm_uri_text env a = Some text \<and> ad_parse_uri env text = Some u \<and>
    token_at (lbadm_token_type (la_vm a)) uri = url_userinfo u"
proof -
  let ?tt = "lbadm_token_type (la_vm a)"
  obtain ustr e where t: "lbadm_uri_text env a = Some ustr"
    and e: "EjfatURI_new (ad_host env) (ad_parse_uri env) (ad_junk env) ustr ?tt (vm_count (la_vm a) ''ipv6'') = Inr e"
    and tok: "token_at ?tt uri = token_at ?tt e"
    using assms
    by (auto simp: lbadm_uri_def lbadm_uri_text_def Let_def getFromString_def getFromEnv_def split: if_splits sum.splits option.splits)
  obtain u where u: "ad_parse_uri env ustr = Some u"
    using e by (auto simp: EjfatURI_new_def split: option.splits)
  show ?thesis using t u tok EjfatURI_new_tokens(3)[OF e u] by auto
qed

lemma lbadm_main_sends:
  assumes "la_vm a = stored_options lbadm_defaults given"
    and "lbadm_main env (logging stub) a (w, []) = (end, out, csv, w', sent)"
  shows "sent = [] \<or> (\<exists>text u. lbadm_uri_text env a = Some text \<and> ad_parse_uri env text = Some u \<and>
    url_userinfo u \<noteq> [] \<and> sent = [bearer (url_userinfo u)])"
proof (cases "sent = []")
  case False
  then obtain uri m where checks: "run_checks (la_vm a) lbadm_checks = Inr ()" and uri: "lbadm_uri env a = Inr uri"
    and m: "lbadm_manager env a uri = Inr m"
    and c: "lbadm_command env (logging stub) a m (w, []) = (end, out, csv, w', sent)"
    using assms(2) by (auto simp: lbadm_main_def split: sum.splits if_splits admin_thrown.splits)
  have "sends_only (lbadm_token_type (la_vm a)) m [] sent"
    using lbadm_command_sends[OF assms(1) checks[unfolded assms(1)], of m "[]" env stub w] c by simp
  then have "sent = [bearer (token_at (lbadm_token_type (la_vm a)) uri)]"
    "token_at (lbadm_token_type (la_vm a)) uri \<noteq> []"
    using False lbadm_manager_uri[OF m] by (auto simp: sends_only_def)
  then show ?thesis using lbadm_uri_token[OF uri] by auto
qed simp

text \<open>
  A number given as a token id is read as 64 bits and then cut to 32: ids that agree modulo \<open>2 ^ 32\<close> select
  the same token, and a number of 65 bits or more is taken for the token itself.
\<close>

lemma createTokenSelector_number:
  "createTokenSelector (nat_str n) =
     (if n < 2 ^ 64 then ById (word_of_nat (n mod 2 ^ 32)) else ByToken (nat_str n))"
proof -
  have "word_of_nat n = (word_of_nat (n mod 2 ^ 32) :: u32)" by (simp add: word_unat_eq_iff unat_of_nat)
  then show ?thesis by (simp add: createTokenSelector_def nat_str_digits digits_value_nat_str)
qed

text \<open>A header, and one row more than the longest series has samples; the last row is empty.\<close>

lemma csv_is_a_table:
  assumes "\<And>x. commas (rn_float rn x) = 0" and "list_all (\<lambda>d. sd_timeseries d \<noteq> NoTS) td"
  shows "\<exists>header rows. csv_lines rn td = header # rows \<and> length rows = Suc (longest_series td) \<and>
    (\<forall>row\<in>set rows. commas row = 2 * length td) \<and> last rows = concat (map (\<lambda>d. '',,'') td)"
proof -
  let ?rows = "map (csv_row rn td) [0..<Suc (longest_series td)]"
  have "csv_cells rn (longest_series td) (sd_timeseries d) = '',,''" if "d \<in> set td" for d
  proof -
    have "series_length (sd_timeseries d) \<le> longest_series td"
      using that csv_finished_longest[of td "longest_series td"] by (simp add: csv_finished_def list_all_iff)
    moreover have "sd_timeseries d \<noteq> NoTS" using assms(2) that by (simp add: list_all_iff)
    ultimately show ?thesis by (cases "sd_timeseries d") simp_all
  qed
  then have "csv_row rn td (longest_series td) = concat (map (\<lambda>d. '',,'') td)"
    by (simp add: csv_row_def cong: map_cong)
  then have "last ?rows = concat (map (\<lambda>d. '',,'') td)" by (simp add: last_map)
  moreover have "\<forall>row\<in>set ?rows. commas row = 2 * length td"
    using commas_csv_row[of rn td, OF assms] by auto
  moreover have "csv_lines rn td = concat (map csv_header_cells td) # ?rows"
    by (simp add: csv_lines_def csv_rows_all[of 0] del: upt_Suc)
  ultimately show ?thesis by (metis length_map length_upt diff_zero)
qed

end
