(* ===== verification/E2SAR_Monitor.thy ===== *)
theory E2SAR_Monitor
  imports E2SAR_Admin
begin

text \<open>
  The load balancer monitor \<^verbatim>\<open>bin/lbmonitor.cpp\<close>: the manager it makes from its options, and the loop that
  prints the status of one load balancer, or the overview of all, again and again until a call fails.
\<close>

section \<open>Options and manager\<close>

definition monitor_options :: "string list" where
  "monitor_options = [''help'', ''lbid'', ''root'', ''novalidate'', ''ipv6'', ''ipv4'', ''uri'', ''time'']"

record monitor_args =
  mo_vm :: variables_map
  mo_lbid :: string
  mo_root :: string
  mo_uri :: string
  mo_time :: u64

definition vm_empty :: "variables_map \<Rightarrow> bool" where
  "vm_empty vm \<longleftrightarrow> list_all (\<lambda>n. \<not> vm_count vm n) monitor_options"

definition monitor_uri :: "'ws admin_env \<Rightarrow> monitor_args \<Rightarrow> EjfatURI result" where
  "monitor_uri env a =
     (let preferV6 = vm_count (mo_vm a) ''ipv6''
      in if vm_count (mo_vm a) ''uri''
         then getFromString (ad_host env) (ad_parse_uri env) (ad_junk env) (mo_uri a) TT_admin preferV6
         else getFromEnv (ad_host env) (ad_parse_uri env) (ad_junk env) ''EJFAT_URI'' TT_admin preferV6)"

text \<open>
  A manager is made at once, and made again with a root certificate (for TLS only) or without
  validation.  The exceptions of its constructor are caught nowhere.
\<close>

definition monitor_manager :: "'ws admin_env \<Rightarrow> monitor_args \<Rightarrow> EjfatURI \<Rightarrow> admin_end + LBManager" where
  "monitor_manager env a uri =
     (let preferHostAddr = (vm_count (mo_vm a) ''ipv6'' \<or> vm_count (mo_vm a) ''ipv4'');
          make = (\<lambda>validate opts. map_sum (\<lambda>_. Terminated) id (LBManager_new (ad_host env) uri validate preferHostAddr opts))
      in case make True SslCredentialsOptions_new of
           Inl e \<Rightarrow> Inl e
         | Inr m \<Rightarrow>
             if vm_count (mo_vm a) ''root'' then
               (if \<not> uri_useTls uri then Inr m
                else (case makeSslOptionsFromFile (ad_files env) (mo_root a) of
                        Inl _ \<Rightarrow> Inl (ExitCode (-1))
                      | Inr opts \<Rightarrow> make True opts))
             else if vm_count (mo_vm a) ''novalidate'' then make False SslCredentialsOptions_new
             else Inr m)"

definition monitor_lbid :: "monitor_args \<Rightarrow> LBManager \<Rightarrow> string" where
  "monitor_lbid a m = (if vm_count (mo_vm a) ''lbid'' then mo_lbid a else uri_lbId (lm_cpuri m))"

definition refresh_time :: "monitor_args \<Rightarrow> u64" where
  "refresh_time a = (if vm_count (mo_vm a) ''time'' then mo_time a else 5000)"

section \<open>The two displays\<close>

definition monitor_status :: "host_ops \<Rightarrow> ('w, 'ws) lb_stub \<Rightarrow> 'ws rendering \<Rightarrow> string \<Rightarrow> 'w command" where
  "monitor_status h stub rn lbid m w =
     report cp_failed
       (''Getting LB Status '' @ endl @ contacting (uri_to_string h TT_session (lm_cpuri m)) m @ lb_name_line m @
        ''   LB ID: '' @ lbid @ endl)
       (\<lambda>rep _. let s = asLBStatus rep in
          lb_details rn s @ ''Registered senders: '' @ spaced (ls_senderAddresses s) @ endl @
          ''Registered workers: '' @ endl @ concat (map (\<lambda>x. rn_worker rn x @ endl) (ls_workers s)) @ endl)
       (getLBStatus_id stub lbid m w)"

definition monitor_entry :: "'ws rendering \<Rightarrow> 'ws OverviewEntry \<Rightarrow> string" where
  "monitor_entry rn e =
     ''LB '' @ ov_name e @ '' ID: '' @ ov_lbid e @ '' FPGA LBID: '' @ nat_str (unat (ov_fpgaLBId e)) @ endl @
     ''  Registered sender addresses: '' @ spaced (ls_senderAddresses (ov_status e)) @ endl @
     ''  Registered workers: '' @ endl @
     concat (map (\<lambda>x. ''  '' @ rn_worker rn x @ endl) (ls_workers (ov_status e))) @ endl @
     ''  '' @ lb_details rn (ov_status e)"

definition monitor_overview ::
  "host_ops \<Rightarrow> ('w, 'ws) lb_stub \<Rightarrow> 'ws rendering \<Rightarrow> LBManager \<Rightarrow> 'w \<Rightarrow>
     string \<times> 'w + (int result \<times> string) \<times> LBManager \<times> 'w" where
  "monitor_overview h stub rn m w =
     (let out = ''Getting Overview '' @ endl @ contacting (uri_to_string h TT_session (lm_cpuri m)) m
      in case lb_overview stub m w of
           (Inl e, m', w') \<Rightarrow> Inr ((Err RPCError (cp_failed @ msg e), out), m', w')
         | (Inr rep, m', w') \<Rightarrow>
             (case asOverviewMessage h rep of
                None \<Rightarrow> Inl (out, w')
              | Some es \<Rightarrow> Inr ((Ok 0, out @ concat (map (monitor_entry rn) es)), m', w')))"

section \<open>The loop\<close>

text \<open>One turn, without the sleep after it: \<open>Inl\<close> ends the program.\<close>

definition monitor_turn ::
  "host_ops \<Rightarrow> ('w, 'ws) lb_stub \<Rightarrow> 'ws rendering \<Rightarrow> string \<Rightarrow> LBManager \<Rightarrow> 'w \<Rightarrow>
     (admin_end + LBManager) \<times> string \<times> 'w" where
  "monitor_turn h stub rn lbid m w =
     (if lbid = [] then
        (case monitor_overview h stub rn m w of
           Inl (out, w') \<Rightarrow> (Inl Terminated, out, w')
         | Inr ((Inl _, out), m', w') \<Rightarrow> (Inl (ExitCode (-1)), out, w')
         | Inr ((Inr _, out), m', w') \<Rightarrow> (Inr m', out, w'))
      else
        (case monitor_status h stub rn lbid m w of
           ((Inl _, out), m', w') \<Rightarrow> (Inl (ExitCode (-1)), out, w')
         | ((Inr _, out), m', w') \<Rightarrow> (Inr m', out, w')))"

text \<open>At most so many turns: \<open>None\<close> is a monitor still running.\<close>

fun monitor_loop ::
  "nat \<Rightarrow> host_ops \<Rightarrow> ('w, 'ws) lb_stub \<Rightarrow> 'ws rendering \<Rightarrow> string \<Rightarrow> LBManager \<Rightarrow> string \<Rightarrow> 'w \<Rightarrow>
     admin_end option \<times> string \<times> 'w" where
  "monitor_loop 0 h stub rn lbid m out w = (None, out, w)"
| "monitor_loop (Suc n) h stub rn lbid m out w =
     (case monitor_turn h stub rn lbid m w of
        (Inl e, out1, w1) \<Rightarrow> (Some e, out @ out1, w1)
      | (Inr m1, out1, w1) \<Rightarrow> monitor_loop n h stub rn lbid m1 (out @ out1) w1)"

definition monitor_main ::
  "'ws admin_env \<Rightarrow> ('w, 'ws) lb_stub \<Rightarrow> monitor_args \<Rightarrow> nat \<Rightarrow> 'w \<Rightarrow> admin_end option \<times> string \<times> 'w" where
  "monitor_main env stub a turns w =
     (if vm_count (mo_vm a) ''help'' \<or> vm_empty (mo_vm a) then (Some (ExitCode 0), [], w)
      else (case monitor_uri env a of
              Inl _ \<Rightarrow> (Some (ExitCode (-1)), [], w)
            | Inr uri \<Rightarrow>
                (case monitor_manager env a uri of
                   Inl e \<Rightarrow> (Some e, [], w)
                 | Inr m \<Rightarrow> monitor_loop turns (ad_host env) stub (ad_rendering env) (monitor_lbid a m) m [] w)))"

section \<open>What the monitor sends\<close>

text \<open>Neither call changes the manager, and each sends the administrator token or nothing.\<close>

lemma status_keeps_manager: "fst (snd (getLBStatus_id stub lbid m w)) = m"
  by (auto simp: getLBStatus_id_def rpc_then_def split: prod.splits sum.splits option.splits)

lemma overview_keeps_manager: "fst (snd (lb_overview stub m w)) = m"
  by (auto simp: lb_overview_def rpc_then_def split: prod.splits sum.splits)

lemma monitor_status_facts:
  assumes "monitor_status h (logging stub) rn lbid m (w, hist) = (r, m', w', hist')"
  shows "m' = m" and "sends_only TT_admin m hist hist'"
proof -
  have "fst (snd (monitor_status h (logging stub) rn lbid m (w, hist))) = m"
    by (simp add: monitor_status_def snd_report status_keeps_manager)
  then show "m' = m" by (simp add: assms)
  have "sends_only TT_admin m hist (snd (snd (snd (monitor_status h (logging stub) rn lbid m (w, hist)))))"
    by (simp add: monitor_status_def snd_report raw_call_sends)
  then show "sends_only TT_admin m hist hist'" by (simp add: assms)
qed

lemma monitor_overview_facts:
  "monitor_overview h (logging stub) rn m (w, hist) = Inr (r, m', w', hist') \<Longrightarrow> m' = m \<and> sends_only TT_admin m hist hist'"
  "monitor_overview h (logging stub) rn m (w, hist) = Inl (out, w', hist') \<Longrightarrow> sends_only TT_admin m hist hist'"
  using raw_call_sends(4)[of m hist stub w] overview_keeps_manager[of "logging stub" m "(w, hist)"]
  by (auto simp: monitor_overview_def Let_def split: sum.splits option.splits prod.splits)

lemma monitor_turn_facts:
  assumes "monitor_turn h (logging stub) rn lbid m (w, hist) = (r, out, w', hist')"
  shows "sends_only TT_admin m hist hist'" and "r = Inr m' \<Longrightarrow> m' = m"
  using assms monitor_status_facts[of h stub rn lbid m w hist] monitor_overview_facts[of h stub rn m w hist]
  by (auto simp: monitor_turn_def split: if_splits sum.splits prod.splits)

lemma monitor_loop_sends:
  assumes "monitor_loop n h (logging stub) rn lbid m out (w, hist) = (e, out', w', hist')"
  shows "\<exists>k\<le>n. hist' = hist @ replicate k (bearer (token_at TT_admin (lm_cpuri m))) \<and>
    (0 < k \<longrightarrow> token_at TT_admin (lm_cpuri m) \<noteq> [])"
  using assms
proof (induction n arbitrary: out w hist)
  case 0
  then show ?case by simp
next
  case (Suc n)
  obtain r out1 w1 hist1 where t: "monitor_turn h (logging stub) rn lbid m (w, hist) = (r, out1, w1, hist1)"
    by (metis prod_cases4)
  let ?b = "bearer (token_at TT_admin (lm_cpuri m))"
  obtain j where j: "j \<le> 1" "hist1 = hist @ replicate j ?b" "0 < j \<longrightarrow> token_at TT_admin (lm_cpuri m) \<noteq> []"
  proof (cases "hist1 = hist")
    case True
    then show ?thesis using that[of 0] by simp
  next
    case False
    then have "hist1 = hist @ [?b]" "token_at TT_admin (lm_cpuri m) \<noteq> []"
      using monitor_turn_facts(1)[OF t] by (auto simp: sends_only_def)
    then show ?thesis using that[of 1] by simp
  qed
  show ?case
  proof (cases r)
    case (Inl x)
    then show ?thesis using Suc.prems j by (intro exI[of _ j]) (simp add: t)
  next
    case (Inr m1)
    then have "m1 = m" using monitor_turn_facts(2)[OF t] by simp
    then have "monitor_loop n h (logging stub) rn lbid m (out @ out1) (w1, hist1) = (e, out', w', hist')"
      using Suc.prems by (simp add: t Inr)
    from Suc.IH[OF this] obtain k where k: "k \<le> n" "hist' = hist1 @ replicate k ?b"
      "0 < k \<longrightarrow> token_at TT_admin (lm_cpuri m) \<noteq> []" by blast
    then show ?thesis using j by (intro exI[of _ "j + k"]) (auto simp: replicate_add)
  qed
qed

end
