(* ===== verification/E2SAR_Perf.thy ===== *)
theory E2SAR_Perf
  imports E2SAR_FileSaving
begin

text \<open>
  The performance program \<^verbatim>\<open>bin/e2sar_perf.cpp\<close>: its options and how they override an INI file, the
  sender with its test events and the count of frames it waits for, the receiver that checks the events,
  and the shutdown.  What it shares with the file transfer program (registering, preparing to
  receive) is used from there.  Progress messages and rates are left out.
\<close>

section \<open>Options\<close>

definition perf_checks :: "option_check list" where
  "perf_checks =
     [Conflicting ''send'' ''recv'', Conflicting ''recv'' ''num'', Conflicting ''recv'' ''enum'',
      Conflicting ''recv'' ''length'', Conflicting ''recv'' ''mtu'', Conflicting ''recv'' ''src'',
      Conflicting ''recv'' ''dataid'', Conflicting ''recv'' ''rate'', Conflicting ''send'' ''threads'',
      Conflicting ''send'' ''period'', Conflicting ''ipv4'' ''ipv6'', Conflicting ''send'' ''quiet'',
      Requires ''recv'' ''ip'', Requires ''recv'' ''port'', Requires ''send'' ''ip'',
      Conflicting ''recv'' ''multiport'', Conflicting ''recv'' ''smooth'', Conflicting ''send'' ''timeout'',
      Conflicting ''rate'' ''rateGbps'', Conflicting ''send'' ''duration'', Conflicting ''send'' ''port'',
      Conflicting ''deq'' ''send'', Conflicting ''cores'' ''threads'', Conflicting ''cores'' ''sockets'',
      Conflicting ''recv'' ''lbhdrversion'']"

definition perf_defaults :: "string set" where
  "perf_defaults = {''length'', ''num'', ''enum'', ''mtu'', ''src'', ''dataid'', ''lbhdrversion'', ''threads'', ''sockets'',
     ''rate'', ''period'', ''bufsize'', ''duration'', ''withcp'', ''ini'', ''ip'', ''port'', ''dpv6'', ''novalidate'',
     ''autoip'', ''deq'', ''numa'', ''multiport'', ''smooth'', ''timeout'', ''quiet'', ''realmalloc''}"

text \<open>\<open>pa_rate\<close> is the one variable behind \<^verbatim>\<open>--rate\<close> and \<^verbatim>\<open>--rateGbps\<close>.\<close>

record perf_args =
  pa_vm :: variables_map
  pa_length :: nat
  pa_uri :: string
  pa_num :: nat
  pa_enum :: u64
  pa_mtu :: u16
  pa_src :: u32
  pa_dataid :: u16
  pa_lbhdrversion :: u32
  pa_threads :: nat
  pa_sockets :: nat
  pa_rate :: rat
  pa_bufsize :: int
  pa_duration :: int
  pa_withcp :: bool
  pa_ini :: string
  pa_ip :: string
  pa_port :: u16
  pa_dpv6 :: bool
  pa_novalidate :: bool
  pa_autoip :: bool
  pa_cores :: "int list"
  pa_optimize :: "string list"
  pa_numa :: int
  pa_multiport :: bool
  pa_smooth :: bool
  pa_timeout :: int
  pa_realmalloc :: bool

definition perf_given :: "perf_args \<Rightarrow> string \<Rightarrow> bool" where
  "perf_given a name \<longleftrightarrow> \<not> vm_defaulted (pa_vm a) name"

definition perf_prefer_host :: "perf_args \<Rightarrow> bool" where
  "perf_prefer_host a \<longleftrightarrow> vm_count (pa_vm a) ''ipv6'' \<or> vm_count (pa_vm a) ''ipv4''"

definition perf_prepare :: "ft_env \<Rightarrow> perf_args \<Rightarrow> int + (OptimizationsWord \<times> EjfatURI)" where
  "perf_prepare env a =
     (case run_checks (pa_vm a) perf_checks of
        Inl _ \<Rightarrow> Inl (-1)
      | Inr _ \<Rightarrow>
          if vm_count (pa_vm a) ''help'' then Inl 0
          else (case select_names (fe_build env) (pa_optimize a) opt_initial of
                  (Inl _, _) \<Rightarrow> Inl (-1)
                | (Inr _, sel) \<Rightarrow>
                    if pa_numa a \<ge> 0 \<and>
                       has_error (fst (setNUMABind (fst (fe_numa env)) (snd (fe_numa env)) (pa_numa a))) then Inl (-1)
                    else if \<not> pa_autoip a \<and> pa_ip a = [] then Inl (-1)
                    else if pa_rate a < 0 \<and> pa_smooth a then Inl (-1)
                    else if \<not> (vm_count (pa_vm a) ''send'' \<or> vm_count (pa_vm a) ''recv'') then Inl 0
                    else (case (if vm_count (pa_vm a) ''uri''
                                then getFromString (fe_host env) (fe_parse_uri env) (fe_junk env) (pa_uri a) TT_instance
                                       (vm_count (pa_vm a) ''ipv6'')
                                else getFromEnv (fe_host env) (fe_parse_uri env) (fe_junk env) ''EJFAT_URI'' TT_instance
                                       (vm_count (pa_vm a) ''ipv6'')) of
                            Inl _ \<Rightarrow> Inl (-1)
                          | Inr uri \<Rightarrow> Inr (sel, uri))))"

text \<open>
  The flags of a sender: those of the INI file with the options that were given, or all from the
  options.  The version of the header is cut to 8 bits.
\<close>

definition perf_segmenter_flags :: "host_ops \<Rightarrow> (string \<Rightarrow> ini_tree option) \<Rightarrow> perf_args \<Rightarrow> SegmenterFlags result" where
  "perf_segmenter_flags h read_ini a =
     (if pa_ini a \<noteq> [] then
        (case seg_getFromINI h read_ini (pa_ini a) of
           Inl e \<Rightarrow> Inl e
         | Inr f \<Rightarrow> Ok (f\<lparr>
             sf_useCP := if perf_given a ''withcp'' then pa_withcp a else sf_useCP f,
             sf_mtu := if perf_given a ''mtu'' then pa_mtu a else sf_mtu f,
             sf_sndSocketBufSize := if perf_given a ''bufsize'' then pa_bufsize a else sf_sndSocketBufSize f,
             sf_numSendSockets := if perf_given a ''sockets'' then pa_sockets a else sf_numSendSockets f,
             sf_rateGbps := if perf_given a ''rate'' then pa_rate a else sf_rateGbps f,
             sf_multiPort := if perf_given a ''multiport'' then pa_multiport a else sf_multiPort f,
             sf_smooth := if perf_given a ''smooth'' then pa_smooth a else sf_smooth f,
             sf_lbHdrVersion := if perf_given a ''lbhdrversion'' then ucast (pa_lbhdrversion a) else sf_lbHdrVersion f,
             sf_dpV6 := if perf_given a ''dpv6'' then pa_dpv6 a else sf_dpV6 f\<rparr>))
      else Ok (SegmenterFlags_new\<lparr>sf_useCP := pa_withcp a, sf_mtu := pa_mtu a, sf_sndSocketBufSize := pa_bufsize a,
             sf_numSendSockets := pa_sockets a, sf_rateGbps := pa_rate a, sf_multiPort := pa_multiport a,
             sf_smooth := pa_smooth a, sf_lbHdrVersion := ucast (pa_lbhdrversion a), sf_dpV6 := pa_dpv6 a\<rparr>))"

text \<open>
  The flags of a receiver.  \<^verbatim>\<open>--ipv6\<close> and \<^verbatim>\<open>--ipv4\<close> have no default, and an option that is absent is not
  defaulted, so that override always happens.
\<close>

definition perf_reassembler_flags :: "host_ops \<Rightarrow> (string \<Rightarrow> ini_tree option) \<Rightarrow> perf_args \<Rightarrow> ReassemblerFlags result" where
  "perf_reassembler_flags h read_ini a =
     (if pa_ini a \<noteq> [] then
        (case reas_getFromINI h read_ini (pa_ini a) of
           Inl e \<Rightarrow> Inl e
         | Inr f \<Rightarrow> Ok (f\<lparr>
             rf_useCP := if perf_given a ''withcp'' then pa_withcp a else rf_useCP f,
             rf_withLBHeader := if perf_given a ''withcp'' then \<not> pa_withcp a else rf_withLBHeader f,
             rf_rcvSocketBufSize := if perf_given a ''bufsize'' then pa_bufsize a else rf_rcvSocketBufSize f,
             rf_useHostAddress := if perf_given a ''ipv6'' \<or> perf_given a ''ipv4'' then perf_prefer_host a else rf_useHostAddress f,
             rf_validateCert := if perf_given a ''novalidate'' then \<not> pa_novalidate a else rf_validateCert f,
             rf_eventTimeout_ms := if perf_given a ''timeout'' then pa_timeout a else rf_eventTimeout_ms f\<rparr>))
      else Ok (ReassemblerFlags_new\<lparr>rf_useCP := pa_withcp a, rf_withLBHeader := \<not> pa_withcp a,
             rf_rcvSocketBufSize := pa_bufsize a, rf_useHostAddress := perf_prefer_host a,
             rf_validateCert := \<not> pa_novalidate a, rf_eventTimeout_ms := pa_timeout a\<rparr>))"

section \<open>Test events\<close>

definition string_bytes :: "string \<Rightarrow> u8 list" where
  "string_bytes s = map of_char s"

definition eventPldStart :: "u8 list" where
  "eventPldStart = string_bytes ''This is a start of event payload''"

definition eventPldEnd :: "u8 list" where
  "eventPldEnd = string_bytes ''...the end''"

text \<open>
  A buffer of the size asked for gets the two texts at its ends.  A size below that of a text puts it
  outside the buffer: \<open>None\<close>.
\<close>

definition fill_event :: "nat \<Rightarrow> buffer option" where
  "fill_event eventBufSize =
     (case memcpy_at 0 eventPldStart (new_buffer eventBufSize) of
        None \<Rightarrow> None
      | Some b \<Rightarrow>
          if eventBufSize < length eventPldEnd then None
          else memcpy_at (eventBufSize - length eventPldEnd) eventPldEnd b)"

text \<open>What reading a buffer gives, with \<open>junk\<close> in the cells never written.\<close>

definition buffer_bytes :: "(nat \<Rightarrow> u8) \<Rightarrow> buffer \<Rightarrow> u8 list" where
  "buffer_bytes junk b = map (\<lambda>i. case b ! i of None \<Rightarrow> junk i | Some x \<Rightarrow> x) [0..<length b]"

text \<open>
  The receiver's check leaves out the last character of each text.  Reading outside a short event is
  undefined.
\<close>

definition mangled :: "u8 list \<Rightarrow> bool option" where
  "mangled ev =
     (if length ev < length eventPldStart - 1 \<or> length ev < length eventPldEnd then None
      else Some (take (length eventPldStart - 1) ev \<noteq> take (length eventPldStart - 1) eventPldStart \<or>
                 slice_at (length ev - length eventPldEnd) (length eventPldEnd - 1) ev \<noteq>
                   take (length eventPldEnd - 1) eventPldEnd))"

section \<open>Sending\<close>

definition expectedFrames :: "nat \<Rightarrow> nat \<Rightarrow> nat \<Rightarrow> bool \<Rightarrow> u32" where
  "expectedFrames numEvents eventBufSize mtu v6 =
     word_of_nat (numEvents * ((eventBufSize + mtu - getTotalHeaderLength v6 - 1) div (mtu - getTotalHeaderLength v6)))"

text \<open>
  The other threads act before each reading of \<open>threadsRunning\<close>; the schedule is what they did and the
  value read.  \<open>None\<close> is a loop still running when the schedule ends.
\<close>

type_synonym send_schedule = "((seg_state \<Rightarrow> seg_state) \<times> bool) list"

definition FREE_CALLBACK :: nat where
  "FREE_CALLBACK = 2"

fun perf_offer ::
  "seg_cfg \<Rightarrow> u8 list \<Rightarrow> nat \<Rightarrow> nat \<Rightarrow> nat \<Rightarrow> send_schedule \<Rightarrow> seg_state \<Rightarrow> (seg_state \<times> send_schedule) option" where
  "perf_offer c ev n evt ptr [] s = None"
| "perf_offer c ev n evt ptr ((env, running) # es) s =
     (if \<not> running then Some (env s, es)
      else case seg_addToSendQueue c ev n (word_of_nat evt) 0 0 (Some FREE_CALLBACK) ptr (env s) of
             (Inr _, s1) \<Rightarrow> Some (s1, es)
           | (Inl _, s1) \<Rightarrow> perf_offer c ev n evt ptr es s1)"

text \<open>The loop over the events: the buffer of event \<open>evt\<close>, and the pointer its callback frees (0 for none).\<close>

fun perf_send_loop ::
  "seg_cfg \<Rightarrow> (nat \<Rightarrow> u8 list option) \<Rightarrow> (nat \<Rightarrow> nat) \<Rightarrow> nat \<Rightarrow> nat \<Rightarrow> nat \<Rightarrow> send_schedule \<Rightarrow> seg_state \<Rightarrow>
     (nat \<times> seg_state \<times> send_schedule) option" where
  "perf_send_loop c ev ptr n 0 evt es s = Some (evt, s, es)"
| "perf_send_loop c ev ptr n (Suc k) evt es s =
     (case es of
        [] \<Rightarrow> None
      | (env, running) # es1 \<Rightarrow>
          if \<not> running then Some (evt, env s, es1)
          else (case ev evt of
                  None \<Rightarrow> None
                | Some d \<Rightarrow>
                    (case perf_offer c d n evt (ptr evt) es1 (env s) of
                       None \<Rightarrow> None
                     | Some (s1, es2) \<Rightarrow> perf_send_loop c ev ptr n k (evt + 1) es2 s1)))"

text \<open>The wait for the frames: until the counts agree, there is an error, or the program is stopped.\<close>

fun perf_wait :: "u32 \<Rightarrow> send_schedule \<Rightarrow> seg_state \<Rightarrow> seg_state option" where
  "perf_wait expected [] s = None"
| "perf_wait expected ((env, running) # es) s =
     (let s1 = env s
      in if \<not> running then Some s1
         else case seg_ReportedStats (sg_sendStats s1) of
                (msgCnt, errCnt, _, _) \<Rightarrow>
                  if ucast expected = msgCnt \<or> errCnt > 0 then Some s1 else perf_wait expected es s1)"

text \<open>
  \<open>sendEvents\<close>: the number of events offered and the segmenter after the wait.  \<open>junk\<close> is what malloc
  leaves in the buffer of each event, \<open>addr\<close> the pointers of separate buffers.  Outer \<open>None\<close> is a
  write outside the buffer or a loop still running.
\<close>

definition sendEvents ::
  "'w sock_ops \<Rightarrow> (Code \<Rightarrow> bool) \<Rightarrow> segmenter \<Rightarrow> u64 \<Rightarrow> nat \<Rightarrow> nat \<Rightarrow> bool \<Rightarrow> (nat \<Rightarrow> nat \<Rightarrow> u8) \<Rightarrow> (nat \<Rightarrow> nat) \<Rightarrow>
     send_schedule \<Rightarrow> seg_state \<Rightarrow> 'w \<Rightarrow> (nat result \<times> seg_state \<times> 'w) option" where
  "sendEvents ops isSel sg startEventNum numEvents eventBufSize realmalloc junk addr es s w =
     (let expected = expectedFrames numEvents eventBufSize (sg_mtu sg) (sf_dpV6 (sg_flags sg))
      in if sg_maxPldLen (sg_cfg sg) < length eventPldStart + length eventPldEnd then
           Some (Err LogicError ''MTU is too short to send needed payload'', s, w)
         else case seg_openAndStart ops isSel sg s w of
                (Inl e, run, s1, w1) \<Rightarrow> Some (Inl e, s1, w1)
              | (Inr _, run, s1, w1) \<Rightarrow>
                  (case (if realmalloc then Some [] else fill_event eventBufSize) of
                     None \<Rightarrow> None
                   | Some one \<Rightarrow>
                       (case perf_send_loop (sg_cfg sg)
                               (\<lambda>evt. if realmalloc then map_option (buffer_bytes (junk evt)) (fill_event eventBufSize)
                                      else Some (buffer_bytes (junk 0) one))
                               (\<lambda>evt. if realmalloc then addr evt else 0) eventBufSize numEvents 0 es s1 of
                          None \<Rightarrow> None
                        | Some (evt, s2, es2) \<Rightarrow>
                            (case perf_wait expected es2 s2 of None \<Rightarrow> None | Some s3 \<Rightarrow> Some (Ok evt, s3, w1)))))"
section \<open>Receiving\<close>

text \<open>
  \<open>recvEvents\<close>: each element of the schedule is a turn of the loop, with the clock, the stop flag and the
  wake ups of \<open>recvEvent\<close> and the clock read after it (in nanoseconds, \<open>start\<close> the first reading).  An
  event that arrives after the time is up is not looked at.  The end of the list is \<open>threadsRunning\<close>
  turned false; \<open>None\<close> is still waiting, or a read outside an event.
\<close>

fun perf_recv ::
  "int \<Rightarrow> int \<Rightarrow> (nat \<Rightarrow> u8) \<Rightarrow> (int \<times> bool \<times> wake_up list \<times> int) list \<Rightarrow> u64 \<times> u64 \<Rightarrow> reas_shared \<Rightarrow>
     ((u64 \<times> u64) \<times> reas_shared) option" where
  "perf_recv start durationSec junk [] counts g = Some (counts, g)"
| "perf_recv start durationSec junk ((nowT, stop, ws, nextTimeT) # turns) (mang, errs) g =
     (case recvEvent nowT 1000 stop ws g of
        None \<Rightarrow> None
      | Some (res, got, g1) \<Rightarrow>
          if durationSec \<noteq> 0 \<and> nextTimeT - start > durationSec * 1000000000 then Some ((mang, errs), g1)
          else (case res of
                  Inl _ \<Rightarrow> perf_recv start durationSec junk turns (mang, errs + 1) g1
                | Inr r \<Rightarrow>
                    if r = -1 then perf_recv start durationSec junk turns (mang, errs) g1
                    else (case got of
                            None \<Rightarrow> None
                          | Some (b, n, num, d) \<Rightarrow>
                              (case mangled (take n (buffer_bytes junk b)) of
                                 None \<Rightarrow> None
                               | Some m \<Rightarrow>
                                   perf_recv start durationSec junk turns (if m then mang + 1 else mang, errs) g1))))"

text \<open>One turn of the statistics thread: the lost events so far and the counters it prints.\<close>

definition perf_stats_tick ::
  "(u64 \<times> u16 \<times> nat) list \<Rightarrow> reas_shared \<Rightarrow> (u64 \<times> u16 \<times> nat) list \<times> ReportedStats \<times> reas_shared" where
  "perf_stats_tick lostEvents g = (case list_lost g of (es, g1) \<Rightarrow> (lostEvents @ es, reas_getStats g, g1))"

section \<open>Starting and ending\<close>

definition perf_ip :: "perf_args \<Rightarrow> string option" where
  "perf_ip a = (if pa_autoip a then None else Some (pa_ip a))"

definition perf_new_segmenter ::
  "host_ops \<Rightarrow> seg_host \<Rightarrow> (Code \<Rightarrow> bool) \<Rightarrow> perf_args \<Rightarrow> SegmenterFlags \<Rightarrow> EjfatURI \<Rightarrow> thrown + segmenter" where
  "perf_new_segmenter h sh isSel a f uri =
     (if vm_count (pa_vm a) ''cores'' then Segmenter_new h sh isSel uri (pa_dataid a) (pa_src a) (pa_cores a) f
      else Segmenter_new_nocores h sh isSel uri (pa_dataid a) (pa_src a) f)"

definition perf_new_reassembler ::
  "host_ops \<Rightarrow> seg_host \<Rightarrow> perf_args \<Rightarrow> ReassemblerFlags \<Rightarrow> EjfatURI \<Rightarrow> reassembler constructed option" where
  "perf_new_reassembler h sh a f uri =
     (if \<not> pa_autoip a then
        (case make_address h (pa_ip a) of
           None \<Rightarrow> None
         | Some ip \<Rightarrow>
             if vm_count (pa_vm a) ''cores'' then Reassembler_cores h sh uri ip (pa_port a) (pa_cores a) f
             else Reassembler_threads h uri ip (pa_port a) (pa_threads a) f)
      else if vm_count (pa_vm a) ''cores'' then Reassembler_auto_cores h sh uri (pa_port a) (pa_cores a) f (pa_dpv6 a)
      else Reassembler_auto_threads h sh uri (pa_port a) (pa_threads a) f (pa_dpv6 a))"

text \<open>
  \<open>shutDown\<close>.  Of a sender: the destructor of the segmenter waits until the queue is empty, over the turns given, and
  only then are the senders removed, so that outstanding data still goes out.
\<close>

definition perf_stop_sending ::
  "host_ops \<Rightarrow> route_ops \<Rightarrow> ('w, 'ws) lb_stub \<Rightarrow> 'v net_ops \<Rightarrow> byte_order \<Rightarrow> (Code \<Rightarrow> bool) \<Rightarrow> seg_cfg \<Rightarrow> (u64 \<times> u8 \<times> u16) list \<Rightarrow>
     LBManager option \<Rightarrow> string list \<Rightarrow> seg_state \<Rightarrow> 'w \<Rightarrow> 'v \<Rightarrow> (ft_exit \<times> seg_state \<times> 'w \<times> 'v) option" where
  "perf_stop_sending h r stub net hb isSel c turns lbm senders s w v =
     (case seg_drain turns net hb isSel c s v of
        None \<Rightarrow> None
      | Some (s1, v1) \<Rightarrow>
          (case ft_remove_senders h r stub lbm senders w of (_, w1) \<Rightarrow> Some (Exit 0, s1, w1, v1)))"

text \<open>
  Of a receiver: deregister, stop the threads, and print the fragments per port and their total.  Taking
  the value of a failed \<open>get_FDStats\<close> throws.
\<close>

definition perf_stop_receiving ::
  "('w, 'ws) lb_stub \<Rightarrow> reassembler \<Rightarrow> recv_thread list \<Rightarrow> reas_shared \<Rightarrow> 'w \<Rightarrow> ((u16 \<times> nat) list \<times> nat) option \<times> ft_exit \<times> 'w" where
  "perf_stop_receiving stub r ts g w =
     (case reas_deregisterWorker stub r w of
        (_, r1, w1) \<Rightarrow>
          (case reas_stopThreads r1 ts g of
             (r2, ts2, g2) \<Rightarrow>
               (case get_FDStats (ra_threadsStop r2) g2 of
                  Some (Inr fds) \<Rightarrow>
                    (case reas_destroy stub r2 ts2 g2 w1 of
                       (_, _, _, w2) \<Rightarrow> (Some (fds, sum_list (map snd fds)), Exit 0, w2))
                | _ \<Rightarrow> (None, Uncaught, w1))))"

text \<open>
  The sender as a whole: its flags, the registration, the constructor, \<open>sendEvents\<close>, and the shutdown.
  Every end after the registration is with 0.
\<close>

definition perf_send ::
  "host_ops \<Rightarrow> seg_host \<Rightarrow> ('w, 'ws) lb_stub \<Rightarrow> 'v sock_ops \<Rightarrow> (string \<Rightarrow> ini_tree option) \<Rightarrow> (Code \<Rightarrow> bool) \<Rightarrow> perf_args \<Rightarrow>
     EjfatURI \<Rightarrow> (nat \<Rightarrow> nat \<Rightarrow> u8) \<Rightarrow> (nat \<Rightarrow> nat) \<Rightarrow> send_schedule \<Rightarrow> 'v net_ops \<Rightarrow> byte_order \<Rightarrow> (u64 \<times> u8 \<times> u16) list \<Rightarrow>
     'w \<Rightarrow> 'v \<Rightarrow> (ft_exit \<times> 'w \<times> 'v) option" where
  "perf_send h sh stub ops read_ini isSel a uri junk addr es net hb turns w v =
     (case perf_segmenter_flags h read_ini a of
        Inl _ \<Rightarrow> Some (Exit (-1), w, v)
      | Inr f \<Rightarrow>
          (case register_senders h (sh_route sh) stub (sf_useCP f) (\<not> pa_novalidate a) (perf_prefer_host a) (perf_ip a) uri w of
             (None, w1) \<Rightarrow> Some (Uncaught, w1, v)
           | (Some (Inl code), w1) \<Rightarrow> Some (Exit code, w1, v)
           | (Some (Inr (lbm, senders)), w1) \<Rightarrow>
               (case perf_new_segmenter h sh isSel a f uri of
                  Inl (ThrowsException _) \<Rightarrow> Some (Exit 0, w1, v)
                | Inl (ThrowsInfo _) \<Rightarrow> Some (Uncaught, w1, v)
                | Inr sg \<Rightarrow>
                    (case sendEvents ops isSel sg (pa_enum a) (pa_num a) (pa_length a) (pa_realmalloc a) junk addr es
                            seg_state_new v of
                       None \<Rightarrow> None
                     | Some (_, s1, v1) \<Rightarrow>
                         map_option (\<lambda>(code, _, w2, v2). (code, w2, v2))
                           (perf_stop_sending h (sh_route sh) stub net hb isSel (sg_cfg sg) turns lbm senders s1 w1 v1)))))"

definition perf_start_receiving ::
  "host_ops \<Rightarrow> seg_host \<Rightarrow> ('w, 'ws) lb_stub \<Rightarrow> 'v sock_ops \<Rightarrow> (string \<Rightarrow> ini_tree option) \<Rightarrow> string option \<Rightarrow> perf_args \<Rightarrow>
     EjfatURI \<Rightarrow> 'w \<Rightarrow> 'v \<Rightarrow> (ft_exit + reassembler \<times> recv_thread list \<times> reas_shared) \<times> 'w \<times> 'v" where
  "perf_start_receiving h sh stub ops read_ini hostname a uri w v =
     (case perf_reassembler_flags h read_ini a of
        Inl _ \<Rightarrow> (Inl (Exit (-1)), w, v)
      | Inr f \<Rightarrow>
          (case perf_new_reassembler h sh a f uri of
             Some (Inl _) \<Rightarrow> (Inl (Exit 0), w, v)
           | None \<Rightarrow> (Inl Uncaught, w, v)
           | Some (Inr r) \<Rightarrow>
               (case prepareToReceive h stub ops hostname r reas_shared_new w v of
                  (Inl _, r1, ts, g1, w1, v1) \<Rightarrow>
                    (case perf_stop_receiving stub r1 ts g1 w1 of (_, code, w2) \<Rightarrow> (Inl code, w2, v1))
                | (Inr _, r1, ts, g1, w1, v1) \<Rightarrow> (Inr (r1, ts, g1), w1, v1))))"

text \<open>What is left in the queue when the program is interrupted goes out before the senders are removed.\<close>

lemma perf_stop_sends_rest:
  assumes "0 < sg_maxPldLen c" and "sg_numSendSockets c \<noteq> 0" and "length (sg_queue s) \<le> length turns"
  shows "\<exists>s' w'. perf_stop_sending h r stub wire_net hb isSel c turns lbm senders s w v =
    Some (Exit 0, s', w', v @ concat (map (item_frames hb c) (zip turns (sg_queue s)))) \<and> sg_queue s' = []"
  using seg_drain_wire[OF assms, of hb isSel v] by (fastforce simp: perf_stop_sending_def split: prod.split)

text \<open>The ports and totals printed are those of the descriptors, if the table of ports is as long as that of counts.\<close>

lemma perf_stop_receiving_report:
  assumes "perf_stop_receiving stub r ts g w = (rep, code, w')" and "\<not> ra_threadsStop r"
    and "length (rs_fragmentsPerFd g) \<le> length (rs_portPerFd g)"
  shows "code = Exit 0 \<and> (\<exists>fds. rep = Some (fds, sum_list (map snd fds)) \<and>
    fds = filter (\<lambda>(p, n). p \<noteq> 0) (zip (rs_portPerFd g) (rs_fragmentsPerFd g)))"
proof -
  obtain res r1 w1 where d: "reas_deregisterWorker stub r w = (res, r1, w1)" by (metis prod_cases3)
  then have "\<not> ra_threadsStop r1"
    using assms(2) by (auto simp: reas_deregisterWorker_def split: if_splits prod.splits)
  then show ?thesis using assms(1,3)
    by (auto simp: perf_stop_receiving_def d reas_stopThreads_def get_FDStats_def split: prod.splits)
qed

section \<open>What filling and checking do\<close>

lemma payload_lengths: "length eventPldStart = 32" "length eventPldEnd = 10"
  by (simp_all add: eventPldStart_def eventPldEnd_def string_bytes_def)

lemma fill_event_short: "n < 32 \<Longrightarrow> fill_event n = None"
  by (simp add: fill_event_def memcpy_at_def payload_lengths)

lemma length_buffer_bytes [simp]: "length (buffer_bytes junk b) = length b"
  by (simp add: buffer_bytes_def)

lemma fill_event_long:
  assumes "42 \<le> n"
  shows "\<exists>b. fill_event n = Some b \<and> length b = n \<and> take 32 (buffer_bytes junk b) = eventPldStart \<and>
    drop (n - 10) (buffer_bytes junk b) = eventPldEnd"
proof -
  let ?b1 = "buf_write 0 eventPldStart (new_buffer n)"
  let ?b = "buf_write (n - 10) eventPldEnd ?b1"
  have l1: "length ?b1 = n" using assms by (simp add: payload_lengths)
  have l: "length ?b = n" using assms l1 by (simp add: payload_lengths)
  have f: "fill_event n = Some ?b" using assms l1 by (simp add: fill_event_def memcpy_at_def payload_lengths)
  have nth: "buffer_bytes junk ?b ! i = (if n - 10 \<le> i then eventPldEnd ! (i - (n - 10)) else eventPldStart ! i)"
    if "i < n" "i < 32 \<or> n - 10 \<le> i" for i
    using that assms l l1 by (auto simp: buffer_bytes_def nth_buf_write payload_lengths)
  have "take 32 (buffer_bytes junk ?b) = eventPldStart"
    by (rule nth_equalityI) (use assms l nth payload_lengths in auto)
  moreover have "drop (n - 10) (buffer_bytes junk ?b) = eventPldEnd"
  proof (rule nth_equalityI)
    show "length (drop (n - 10) (buffer_bytes junk ?b)) = length eventPldEnd"
      using assms l by (simp add: payload_lengths)
    fix i assume "i < length (drop (n - 10) (buffer_bytes junk ?b))"
    then have "i < 10" using l assms by simp
    then have a: "n - 10 + i < n" "n - 10 \<le> n - 10 + i" "n - 10 + i - (n - 10) = i" using assms by simp_all
    have "buffer_bytes junk ?b ! (n - 10 + i) = eventPldEnd ! i"
      using nth[OF a(1) disjI2[OF a(2)]] a(2,3) by (simp only: if_True)
    moreover have "n - 10 \<le> length (buffer_bytes junk ?b)" using l by simp
    ultimately show "drop (n - 10) (buffer_bytes junk ?b) ! i = eventPldEnd ! i" by (simp only: nth_drop)
  qed
  ultimately show ?thesis using f l by blast
qed

text \<open>The check of an event of 41 bytes or more looks at 31 bytes at its start and 9 of the last 10.\<close>

lemma mangled_long:
  assumes "32 \<le> length ev"
  shows "mangled ev = Some (take 31 ev \<noteq> take 31 eventPldStart \<or> take 9 (drop (length ev - 10) ev) \<noteq> take 9 eventPldEnd)"
  using assms by (simp add: mangled_def payload_lengths slice_at_def)

lemma filled_not_mangled:
  assumes "42 \<le> n" and "fill_event n = Some b"
  shows "mangled (buffer_bytes junk b) = Some False"
proof -
  have l: "length b = n" and t: "take 32 (buffer_bytes junk b) = eventPldStart"
    and d: "drop (n - 10) (buffer_bytes junk b) = eventPldEnd"
    using fill_event_long[OF assms(1), of junk] assms(2) by auto
  have "take 31 (buffer_bytes junk b) = take 31 (take 32 (buffer_bytes junk b))" by simp
  then have "take 31 (buffer_bytes junk b) = take 31 eventPldStart" unfolding t .
  then show ?thesis using assms(1) l d by (simp add: mangled_long)
qed

text \<open>Events of the queue received without a time limit: as many are counted as the check finds.\<close>

definition event_mangled :: "(nat \<Rightarrow> u8) \<Rightarrow> reas_item \<Rightarrow> bool option" where
  "event_mangled junk i = mangled (take (ri_bytes i) (buffer_bytes junk (ri_event i)))"

lemma perf_recv_queue:
  assumes "\<forall>i\<in>set (rs_eventQueue g). event_mangled junk i \<noteq> None"
  shows "\<exists>g'. perf_recv start 0 junk (map (\<lambda>_. (0, False, [], 0)) (rs_eventQueue g)) (mang, errs) g =
    Some ((mang + word_of_nat (length (filter (\<lambda>i. event_mangled junk i = Some True) (rs_eventQueue g))), errs), g') \<and>
    rs_eventQueue g' = []"
  using assms
proof (induction "rs_eventQueue g" arbitrary: g mang)
  case Nil
  then show ?case by simp
next
  case (Cons i q)
  let ?g1 = "g\<lparr>rs_eventQueue := q, rs_eventQueueDepth := rs_eventQueueDepth g - 1\<rparr>"
  have r: "recvEvent 0 1000 False [] g = Some (Ok 0, Some (ri_event i, ri_bytes i, ri_eventNum i, ri_dataId i), ?g1)"
    using Cons.hyps(2)[symmetric] by (simp add: recvEvent_def reas_dequeue_def item_out_def)
  obtain m where m: "mangled (take (ri_bytes i) (buffer_bytes junk (ri_event i))) = Some m"
    using Cons.prems Cons.hyps(2)[symmetric] by (auto simp: event_mangled_def)
  have q: "q = rs_eventQueue ?g1" "\<forall>i\<in>set (rs_eventQueue ?g1). event_mangled junk i \<noteq> None"
    using Cons.prems Cons.hyps(2)[symmetric] by simp_all
  from Cons.hyps(1)[OF q, of "if m then mang + 1 else mang"] show ?case
    by (cases m) (simp_all add: Cons.hyps(2)[symmetric] r m event_mangled_def add_ac)
qed

text \<open>Test events that arrive as they were filled are not counted as mangled; the check does not see the last
  character of the opening text, and a buffer of 31 bytes is overrun when it is filled.\<close>

lemma perf_events_checked:
  assumes "42 \<le> n" and "fill_event n = Some b"
    and "\<forall>i\<in>set (rs_eventQueue g). ri_bytes i = n \<and> ri_event i = map Some (buffer_bytes (junk i) b)"
  shows "\<exists>g'. perf_recv start 0 jk (map (\<lambda>_. (0, False, [], 0)) (rs_eventQueue g)) (mang, errs) g =
      Some ((mang, errs), g') \<and> rs_eventQueue g' = [] \<and>
      mangled ((buffer_bytes jk b)[31 := x]) = Some False \<and> fill_event 31 = None"
proof -
  have l: "length b = n" using fill_event_long[OF assms(1), of jk] assms(2) by auto
  have id: "buffer_bytes jk (map Some xs) = xs" for xs
    by (rule nth_equalityI) (simp_all add: buffer_bytes_def)
  have ok: "event_mangled jk i = Some False" if "i \<in> set (rs_eventQueue g)" for i
    using assms(3) that filled_not_mangled[OF assms(1,2)] l by (simp add: event_mangled_def id)
  then have "filter (\<lambda>i. event_mangled jk i = Some True) (rs_eventQueue g) = []" by (simp add: filter_empty_conv)
  moreover have "\<forall>i\<in>set (rs_eventQueue g). event_mangled jk i \<noteq> None" using ok by simp
  moreover have "mangled ((buffer_bytes jk b)[31 := x]) = mangled (buffer_bytes jk b)"
    using assms(1) l by (simp add: mangled_long)
  ultimately show ?thesis
    using perf_recv_queue[of g jk start mang errs] filled_not_mangled[OF assms(1,2), of jk] fill_event_short[of 31] by auto
qed

end
