(* ===== verification/E2SAR_Pacing.thy ===== *)
theory E2SAR_Pacing
  imports E2SAR_Sending Complex_Main
begin

text \<open>
  The rate limiter of the segmenter's send thread: how long it waits between events, or between the
  datagrams of one event when smoothing is on, and the busy wait itself.  Times are in nanoseconds, so
  a rate in Gbps is one in bits per nanosecond; floats are rationals (with smoothing and a rate of 0 the
  code's quotient is infinite and the cast undefined; here it is 0, which like the negative number of
  common hardware means no wait).
\<close>

section \<open>How long to wait\<close>

text \<open>\<^verbatim>\<open>static_cast<int64_t>\<close> of a float truncates.\<close>

definition to_int64 :: "rat \<Rightarrow> int" where
  "to_int64 x = (if x < 0 then \<lceil>x\<rceil> else \<lfloor>x\<rfloor>)"

definition rateLimit :: "rat \<Rightarrow> bool" where
  "rateLimit rateGbps \<longleftrightarrow> rateGbps > 0"

text \<open>The number of bits of an event is computed in the 32 bits of its length.\<close>

definition interEventSleepUsec :: "u32 \<Rightarrow> rat \<Rightarrow> int" where
  "interEventSleepUsec bytes rateGbps = to_int64 (of_int (uint (bytes * 8)) / (rateGbps * 1000))"

definition interFrameSleepUsec :: "bool \<Rightarrow> nat \<Rightarrow> nat \<Rightarrow> rat \<Rightarrow> int" where
  "interFrameSleepUsec smooth mtu numSendSockets rateGbps =
     (if smooth then to_int64 (of_nat (mtu * 8) / (rateGbps / of_nat numSendSockets * 1000)) else 0)"

section \<open>Waiting\<close>

text \<open>Each element is a reading of the clock; \<open>None\<close> is a wait that has not ended with the last of them.\<close>

fun busyWaitUsecs :: "int \<Rightarrow> int \<Rightarrow> int list \<Rightarrow> int list option" where
  "busyWaitUsecs tp usecs [] = None"
| "busyWaitUsecs tp usecs (t # ts) = (if cpp_div (t - tp) 1000 > usecs then Some ts else busyWaitUsecs tp usecs ts)"

text \<open>A sequence of turns: read the clock, send, wait if there is something to wait for; the first readings.\<close>

fun paced :: "int list \<Rightarrow> int list \<Rightarrow> int list option" where
  "paced [] ts = Some []"
| "paced (s # ss) ts =
     (case ts of
        [] \<Rightarrow> None
      | now # ts1 \<Rightarrow>
          (case (if s > 0 then busyWaitUsecs now s ts1 else Some ts1) of
             None \<Rightarrow> None
           | Some ts2 \<Rightarrow> map_option ((#) now) (paced ss ts2)))"

text \<open>
  The events of the queue, and the datagrams of one event: only those of plain \<^verbatim>\<open>sendmsg\<close> calls are
  spaced, with \<^verbatim>\<open>sendmmsg\<close> or io_uring smoothing has no effect.
\<close>

definition paced_events :: "bool \<Rightarrow> rat \<Rightarrow> u32 list \<Rightarrow> int list \<Rightarrow> int list option" where
  "paced_events smooth rateGbps sizes ts =
     (if \<not> smooth \<and> rateLimit rateGbps then paced (map (\<lambda>b. interEventSleepUsec b rateGbps) sizes) ts else Some [])"

definition paced_frames :: "bool \<Rightarrow> bool \<Rightarrow> nat \<Rightarrow> nat \<Rightarrow> rat \<Rightarrow> nat \<Rightarrow> int list \<Rightarrow> int list option" where
  "paced_frames plain smooth mtu numSendSockets rateGbps n ts =
     (let s = interFrameSleepUsec smooth mtu numSendSockets rateGbps
      in if plain \<and> s > 0 then paced (replicate n s) ts else Some [])"

section \<open>What pacing guarantees\<close>

lemma busyWaitUsecs_suffix:
  assumes "busyWaitUsecs tp usecs ts = Some us"
  shows "\<exists>t vs. ts = vs @ t # us \<and> cpp_div (t - tp) 1000 > usecs"
  using assms
proof (induction ts)
  case Nil
  then show ?case by simp
next
  case (Cons t ts)
  show ?case
  proof (cases "cpp_div (t - tp) 1000 > usecs")
    case True
    then show ?thesis using Cons.prems by (intro exI[of _ t] exI[of _ "[]"]) simp
  next
    case False
    then obtain t' vs where "ts = vs @ t' # us" "cpp_div (t' - tp) 1000 > usecs"
      using Cons.IH Cons.prems by auto
    then show ?thesis by (intro exI[of _ t'] exI[of _ "t # vs"]) simp
  qed
qed

lemma busyWaitUsecs_late:
  assumes "busyWaitUsecs tp usecs ts = Some us" and "sorted (tp # ts)" and "0 \<le> usecs"
  shows "sorted us \<and> (\<forall>u\<in>set us. tp + 1000 * (usecs + 1) \<le> u)"
proof -
  obtain t vs where t: "ts = vs @ t # us" "cpp_div (t - tp) 1000 > usecs"
    using busyWaitUsecs_suffix[OF assms(1)] by blast
  have le: "tp \<le> t" "sorted (t # us)" using assms(2) t(1) by (auto simp: sorted_append)
  have "cpp_div (t - tp) 1000 = (t - tp) div 1000" by (rule cpp_div_nonneg) (use le in auto)
  then have "usecs + 1 \<le> (t - tp) div 1000" using t(2) by simp
  then have "(usecs + 1) * 1000 \<le> (t - tp) div 1000 * 1000" by (intro mult_right_mono) auto
  also have "\<dots> \<le> t - tp" by linarith
  finally have "tp + 1000 * (usecs + 1) \<le> t" by simp
  then show ?thesis using le by fastforce
qed

text \<open>On a clock that does not go back: between the first and the last turn lie all waits but the last.\<close>

lemma paced_spacing:
  assumes "paced ss ts = Some starts" and "sorted ts" and "\<forall>s\<in>set ss. 0 < s" and "ss \<noteq> []"
  shows "length starts = length ss \<and> hd starts \<in> set ts \<and>
    hd starts + 1000 * sum_list (map (\<lambda>s. s + 1) (butlast ss)) \<le> last starts"
  using assms
proof (induction ss arbitrary: ts starts)
  case Nil
  then show ?case by simp
next
  case (Cons s ss)
  obtain now ts1 ts2 rest where r: "ts = now # ts1" "busyWaitUsecs now s ts1 = Some ts2"
    "paced ss ts2 = Some rest" "starts = now # rest"
    using Cons.prems(1,3) by (auto split: list.splits option.splits if_splits)
  have w: "sorted ts2 \<and> (\<forall>u\<in>set ts2. now + 1000 * (s + 1) \<le> u)"
    by (rule busyWaitUsecs_late[OF r(2)]) (use Cons.prems r(1) in auto)
  show ?case
  proof (cases "ss = []")
    case True
    then show ?thesis using r by simp
  next
    case False
    have i: "length rest = length ss \<and> hd rest \<in> set ts2 \<and>
        hd rest + 1000 * sum_list (map (\<lambda>s. s + 1) (butlast ss)) \<le> last rest"
      by (rule Cons.IH[OF r(3)]) (use w Cons.prems False in auto)
    moreover have "now + 1000 * (s + 1) \<le> hd rest" using i w by blast
    moreover have "rest \<noteq> []" using i False by auto
    ultimately show ?thesis using False r by simp
  qed
qed

text \<open>Whatever a turn has to send, if its wait is long enough for it the whole sequence keeps to the rate.\<close>

lemma paced_rate:
  assumes "paced (map sl xs) ts = Some starts" and "sorted ts" and "xs \<noteq> []" and "0 < rateGbps"
    and "\<forall>x\<in>set xs. 0 < sl x \<and> of_int (bits x) \<le> rateGbps * of_int (1000 * (sl x + 1))"
  shows "of_int (sum_list (map bits (butlast xs))) \<le> (rateGbps :: rat) * of_int (last starts - hd starts)"
proof -
  have "hd starts + 1000 * sum_list (map (\<lambda>s. s + 1) (butlast (map sl xs))) \<le> last starts"
    using paced_spacing[OF assms(1,2)] assms(3,5) by simp
  then have t: "1000 * sum_list (map (\<lambda>x. sl x + 1) (butlast xs)) \<le> last starts - hd starts"
    by (simp add: map_butlast[symmetric] comp_def)
  have "of_int (sum_list (map bits ys)) \<le> rateGbps * of_int (1000 * sum_list (map (\<lambda>x. sl x + 1) ys))"
    if "set ys \<subseteq> set xs" for ys
    using that
  proof (induction ys)
    case Nil
    then show ?case by simp
  next
    case (Cons y ys)
    have "of_int (bits y) \<le> rateGbps * of_int (1000 * (sl y + 1))" using assms(5) Cons.prems by simp
    then show ?case using Cons by (simp add: algebra_simps)
  qed
  then have "of_int (sum_list (map bits (butlast xs))) \<le>
      rateGbps * of_int (1000 * sum_list (map (\<lambda>x. sl x + 1) (butlast xs)))"
    by (metis in_set_butlastD subsetI)
  also have "\<dots> \<le> rateGbps * of_int (last starts - hd starts)"
    using t assms(4) by (intro mult_left_mono) auto
  finally show ?thesis .
qed

text \<open>The truncated quotient is at most a microsecond short, and the wait lasts that much longer.\<close>

lemma truncated_wait:
  assumes "0 < rateGbps" and "rateGbps * 1000 \<le> (x :: rat)"
  shows "0 < to_int64 (x / (rateGbps * 1000))" and "x \<le> rateGbps * of_int (1000 * (to_int64 (x / (rateGbps * 1000)) + 1))"
proof -
  have q: "1 \<le> x / (rateGbps * 1000)" using assms by (simp add: le_divide_eq)
  then show "0 < to_int64 (x / (rateGbps * 1000))"
    unfolding to_int64_def by (simp add: le_floor_iff less_le_trans)
  have "x / (rateGbps * 1000) \<le> of_int (to_int64 (x / (rateGbps * 1000))) + 1"
    unfolding to_int64_def using q by (simp add: le_less) linarith
  then show "x \<le> rateGbps * of_int (1000 * (to_int64 (x / (rateGbps * 1000)) + 1))"
    using assms(1) by (simp add: divide_le_eq algebra_simps)
qed

text \<open>Events long enough to be waited for: what is sent before the last one stays within the rate.\<close>

lemma paced_events_rate:
  assumes "0 < rateGbps" and "sorted ts" and "sizes \<noteq> []" and "paced_events False rateGbps sizes ts = Some starts"
    and "\<forall>b\<in>set sizes. uint b * 8 < 2 ^ 32 \<and> rateGbps * 1000 \<le> of_int (uint b * 8)"
  shows "of_int (sum_list (map (\<lambda>b. uint b * 8) (butlast sizes))) \<le> rateGbps * of_int (last starts - hd starts)"
proof (rule paced_rate[where sl = "\<lambda>b. interEventSleepUsec b rateGbps", OF _ assms(2,3,1)])
  show "paced (map (\<lambda>b. interEventSleepUsec b rateGbps) sizes) ts = Some starts"
    using assms(1,4) by (simp add: paced_events_def rateLimit_def)
  show "\<forall>b\<in>set sizes. 0 < interEventSleepUsec b rateGbps \<and>
      of_int (uint b * 8) \<le> rateGbps * of_int (1000 * (interEventSleepUsec b rateGbps + 1))"
  proof
    fix b assume "b \<in> set sizes"
    then have "uint (b * 8) = uint b * 8" "rateGbps * 1000 \<le> of_int (uint (b * 8))"
      using assms(5) by (simp_all add: uint_word_ariths)
    then show "0 < interEventSleepUsec b rateGbps \<and>
        of_int (uint b * 8) \<le> rateGbps * of_int (1000 * (interEventSleepUsec b rateGbps + 1))"
      unfolding interEventSleepUsec_def using truncated_wait[OF assms(1)] by metis
  qed
qed

text \<open>With smoothing the datagrams of one event leave a socket within its share of the rate.\<close>

lemma paced_frames_rate:
  assumes "0 < rateGbps" and "0 < numSendSockets" and "sorted ts" and "0 < n"
    and "rateGbps / of_nat numSendSockets * 1000 \<le> of_nat (mtu * 8)"
    and "paced_frames True True mtu numSendSockets rateGbps n ts = Some starts"
  shows "of_nat ((n - 1) * (mtu * 8)) \<le> rateGbps / of_nat numSendSockets * of_int (last starts - hd starts)"
proof -
  let ?r = "rateGbps / of_nat numSendSockets" and ?s = "interFrameSleepUsec True mtu numSendSockets rateGbps"
  have r: "0 < ?r" using assms(1,2) by simp
  have w: "0 < ?s" "of_nat (mtu * 8) \<le> ?r * of_int (1000 * (?s + 1))"
    using truncated_wait[OF r assms(5)] by (simp_all add: interFrameSleepUsec_def)
  have p: "paced (map (\<lambda>_. ?s) (replicate n ())) ts = Some starts"
    using assms(6) w(1) by (simp add: paced_frames_def Let_def map_replicate_const)
  have "of_int (sum_list (map (\<lambda>_. int (mtu * 8)) (butlast (replicate n ())))) \<le> ?r * of_int (last starts - hd starts)"
    by (rule paced_rate[OF p assms(3) _ r]) (use assms(4) w in auto)
  moreover have "butlast (replicate n ()) = replicate (n - 1) ()" by (simp add: butlast_conv_take take_replicate)
  ultimately show ?thesis by (simp add: map_replicate_const sum_list_replicate)
qed

section \<open>Pacing ends\<close>

text \<open>
  The readings as they come: \<open>c i\<close> is the \<open>i\<close>-th.  A clock that passes every time ends every wait,
  and more readings do not change what happened.
\<close>

lemma busyWaitUsecs_upt:
  assumes "i \<le> k" and "usecs < cpp_div (c k - tp) 1000"
  shows "\<exists>j. \<forall>n\<ge>j. busyWaitUsecs tp usecs (map c [i..<n]) = Some (map c [j..<n])"
  using assms
proof (induction "k - i" arbitrary: i)
  case 0
  then have "busyWaitUsecs tp usecs (map c [i..<n]) = Some (map c [Suc i..<n])" if "Suc i \<le> n" for n
    using that by (simp add: upt_conv_Cons)
  then show ?case by blast
next
  case (Suc d)
  show ?case
  proof (cases "usecs < cpp_div (c i - tp) 1000")
    case True
    then have "busyWaitUsecs tp usecs (map c [i..<n]) = Some (map c [Suc i..<n])" if "Suc i \<le> n" for n
      using that by (simp add: upt_conv_Cons)
    then show ?thesis by blast
  next
    case False
    obtain j where j: "\<forall>n\<ge>j. busyWaitUsecs tp usecs (map c [Suc i..<n]) = Some (map c [j..<n])"
      using Suc.hyps(1)[of "Suc i"] Suc.hyps(2) Suc.prems by fastforce
    have "busyWaitUsecs tp usecs (map c [i..<n]) = Some (map c [j..<n])" if "j \<le> n" for n
    proof -
      have w: "busyWaitUsecs tp usecs (map c [Suc i..<n]) = Some (map c [j..<n])" using j that by blast
      then have "i < n" by (cases "i < n") auto
      then show ?thesis using False w by (simp add: upt_conv_Cons)
    qed
    then show ?thesis by blast
  qed
qed

lemma busyWaitUsecs_returns:
  assumes "\<forall>x. \<exists>k\<ge>i. x \<le> c k" and "0 \<le> usecs"
  shows "\<exists>j. \<forall>n\<ge>j. busyWaitUsecs tp usecs (map c [i..<n]) = Some (map c [j..<n])"
proof -
  obtain k where k: "i \<le> k" "tp + (usecs + 1) * 1000 \<le> c k" using assms(1) by blast
  have "(usecs + 1) * 1000 div 1000 \<le> (c k - tp) div 1000" by (rule zdiv_mono1) (use k in auto)
  moreover have "cpp_div (c k - tp) 1000 = (c k - tp) div 1000" by (rule cpp_div_nonneg) (use k assms(2) in auto)
  ultimately show ?thesis by (intro busyWaitUsecs_upt[OF k(1)]) simp
qed

lemma paced_returns:
  assumes "\<forall>x i. \<exists>k\<ge>i. x \<le> c k"
  shows "\<exists>N starts. \<forall>n\<ge>N. paced ss (map c [i..<n]) = Some starts"
proof (induction ss arbitrary: i)
  case Nil
  then show ?case by simp
next
  case (Cons s ss)
  obtain j where j: "\<forall>n\<ge>j. (if s > 0 then busyWaitUsecs (c i) s (map c [Suc i..<n]) else Some (map c [Suc i..<n]))
      = Some (map c [j..<n])"
  proof (cases "s > 0")
    case True
    then show ?thesis using that busyWaitUsecs_returns[of "Suc i" c s "c i"] assms by auto
  qed (use that in auto)
  obtain N starts where N: "\<forall>n\<ge>N. paced ss (map c [j..<n]) = Some starts" using Cons.IH by blast
  have "paced (s # ss) (map c [i..<n]) = Some (c i # starts)" if "max (Suc i) (max j N) \<le> n" for n
    using that j N by (simp add: upt_conv_Cons)
  then show ?case by blast
qed

section \<open>The event rate\<close>

text \<open>
  The rate of events over the samples of the sync thread, which sync messages no longer carry (they say 1 MHz): all
  events of the samples times 10 ^ 9, in 64 bits, over the time since the first sample, rounded.
  \<open>None\<close>: a quotient that is infinite or too large for the conversion to 32 bits.
\<close>

definition eventRate :: "SendStats list \<Rightarrow> u64 \<Rightarrow> u32 option" where
  "eventRate eventStatsBuffer currentTimeNanos =
     (case eventStatsBuffer of
        [] \<Rightarrow> Some 1
      | first # _ \<Rightarrow>
          (let eventTotal = sum_list (map eventsSinceLastSync eventStatsBuffer);
               timeDiff = currentTimeNanos - lastSyncTimeNanos first;
               rate = \<lfloor>rat_of_int (uint (eventTotal * 1000000000)) / rat_of_int (uint timeDiff) + 1 / 2\<rfloor>
           in if timeDiff = 0 \<or> 2 ^ 32 \<le> rate then None else Some (word_of_int rate)))"

text \<open>With \<open>k\<close> samples of \<open>n\<close> events each over \<open>t\<close> nanoseconds, as long as nothing wraps.\<close>

lemma eventRate_steady:
  assumes "st \<noteq> []" and "\<forall>x\<in>set st. unat (eventsSinceLastSync x) = n" and "length st * n * 1000000000 < 2 ^ 64"
    and "lastSyncTimeNanos (hd st) = t0" and "unat (now - t0) = t" and "0 < t"
    and "\<lfloor>rat_of_nat (length st * n * 1000000000) / rat_of_nat t + 1 / 2\<rfloor> < 2 ^ 32"
  shows "eventRate st now = Some (word_of_int \<lfloor>rat_of_nat (length st * n * 1000000000) / rat_of_nat t + 1 / 2\<rfloor>)"
proof -
  obtain x xs where st: "st = x # xs" using assms(1) by (cases st) auto
  have total: "sum_list (map eventsSinceLastSync ys) = word_of_nat (length ys * n)"
    if "\<forall>x\<in>set ys. unat (eventsSinceLastSync x) = n" for ys
    using that
  proof (induction ys)
    case Nil
    then show ?case by simp
  next
    case (Cons y ys)
    then have "eventsSinceLastSync y = word_of_nat n" by auto
    then show ?case using Cons by simp
  qed
  have "sum_list (map eventsSinceLastSync st) * 1000000000 = word_of_nat (length st * n * 1000000000)"
    unfolding total[OF assms(2)] by simp
  then have tot: "uint (sum_list (map eventsSinceLastSync st) * 1000000000) = int (length st * n * 1000000000)"
    by (simp only: uint_nat unat_u64[OF assms(3)])
  have diff: "uint (now - lastSyncTimeNanos x) = int t" "now - lastSyncTimeNanos x \<noteq> 0"
    using assms(4-6) st by (auto simp: uint_nat unat_eq_zero)
  show ?thesis
    using diff(2) assms(7)
    unfolding eventRate_def st list.case Let_def tot[unfolded st] diff(1) of_int_of_nat_eq not_le[symmetric]
    by (simp only: if_False simp_thms)
qed

end
