(* ===== verification/E2SAR_Transmission.thy ===== *)
theory E2SAR_Transmission
  imports E2SAR_Sending
begin

text \<open>
  The three ways of transmission (\<^verbatim>\<open>sendmsg\<close>, \<^verbatim>\<open>sendmmsg\<close>, io_uring) beside each other: what each does to the
  counters when the network takes everything, and that runs of the send thread are the same under all three.
\<close>

section \<open>The counters after an event\<close>

text \<open>The state and the network after an event that was accepted, whatever the way.\<close>

definition event_counted :: "(Code \<Rightarrow> bool) \<Rightarrow> nat \<Rightarrow> seg_state \<Rightarrow> seg_state" where
  "event_counted isSel nb s =
     (let s1 = on_sendStats (stats_sent (word_of_nat nb)) s
      in event_sent (if \<not> isSel sendmmsg \<and> isSel liburing_send
                     then s1\<lparr>sg_outstandingSends := sg_outstandingSends s1 + word_of_nat nb\<rparr> else s1))"

lemma emit_all_counted:
  assumes "\<And>fin f s w. emit fin f (s, w) = ((on_sendStats (stats_sent 1) s, w @ [f]), None)"
  shows "emit_all emit fs (s, w) = ((on_sendStats (stats_sent (word_of_nat (length fs))) s, w @ fs), None)"
proof (induction fs arbitrary: s w)
  case Nil
  then show ?case by (simp add: on_sendStats_def stats_sent_def)
next
  case (Cons f fs)
  then show ?case by (simp add: assms stats_sent_add)
qed

lemma seg_send_wire_counted:
  assumes "0 < sg_maxPldLen c"
  shows "seg_send wire_net h isSel c now lsb rnd event bytes eventNum dataId entropy rri cb arg s w =
    Some (Ok 0, event_counted isSel (numBuffers (sg_maxPldLen c) bytes) s,
      w @ seg_frames (seg_event_headers h c now lsb rnd bytes eventNum dataId entropy) (sg_maxPldLen c) bytes event)"
proof -
  let ?fs = "seg_frames (seg_event_headers h c now lsb rnd bytes eventNum dataId entropy) (sg_maxPldLen c) bytes event"
  consider (mmsg) "isSel sendmmsg" | (uring) "\<not> isSel sendmmsg" "isSel liburing_send"
    | (plain) "\<not> isSel sendmmsg" "\<not> isSel liburing_send" by blast
  then show ?thesis
  proof cases
    case mmsg
    have "op_sendmmsg wire_net rri ?fs w = (int (length ?fs), 0, w @ ?fs)" by (simp add: wire_net_def)
    from seg_send_mmsg[OF assms, where isSel = isSel, OF mmsg this, of cb arg s]
    show ?thesis using mmsg by (simp add: event_counted_def Let_def)
  next
    case uring
    show ?thesis
      using uring emit_all_counted[of "emit_uring wire_net rri cb arg", OF emit_uring_wire_step, of ?fs s w]
      by (simp add: seg_send_uring[OF assms uring] event_counted_def Let_def)
  next
    case plain
    show ?thesis
      using plain emit_all_counted[of "emit_sendmsg wire_net rri", OF emit_sendmsg_wire_step, of ?fs s w]
      by (simp add: seg_send_plain[OF assms plain] event_counted_def Let_def)
  qed
qed

lemma event_counted_simps [simp]:
  "sg_sendStats (event_counted isSel nb s) = stats_sent (word_of_nat nb) (sg_sendStats s)"
  "sg_queue (event_counted isSel nb s) = sg_queue s"
  "sg_userEventNum (event_counted isSel nb s) = sg_userEventNum s"
  "sg_callbacks (event_counted isSel nb s) = sg_callbacks s"
  by (simp_all add: event_counted_def Let_def event_sent_def on_sendStats_def)

section \<open>The three ways of transmission are equivalent\<close>

text \<open>
  What a ring that has sent everything reports for an event: no error for any datagram, and the
  callback with the last of them.
\<close>

definition completions :: "seg_cfg \<Rightarrow> seg_item \<Rightarrow> (int \<times> (nat \<times> nat) option) list" where
  "completions c i = replicate (numBuffers (sg_maxPldLen c) (unat (qi_bytes i)) - 1) (0, None) @
     [(0, map_option (\<lambda>f. (f, qi_cbArg i)) (qi_callback i))]"

text \<open>Turns of the send thread in a row, each with the completions that it reaps.\<close>

type_synonym send_turn_input = "u64 \<times> u8 \<times> u16 \<times> (int \<times> (nat \<times> nat) option) list list"

fun send_run ::
  "'w net_ops \<Rightarrow> byte_order \<Rightarrow> (Code \<Rightarrow> bool) \<Rightarrow> seg_cfg \<Rightarrow> send_turn_input list \<Rightarrow> seg_state \<Rightarrow> 'w \<Rightarrow>
     (seg_state \<times> 'w) option" where
  "send_run net h isSel c [] s w = Some (s, w)"
| "send_run net h isSel c ((now, lsb, rnd, cqes) # turns) s w =
     (case seg_thread_step net h isSel c now lsb rnd cqes s w of
        None \<Rightarrow> None
      | Some (s', w') \<Rightarrow> send_run net h isSel c turns s' w')"

text \<open>The ring reports every event in the turn that sends it, in batches of any size.\<close>

fun ring_completes :: "seg_cfg \<Rightarrow> send_turn_input list \<Rightarrow> seg_item list \<Rightarrow> bool" where
  "ring_completes c [] q = True"
| "ring_completes c (t # turns) [] = True"
| "ring_completes c ((now, lsb, rnd, cqes) # turns) (i # q) =
     (concat cqes = completions c i \<and> [] \<notin> set cqes \<and> ring_completes c turns q)"

lemma seg_reap_batches:
  assumes "[] \<notin> set cqes" and "\<forall>(res, cb)\<in>set (concat cqes). 0 \<le> res"
  shows "seg_reap cqes s = s\<lparr>
    sg_callbacks := sg_callbacks s @ concat (map (\<lambda>(res, cb). case cb of None \<Rightarrow> [] | Some fa \<Rightarrow> [fa]) (concat cqes)),
    sg_outstandingSends := sg_outstandingSends s - word_of_nat (length (concat cqes))\<rparr>"
  using assms
proof (induction cqes arbitrary: s)
  case Nil
  then show ?case by simp
next
  case (Cons b cqes)
  let ?cbs = "\<lambda>es. concat (map (\<lambda>(res, cb). case cb of None \<Rightarrow> [] | Some fa \<Rightarrow> [fa]) es)"
  have one: "fold reap_one es s = s\<lparr>sg_callbacks := sg_callbacks s @ ?cbs es\<rparr>"
    if "\<forall>(res, cb)\<in>set es. (0 :: int) \<le> res" for es s
    using that by (induction es arbitrary: s) (auto simp: reap_one_def Let_def split: option.splits)
  obtain e es where b: "b = e # es" using Cons.prems(1) by (cases b) auto
  have ok: "\<forall>(res, cb)\<in>set b. 0 \<le> res" "\<forall>(res, cb)\<in>set (concat cqes). 0 \<le> res" "[] \<notin> set cqes"
    using Cons.prems by auto
  have "seg_reap (b # cqes) s = seg_reap cqes
      (s\<lparr>sg_callbacks := sg_callbacks s @ ?cbs b, sg_outstandingSends := sg_outstandingSends s - word_of_nat (length b)\<rparr>)"
    using one[OF ok(1), of s] by (simp only: b seg_reap.simps Let_def) simp
  then show ?case using Cons.IH[OF ok(3,2)] by (simp add: algebra_simps)
qed

lemma reap_completions:
  assumes "concat cqes = completions c i" and "[] \<notin> set cqes" and "0 < sg_maxPldLen c" and "qi_bytes i \<noteq> 0"
  shows "seg_reap cqes s = s\<lparr>sg_callbacks := sg_callbacks s @ item_callback i,
    sg_outstandingSends := sg_outstandingSends s - word_of_nat (numBuffers (sg_maxPldLen c) (unat (qi_bytes i)))\<rparr>"
proof -
  have "0 < unat (qi_bytes i)" using assms(4) by (simp add: unat_gt_0)
  then have nb: "0 < numBuffers (sg_maxPldLen c) (unat (qi_bytes i))"
    using assms(3) by (simp add: numBuffers_def div_greater_zero_iff)
  have "concat (map (\<lambda>(res, cb). case cb of None \<Rightarrow> [] | Some fa \<Rightarrow> [fa]) (replicate k (0 :: int, None))) = ([] :: (nat \<times> nat) list)"
    for k by (induction k) simp_all
  then show ?thesis
    using nb assms(1) seg_reap_batches[OF assms(2), of s]
    by (cases "qi_callback i") (auto simp: completions_def item_callback_def)
qed

lemma seg_thread_step_equivalent:
  assumes m: "0 < sg_maxPldLen c" and n: "sg_numSendSockets c \<noteq> 0" and sel: "\<not> (isSel sendmmsg \<and> isSel liburing_send)"
    and ring: "isSel liburing_send \<Longrightarrow> ring_completes c [(now, lsb, rnd, cqes)] (sg_queue s)"
    and bytes: "\<forall>i\<in>set (sg_queue s). qi_bytes i \<noteq> 0"
  shows "seg_thread_step wire_net h isSel c now lsb rnd cqes s w =
    seg_thread_step wire_net h (\<lambda>_. False) c now lsb rnd [] s w"
proof (cases "sg_queue s")
  case Nil
  then show ?thesis by (simp add: seg_thread_step_def seg_pop_def)
next
  case (Cons i q)
  have p: "seg_pop (sg_queue s) = (q, Some i)" by (simp add: seg_pop_def Cons)
  show ?thesis
  proof (cases "isSel liburing_send")
    case True
    have "concat cqes = completions c i" "[] \<notin> set cqes" using ring[OF True] Cons by simp_all
    moreover have "qi_bytes i \<noteq> 0" using bytes Cons by simp
    ultimately show ?thesis
      using True sel unfolding seg_thread_step_def p prod.case option.case if_not_P[OF n] Let_def
        seg_send_wire_counted[OF m]
      by (cases "qi_callback i")
        (simp_all add: reap_completions[OF _ _ m] event_counted_def Let_def item_callback_def event_sent_def on_sendStats_def)
  next
    case False
    then show ?thesis
      unfolding seg_thread_step_def p prod.case option.case if_not_P[OF n] Let_def seg_send_wire_counted[OF m]
      by (cases "qi_callback i") (simp_all add: event_counted_def Let_def)
  qed
qed

lemma seg_thread_step_queue:
  assumes "0 < sg_maxPldLen c" and "sg_numSendSockets c \<noteq> 0"
  shows "\<exists>s' w'. seg_thread_step wire_net h (\<lambda>_. False) c now lsb rnd [] s w = Some (s', w') \<and> sg_queue s' = tl (sg_queue s)"
proof (cases "sg_queue s")
  case Nil
  then show ?thesis by (simp add: seg_thread_step_def seg_pop_def)
next
  case (Cons i q)
  then show ?thesis using seg_thread_step_wire[OF assms Cons] by (metis list.sel(3))
qed

lemma ring_completes_tl: "ring_completes c (t # turns) q \<Longrightarrow> ring_completes c [t] q \<and> ring_completes c turns (tl q)"
  by (cases t; cases q; cases turns) auto

lemma send_run_equivalent:
  assumes m: "0 < sg_maxPldLen c" and n: "sg_numSendSockets c \<noteq> 0" and sel: "\<not> (isSel sendmmsg \<and> isSel liburing_send)"
  shows "(isSel liburing_send \<Longrightarrow> ring_completes c turns (sg_queue s)) \<Longrightarrow> \<forall>i\<in>set (sg_queue s). qi_bytes i \<noteq> 0 \<Longrightarrow>
    \<exists>s' w'. send_run wire_net h isSel c turns s w = Some (s', w') \<and>
      send_run wire_net h (\<lambda>_. False) c (map (\<lambda>(now, lsb, rnd, _). (now, lsb, rnd, [])) turns) s w = Some (s', w')"
proof (induction turns arbitrary: s w)
  case Nil
  then show ?case by simp
next
  case (Cons t turns)
  obtain now lsb rnd cqes where t: "t = (now, lsb, rnd, cqes)" by (metis prod_cases4)
  have r: "isSel liburing_send \<Longrightarrow> ring_completes c [(now, lsb, rnd, cqes)] (sg_queue s) \<and> ring_completes c turns (tl (sg_queue s))"
    using ring_completes_tl Cons.prems(1) t by blast
  have eq: "seg_thread_step wire_net h isSel c now lsb rnd cqes s w =
      seg_thread_step wire_net h (\<lambda>_. False) c now lsb rnd [] s w"
    by (rule seg_thread_step_equivalent[OF m n sel]) (use r Cons.prems(2) in blast)+
  obtain s1 w1 where s1: "seg_thread_step wire_net h (\<lambda>_. False) c now lsb rnd [] s w = Some (s1, w1)"
    "sg_queue s1 = tl (sg_queue s)" using seg_thread_step_queue[OF m n] by blast
  have "\<forall>i\<in>set (sg_queue s1). qi_bytes i \<noteq> 0" using Cons.prems(2) s1(2) by (metis list.set_sel(2) tl_Nil)
  then show ?case using Cons.IH[of s1 w1] r s1 by (auto simp: t eq)
qed

section \<open>Only the announced bytes are read\<close>

lemma seg_frames_take:
  assumes "0 < maxPld"
  shows "seg_frames hdr maxPld bytes (take bytes event) = seg_frames hdr maxPld bytes event"
  unfolding seg_frames_def
proof (rule map_cong[OF refl])
  fix i assume "i \<in> set [0..<numBuffers maxPld bytes]"
  then have "frag_payload maxPld bytes (take bytes event) i = frag_payload maxPld bytes event i"
    using frag_range(1)[OF assms, of i bytes] by (simp add: frag_payload_def slice_at_take)
  then show "frag_frame hdr maxPld bytes (take bytes event) i = frag_frame hdr maxPld bytes event i"
    by (simp add: frag_frame_def)
qed

lemma seg_sendEvent_prefix:
  assumes "0 < sg_maxPldLen c" and "n \<le> length ev"
  shows "seg_sendEvent wire_net h isSel c now lsb rnd ev n eventNum0 dataId0 entropy s w =
    seg_sendEvent wire_net h isSel c now lsb rnd (take n ev) n eventNum0 dataId0 entropy s w"
  by (simp add: seg_sendEvent_def seg_send_wire_counted[OF assms(1)] seg_frames_take[OF assms(1)] Let_def)

end
