(* ===== verification/E2SAR_PerfSending.thy ===== *)
theory E2SAR_PerfSending
  imports E2SAR_Perf E2SAR_Transmission
begin

text \<open>
  The sender of the performance program beside the send thread of the library: the wait of the program
  for the number of frames it has computed beforehand.
\<close>

section \<open>Turns of the send thread\<close>

text \<open>
  What other threads do between two readings of the program: turns of the send thread, with a network
  that takes everything.
\<close>

definition send_turn ::
  "byte_order \<Rightarrow> (Code \<Rightarrow> bool) \<Rightarrow> seg_cfg \<Rightarrow> u64 \<times> u8 \<times> u16 \<Rightarrow> seg_state \<Rightarrow> seg_state" where
  "send_turn h isSel c = (\<lambda>(now, lsb, rnd) s.
     case seg_thread_step wire_net h isSel c now lsb rnd [] s [] of None \<Rightarrow> s | Some (s', _) \<Rightarrow> s')"

definition send_turns ::
  "byte_order \<Rightarrow> (Code \<Rightarrow> bool) \<Rightarrow> seg_cfg \<Rightarrow> (u64 \<times> u8 \<times> u16) list \<Rightarrow> seg_state \<Rightarrow> seg_state" where
  "send_turns h isSel c turns s = fold (send_turn h isSel c) turns s"

definition items_frames :: "seg_cfg \<Rightarrow> seg_item list \<Rightarrow> nat" where
  "items_frames c items = sum_list (map (\<lambda>i. numBuffers (sg_maxPldLen c) (unat (qi_bytes i))) items)"

lemma items_frames_simps [simp]:
  "items_frames c [] = 0"
  "items_frames c (i # is) = numBuffers (sg_maxPldLen c) (unat (qi_bytes i)) + items_frames c is"
  "items_frames c (is @ js) = items_frames c is + items_frames c js"
  by (simp_all add: items_frames_def)

lemma send_turn_idle: "sg_queue s = [] \<Longrightarrow> send_turn h isSel c turn s = s"
  by (cases turn) (simp add: send_turn_def seg_thread_step_def seg_pop_def)

lemma send_turn_sends:
  assumes "0 < sg_maxPldLen c" and "sg_numSendSockets c \<noteq> 0" and "sg_queue s = i # q"
  shows "sg_queue (send_turn h isSel c turn s) = q \<and>
    sg_sendStats (send_turn h isSel c turn s) =
      stats_sent (word_of_nat (numBuffers (sg_maxPldLen c) (unat (qi_bytes i)))) (sg_sendStats s)"
proof -
  obtain now lsb rnd where turn: "turn = (now, lsb, rnd)" by (metis prod_cases3)
  have p: "seg_pop (sg_queue s) = (q, Some i)" by (simp add: seg_pop_def assms(3))
  show ?thesis
    unfolding turn send_turn_def seg_thread_step_def p prod.case option.case if_not_P[OF assms(2)] Let_def
      seg_send_wire_counted[OF assms(1)]
    by (cases "qi_callback i") simp_all
qed

text \<open>Every turn takes one event from the queue to the counter; frames are neither lost nor made up.\<close>

lemma send_turns_sends:
  assumes "0 < sg_maxPldLen c" and "sg_numSendSockets c \<noteq> 0"
  shows "sg_queue (send_turns h isSel c turns s) = drop (length turns) (sg_queue s) \<and>
    sg_sendStats (send_turns h isSel c turns s) =
      stats_sent (word_of_nat (items_frames c (take (length turns) (sg_queue s)))) (sg_sendStats s)"
proof (induction turns arbitrary: s)
  case Nil
  then show ?case by (simp add: send_turns_def stats_sent_def)
next
  case (Cons turn turns)
  have u: "send_turns h isSel c (turn # turns) s = send_turns h isSel c turns (send_turn h isSel c turn s)"
    by (simp add: send_turns_def)
  show ?case
  proof (cases "sg_queue s")
    case Nil
    then show ?thesis using Cons[of s] by (simp add: u send_turn_idle)
  next
    case (Cons i q)
    then show ?thesis
      using send_turn_sends[OF assms Cons, of h isSel turn] Cons.IH[of "send_turn h isSel c turn s"]
      by (simp add: u stats_sent_def add.assoc)
  qed
qed

section \<open>Offering the events\<close>

text \<open>
  After \<open>k\<close> events of the same size: what the counter has and what is queued make up the frames of all,
  at most one event waits, and there was no error.
\<close>

definition frames_accounted :: "seg_cfg \<Rightarrow> nat \<Rightarrow> nat \<Rightarrow> seg_state \<Rightarrow> bool" where
  "frames_accounted c n k s \<longleftrightarrow> length (sg_queue s) \<le> 1 \<and>
     st_msgCnt (sg_sendStats s) + word_of_nat (items_frames c (sg_queue s)) = word_of_nat (k * numBuffers (sg_maxPldLen c) n) \<and>
     st_errCnt (sg_sendStats s) = 0"

lemma frames_accounted_queue:
  assumes "frames_accounted c n k s" and "sg_queue s = []"
  shows "st_msgCnt (sg_sendStats s) = word_of_nat (k * numBuffers (sg_maxPldLen c) n) \<and> st_errCnt (sg_sendStats s) = 0"
  using assms(1) unfolding frames_accounted_def assms(2) by simp

lemma frames_accounted_turns:
  assumes "0 < sg_maxPldLen c" and "sg_numSendSockets c \<noteq> 0" and "frames_accounted c n k s" and "turns \<noteq> []"
  shows "frames_accounted c n k (send_turns h isSel c turns s) \<and> sg_queue (send_turns h isSel c turns s) = []"
proof -
  have "length (sg_queue s) \<le> length turns"
    using assms(3,4) by (cases turns) (auto simp: frames_accounted_def)
  then show ?thesis
    using assms(3) send_turns_sends[OF assms(1,2), of h isSel turns s] by (simp add: frames_accounted_def stats_sent_def)
qed

lemma frames_accounted_offer:
  assumes "frames_accounted c n k s" and "sg_queue s = []" and "n < 2 ^ 32"
  shows "\<exists>r s'. seg_addToSendQueue c ev n num 0 0 cb ptr s = (Inr r, s') \<and> frames_accounted c n (k + 1) s'"
proof -
  let ?s1 = "if num \<noteq> 0 then s\<lparr>sg_userEventNum := num\<rparr> else s"
  let ?item = "\<lparr>qi_bytes = word_of_nat n, qi_eventNum = sg_userEventNum ?s1, qi_dataId = sg_dataId c, qi_event = ev,
    qi_entropy = 0, qi_callback = cb, qi_cbArg = ptr\<rparr>"
  have q: "sg_queue ?s1 = []" "sg_sendStats ?s1 = sg_sendStats s" using assms(2) by simp_all
  have "seg_addToSendQueue c ev n num 0 0 cb ptr s =
      (Ok 0, ?s1\<lparr>sg_userEventNum := sg_userEventNum ?s1 + 1, sg_queue := [?item]\<rparr>)"
    using q(1) by (simp add: seg_addToSendQueue_def seg_push_def SEG_QSIZE_def Let_def)
  moreover have "frames_accounted c n (k + 1) (?s1\<lparr>sg_userEventNum := sg_userEventNum ?s1 + 1, sg_queue := [?item]\<rparr>)"
  proof -
    have u: "unat (word_of_nat n :: u32) = n" using assms(3) by (simp add: unat_of_nat take_bit_nat_eq_self)
    show ?thesis using frames_accounted_queue[OF assms(1,2)]
      unfolding frames_accounted_def by (simp add: q(2) u distrib_right add.commute)
  qed
  ultimately show ?thesis by blast
qed

lemma perf_send_loop_offers:
  assumes m: "0 < sg_maxPldLen c" and sock: "sg_numSendSockets c \<noteq> 0" and n: "n < 2 ^ 32"
    and ev: "\<forall>i. ev i \<noteq> None"
  shows "2 * j \<le> length tss \<Longrightarrow> \<forall>turns\<in>set tss. turns \<noteq> [] \<Longrightarrow> frames_accounted c n k s \<Longrightarrow>
    \<exists>s'. perf_send_loop c ev ptr n j k (map (\<lambda>turns. (send_turns h isSel c turns, True)) tss) s =
        Some (k + j, s', map (\<lambda>turns. (send_turns h isSel c turns, True)) (drop (2 * j) tss)) \<and>
      frames_accounted c n (k + j) s'"
proof (induction j arbitrary: k s tss)
  case 0
  then show ?case by simp
next
  case (Suc j)
  let ?env = "\<lambda>turns. (send_turns h isSel c turns, True)"
  obtain t1 t2 rest where t: "tss = t1 # t2 # rest"
    using Suc.prems(1) by (cases tss; cases "tl tss") auto
  obtain d where d: "ev k = Some d" using ev by blast
  let ?s1 = "send_turns h isSel c t1 s"
  have a1: "frames_accounted c n k ?s1" using frames_accounted_turns[OF m sock Suc.prems(3)] Suc.prems(2) t by simp
  let ?s2 = "send_turns h isSel c t2 ?s1"
  have a2: "frames_accounted c n k ?s2" "sg_queue ?s2 = []"
    using frames_accounted_turns[OF m sock a1] Suc.prems(2) t by simp_all
  obtain r s3 where o: "seg_addToSendQueue c d n (word_of_nat k) 0 0 (Some FREE_CALLBACK) (ptr k) ?s2 = (Inr r, s3)"
    "frames_accounted c n (k + 1) s3"
    using frames_accounted_offer[OF a2 n] by blast
  have "2 * j \<le> length rest" "\<forall>turns\<in>set rest. turns \<noteq> []" using Suc.prems(1,2) t by simp_all
  from Suc.IH[OF this o(2)] show ?case by (simp add: t d o(1))
qed

section \<open>Waiting for the frames\<close>

lemma expectedFrames_segmenter:
  assumes "sg_maxPldLen (sg_cfg sg) = sg_mtu sg - getTotalHeaderLength v6" and "getTotalHeaderLength v6 \<le> sg_mtu sg"
  shows "expectedFrames numEvents n (sg_mtu sg) v6 = word_of_nat (numEvents * numBuffers (sg_maxPldLen (sg_cfg sg)) n)"
  using assms by (simp add: expectedFrames_def numBuffers_def)

lemma perf_wait_ends:
  assumes "0 < sg_maxPldLen c" and "sg_numSendSockets c \<noteq> 0" and "frames_accounted c n k s" and "turns \<noteq> []"
    and "k * numBuffers (sg_maxPldLen c) n < 2 ^ 32"
  shows "perf_wait (word_of_nat (k * numBuffers (sg_maxPldLen c) n)) ((send_turns h isSel c turns, True) # es) s =
    Some (send_turns h isSel c turns s)"
proof -
  let ?N = "k * numBuffers (sg_maxPldLen c) n"
  note a = frames_accounted_turns[OF assms(1-4), of h isSel]
  have "st_msgCnt (sg_sendStats (send_turns h isSel c turns s)) = word_of_nat ?N"
    by (rule frames_accounted_queue[THEN conjunct1]) (use a in blast)+
  moreover have "(ucast (word_of_nat ?N :: u32) :: u64) = word_of_nat ?N"
    by (rule iffD2[OF ucast_u32_eq_u64 assms(5)]) (use assms(5) in simp)
  ultimately show ?thesis by (simp add: seg_ReportedStats_def Let_def)
qed

lemma perf_wait_hangs:
  assumes m: "0 < sg_maxPldLen c" and sock: "sg_numSendSockets c \<noteq> 0"
    and big: "2 ^ 32 \<le> k * numBuffers (sg_maxPldLen c) n" "k * numBuffers (sg_maxPldLen c) n < 2 ^ 64"
  shows "frames_accounted c n k s \<Longrightarrow> \<forall>turns\<in>set tss. turns \<noteq> [] \<Longrightarrow>
    perf_wait (word_of_nat (k * numBuffers (sg_maxPldLen c) n)) (map (\<lambda>turns. (send_turns h isSel c turns, True)) tss) s = None"
proof (induction tss arbitrary: s)
  case Nil
  then show ?case by simp
next
  case (Cons turns tss)
  let ?N = "k * numBuffers (sg_maxPldLen c) n" and ?s1 = "send_turns h isSel c turns s"
  have a: "frames_accounted c n k ?s1" "sg_queue ?s1 = []"
    using frames_accounted_turns[OF m sock Cons.prems(1)] Cons.prems(2) by simp_all
  then have cnt: "st_msgCnt (sg_sendStats ?s1) = word_of_nat ?N" "st_errCnt (sg_sendStats ?s1) = 0"
    using frames_accounted_queue by blast+
  have "(ucast (word_of_nat ?N :: u32) :: u64) \<noteq> word_of_nat ?N" using ucast_u32_eq_u64[OF big(2)] big(1) by simp
  then show ?case using Cons.IH[OF a(1)] Cons.prems(2) cnt by (simp add: seg_ReportedStats_def Let_def)
qed

text \<open>Opening the sockets queues nothing and counts no message.\<close>

lemma register_rings_keeps:
  "register_rings ops fds rs s w = (s', w') \<Longrightarrow>
    sg_queue s' = sg_queue s \<and> st_msgCnt (sg_sendStats s') = st_msgCnt (sg_sendStats s)"
  by (induction rs arbitrary: s w)
    (auto simp: on_sendStats_def stats_failed_def split: prod.splits option.splits)

lemma seg_openAndStart_keeps:
  assumes "seg_openAndStart ops isSel sg s w = (Inr r, run, s', w')"
  shows "sg_queue s' = sg_queue s \<and> st_msgCnt (sg_sendStats s') = st_msgCnt (sg_sendStats s)"
proof -
  have sync: "s1 = s" if "sync_open ops uri b s w = (Inr fd, s1, w1)" for uri b fd s1 w1
    using that by (auto simp: sync_open_def split: sum.splits prod.splits option.splits if_splits)
  have send: "sg_queue s2 = sg_queue s1 \<and> st_msgCnt (sg_sendStats s2) = st_msgCnt (sg_sendStats s1)"
    if "send_open ops isSel sg s1 w1 = (Inr fds, s2, w2)" for s1 w1 fds s2 w2
    using that
    by (auto simp: send_open_def Let_def dest: register_rings_keeps split: sum.splits prod.splits if_splits)
  from assms show ?thesis
    by (auto simp: seg_openAndStart_def Let_def dest!: sync send split: sum.splits prod.splits if_splits)
qed

section \<open>The sender as a whole\<close>

lemma sendEvents_frames:
  assumes m: "42 \<le> sg_maxPldLen (sg_cfg sg)" and sock: "sg_numSendSockets (sg_cfg sg) \<noteq> 0"
    and mtu: "sg_maxPldLen (sg_cfg sg) + getTotalHeaderLength (sf_dpV6 (sg_flags sg)) = sg_mtu sg"
    and n: "42 \<le> n" "n < 2 ^ 32"
    and opened: "seg_openAndStart ops isSel sg seg_state_new w = (Inr rc, run, s1, w1)" "st_errCnt (sg_sendStats s1) = 0"
    and tss: "\<forall>turns\<in>set tss. turns \<noteq> []" "2 * N < length tss"
    and F: "F = numBuffers (sg_maxPldLen (sg_cfg sg)) n" "N * F < 2 ^ 64"
    and res: "r = sendEvents ops isSel sg start N n realmalloc junk addr
    (map (\<lambda>turns. (send_turns h isSel (sg_cfg sg) turns, True)) tss) seg_state_new w"
  shows "if N * F < 2 ^ 32 then \<exists>s3. r = Some (Ok N, s3, w1) \<and> sg_queue s3 = [] \<and> st_msgCnt (sg_sendStats s3) = word_of_nat (N * F)
    else r = None"
proof -
  let ?c = "sg_cfg sg" and ?env = "\<lambda>turns. (send_turns h isSel (sg_cfg sg) turns, True)"
  have m0: "0 < sg_maxPldLen ?c" using m by simp
  obtain one where one: "fill_event n = Some one" using fill_event_long[OF n(1)] by blast
  have s1: "frames_accounted ?c n 0 s1"
    using seg_openAndStart_keeps[OF opened(1)] opened(2)
    by (simp add: frames_accounted_def seg_state_new_def seg_stats_new_def)
  let ?ev = "\<lambda>evt. if realmalloc then map_option (buffer_bytes (junk evt)) (fill_event n)
    else Some (buffer_bytes (junk 0) (if realmalloc then [] else one))"
  let ?ptr = "\<lambda>evt. if realmalloc then addr evt else 0"
  have ev: "\<forall>i. ?ev i \<noteq> None" using one by simp
  obtain s2 where loop: "perf_send_loop ?c ?ev ?ptr n N 0 (map ?env tss) s1 = Some (N, s2, map ?env (drop (2 * N) tss))"
    "frames_accounted ?c n N s2"
    using perf_send_loop_offers[OF m0 sock n(2) ev _ tss(1) s1, where j = N and ptr = ?ptr and h = h and isSel = isSel] tss(2)
    unfolding add_0 by (meson less_imp_le)
  have e: "expectedFrames N n (sg_mtu sg) (sf_dpV6 (sg_flags sg)) = word_of_nat (N * F)"
    unfolding F(1) by (rule expectedFrames_segmenter) (use mtu in simp_all)
  have r: "r = (case perf_wait (word_of_nat (N * F)) (map ?env (drop (2 * N) tss)) s2 of
      None \<Rightarrow> None | Some s3 \<Rightarrow> Some (Ok N, s3, w1))"
    using m loop(1) by (cases realmalloc) (simp_all add: res sendEvents_def e opened(1) one payload_lengths Let_def)
  show ?thesis
  proof (cases "N * F < 2 ^ 32")
    case True
    obtain t rest where d: "drop (2 * N) tss = t # rest" using tss(2) by (cases "drop (2 * N) tss") auto
    then have "t \<noteq> []" using tss(1) by (metis in_set_dropD list.set_intros(1))
    note w = perf_wait_ends[OF m0 sock loop(2) this, of h isSel "map ?env rest"]
      and a = frames_accounted_turns[OF m0 sock loop(2) this, of h isSel]
    show ?thesis using True w frames_accounted_queue[of ?c n N "send_turns h isSel ?c t s2"] a by (simp add: r d F(1))
  next
    case False
    have "\<forall>turns\<in>set (drop (2 * N) tss). turns \<noteq> []" using tss(1) by (meson in_set_dropD)
    then have "perf_wait (word_of_nat (N * F)) (map ?env (drop (2 * N) tss)) s2 = None"
      using False F(2) unfolding F(1) by (intro perf_wait_hangs[OF m0 sock _ _ loop(2)]) simp_all
    then show ?thesis using False by (simp add: r)
  qed
qed

end
