(* ===== verification/E2SAR_Progress.thy ===== *)
theory E2SAR_Progress
  imports E2SAR_Prelude
begin

text \<open>
  What the models of running and stopping threads share.  Interfaces for the liveness of step relations: what a system of threads promises when it runs down by
  itself or, with steps that only pass the time, settles.  The relay's end, \<^verbatim>\<open>stopThreads\<close> of the segmenter
  and the reassembler and the Python binding's call of it provide them.
\<close>

section \<open>Systems that run down\<close>

text \<open>
  A system whose every step takes from a measure and that is never stuck before its goal: every run
  ends, and can only end in the goal.
\<close>

locale running_down =
  fixes step :: "'s \<Rightarrow> 's \<Rightarrow> bool" and inv :: "'s \<Rightarrow> bool" and left :: "'s \<Rightarrow> nat" and goal :: "'s \<Rightarrow> bool"
  assumes step_inv: "inv s \<Longrightarrow> step s s' \<Longrightarrow> inv s'"
    and step_left: "inv s \<Longrightarrow> step s s' \<Longrightarrow> left s' < left s"
    and not_stuck: "inv s \<Longrightarrow> \<not> goal s \<Longrightarrow> \<exists>s'. step s s'"
begin

lemma reachable_inv:
  assumes "step\<^sup>*\<^sup>* s s'" and "inv s"
  shows "inv s'"
  using assms by (induction rule: rtranclp_induct) (auto intro: step_inv)

lemma reaches_goal: "inv s \<Longrightarrow> \<exists>s'. step\<^sup>*\<^sup>* s s' \<and> goal s'"
proof (induction "left s" arbitrary: s rule: less_induct)
  case less
  show ?case
  proof (cases "goal s")
    case True
    then show ?thesis by blast
  next
    case False
    then obtain s1 where s1: "step s s1" using not_stuck less.prems by blast
    then obtain s' where "step\<^sup>*\<^sup>* s1 s'" "goal s'" using less step_inv step_left by blast
    then show ?thesis using s1 by (meson converse_rtranclp_into_rtranclp)
  qed
qed

lemma run_bounded:
  assumes "(step ^^ n) s s'" and "inv s"
  shows "inv s' \<and> n + left s' \<le> left s"
  using assms
proof (induction n arbitrary: s')
  case 0
  then show ?case by simp
next
  case (Suc n)
  then obtain s1 where "(step ^^ n) s s1" "step s1 s'" by auto
  then show ?case using Suc step_inv[of s1 s'] step_left[of s1 s'] by fastforce
qed

end

section \<open>Systems that settle\<close>

text \<open>
  A system with steps that only pass the time: no step adds to a measure, and from every state before the
  goal some steps take from it.  A system that runs down is one.
\<close>

locale settling =
  fixes step :: "'s \<Rightarrow> 's \<Rightarrow> bool" and inv :: "'s \<Rightarrow> bool" and left :: "'s \<Rightarrow> nat" and goal :: "'s \<Rightarrow> bool"
  assumes keeps_inv: "inv s \<Longrightarrow> step s s' \<Longrightarrow> inv s'"
    and never_more: "inv s \<Longrightarrow> step s s' \<Longrightarrow> left s' \<le> left s"
    and progress: "inv s \<Longrightarrow> \<not> goal s \<Longrightarrow> \<exists>s'. step\<^sup>*\<^sup>* s s' \<and> left s' < left s"
begin

lemma settled_inv:
  assumes "step\<^sup>*\<^sup>* s s'" and "inv s"
  shows "inv s' \<and> left s' \<le> left s"
  using assms by (induction rule: rtranclp_induct) (auto dest: keeps_inv never_more)

lemma settles: "inv s \<Longrightarrow> \<exists>s'. step\<^sup>*\<^sup>* s s' \<and> goal s'"
proof (induction "left s" arbitrary: s rule: less_induct)
  case less
  show ?case
  proof (cases "goal s")
    case False
    then obtain s1 where s1: "step\<^sup>*\<^sup>* s s1" "left s1 < left s" using progress less.prems by blast
    then obtain s' where "step\<^sup>*\<^sup>* s1 s'" "goal s'" using less settled_inv by blast
    then show ?thesis using s1(1) by (meson rtranclp_trans)
  qed blast
qed

end

sublocale running_down \<subseteq> settled: settling step inv left goal
  by unfold_locales (auto dest: step_inv step_left not_stuck intro: less_imp_le)

section \<open>Logs of resources\<close>

text \<open>
  A log of what is done with resources that are closed at some time: which resources an entry uses and
  which it closes.  Nothing is used, or closed again, once it is closed.
\<close>

definition closed_by :: "('u \<Rightarrow> nat list) \<Rightarrow> 'u list \<Rightarrow> nat list" where
  "closed_by closes us = concat (map closes us)"

fun uses_open :: "('u \<Rightarrow> nat list) \<Rightarrow> ('u \<Rightarrow> nat list) \<Rightarrow> nat list \<Rightarrow> 'u list \<Rightarrow> bool" where
  "uses_open uses closes old [] = True"
| "uses_open uses closes old (u # us) =
     (set (uses u) \<inter> set old = {} \<and> uses_open uses closes (old @ closes u) us)"

lemma closed_by_simps [simp]:
  "closed_by closes [] = []" "closed_by closes (u # us) = closes u @ closed_by closes us"
  "closed_by closes (us @ vs) = closed_by closes us @ closed_by closes vs"
  by (simp_all add: closed_by_def)

lemma uses_open_append [simp]:
  "uses_open uses closes old (us @ vs) \<longleftrightarrow>
     uses_open uses closes old us \<and> uses_open uses closes (old @ closed_by closes us) vs"
  by (induction us arbitrary: old) auto

lemma closed_by_map: "(\<And>x. closes (f x) = [x]) \<Longrightarrow> closed_by closes (map f xs) = xs"
  by (induction xs) auto

lemma closed_by_none: "(\<And>u. u \<in> set us \<Longrightarrow> closes u = []) \<Longrightarrow> closed_by closes us = []"
  by (induction us) auto

lemma uses_open_closes:
  assumes "\<And>x. closes (f x) = [x]" and "\<And>x. uses (f x) = [x]"
  shows "uses_open uses closes old (map f xs) \<longleftrightarrow> distinct xs \<and> set old \<inter> set xs = {}"
  using assms by (induction xs arbitrary: old) auto

lemma uses_open_plain:
  assumes "\<And>u. u \<in> set us \<Longrightarrow> closes u = []" and "\<And>u. u \<in> set us \<Longrightarrow> set (uses u) \<inter> set old = {}"
  shows "uses_open uses closes old us"
  using assms by (induction us) auto

end
