(* ===== verification/E2SAR_Python.thy ===== *)
theory E2SAR_Python
  imports E2SAR_Transmission E2SAR_Progress "HOL-Library.Multiset"
begin

text \<open>
  The Python bindings of the data plane, \<^verbatim>\<open>src/pybind/py_e2sarDP.cpp\<close>: sending bytes and numpy arrays, the
  wrapper that keeps a Python callback alive until its event is sent, receiving as bytes or as a numpy
  array, and \<^verbatim>\<open>stopThreads\<close> called by a thread that holds the interpreter lock.  Python objects are
  numbers, \<open>None\<close> is Python's None; what the interpreter itself does is a parameter.
\<close>

section \<open>Callbacks\<close>

text \<open>
  The references that the wrappers hold on each object, the wrappers alive with their addresses, and
  the next free address.
\<close>

type_synonym py_object = nat
type_synonym py_callback = "py_object option \<times> py_object option"

record py_heap =
  ph_refs :: "py_object \<Rightarrow> int"
  ph_wrappers :: "(nat \<times> py_callback) list"
  ph_next :: nat

definition add_refs :: "int \<Rightarrow> py_object option \<Rightarrow> (py_object \<Rightarrow> int) \<Rightarrow> py_object \<Rightarrow> int" where
  "add_refs n x refs = (case x of None \<Rightarrow> refs | Some ob \<Rightarrow> refs(ob := refs ob + n))"

definition PythonCallbackWrapper_new :: "py_object option \<Rightarrow> py_object option \<Rightarrow> py_heap \<Rightarrow> nat \<times> py_heap" where
  "PythonCallbackWrapper_new cb arg hp =
     (ph_next hp, hp\<lparr>ph_refs := add_refs 1 arg (add_refs 1 cb (ph_refs hp)),
        ph_wrappers := ph_wrappers hp @ [(ph_next hp, (cb, arg))], ph_next := ph_next hp + 1\<rparr>)"

definition PythonCallbackWrapper_delete :: "nat \<Rightarrow> py_heap \<Rightarrow> py_heap" where
  "PythonCallbackWrapper_delete a hp =
     (case map_of (ph_wrappers hp) a of
        None \<Rightarrow> hp
      | Some (cb, arg) \<Rightarrow> hp\<lparr>ph_refs := add_refs (-1) arg (add_refs (-1) cb (ph_refs hp)),
          ph_wrappers := filter (\<lambda>x. fst x \<noteq> a) (ph_wrappers hp)\<rparr>)"

text \<open>
  \<open>execute\<close>: the call it makes (exceptions of the callback are swallowed), and the heap after the wrapper is
  deleted.  An address that is not alive is a use after free: \<open>None\<close>.
\<close>

definition PythonCallbackWrapper_execute :: "nat \<Rightarrow> py_heap \<Rightarrow> (py_callback list \<times> py_heap) option" where
  "PythonCallbackWrapper_execute a hp =
     (case map_of (ph_wrappers hp) a of
        None \<Rightarrow> None
      | Some (cb, arg) \<Rightarrow> Some (if cb = None then [] else [(cb, arg)], PythonCallbackWrapper_delete a hp))"

text \<open>The function pointer \<^verbatim>\<open>PythonCallbackWrapper::execute\<close>, as a callback of the segmenter.\<close>

definition PY_EXECUTE :: nat where
  "PY_EXECUTE = 3"

section \<open>Sending\<close>

text \<open>
  A one dimensional numpy array: the memory from its data pointer on, the size of an element, their
  number and the distance of two in memory.
\<close>

record py_array =
  pa_mem :: "u8 list"
  pa_itemsize :: nat
  pa_len :: nat
  pa_stride :: nat

definition array_bytes :: "py_array \<Rightarrow> u8 list" where
  "array_bytes a = concat (map (\<lambda>i. slice_at (i * pa_stride a) (pa_itemsize a) (pa_mem a)) [0..<pa_len a])"

definition array_nbytes :: "py_array \<Rightarrow> nat" where
  "array_nbytes a = pa_len a * pa_itemsize a"

text \<open>The length is what the caller says: reading past the end of the buffer is undefined.\<close>

definition py_sendEvent ::
  "'w net_ops \<Rightarrow> byte_order \<Rightarrow> (Code \<Rightarrow> bool) \<Rightarrow> seg_cfg \<Rightarrow> u64 \<Rightarrow> u8 \<Rightarrow> u16 \<Rightarrow>
   u8 list \<Rightarrow> nat \<Rightarrow> u64 \<Rightarrow> u16 \<Rightarrow> u16 \<Rightarrow> seg_state \<Rightarrow> 'w \<Rightarrow> (int result \<times> seg_state \<times> 'w) option" where
  "py_sendEvent net h isSel c now lsb rnd buf buf_len eventNum dataId entropy s w =
     (if buf_len \<le> length buf
      then seg_sendEvent net h isSel c now lsb rnd buf buf_len eventNum dataId entropy s w else None)"

text \<open>A numpy array gives its data pointer; the strides are not looked at.\<close>

definition py_sendNumpyArray ::
  "'w net_ops \<Rightarrow> byte_order \<Rightarrow> (Code \<Rightarrow> bool) \<Rightarrow> seg_cfg \<Rightarrow> u64 \<Rightarrow> u8 \<Rightarrow> u16 \<Rightarrow>
   py_array \<Rightarrow> nat \<Rightarrow> u64 \<Rightarrow> u16 \<Rightarrow> u16 \<Rightarrow> seg_state \<Rightarrow> 'w \<Rightarrow> (int result \<times> seg_state \<times> 'w) option" where
  "py_sendNumpyArray net h isSel c now lsb rnd a nbytes eventNum dataId entropy s w =
     py_sendEvent net h isSel c now lsb rnd (pa_mem a) nbytes eventNum dataId entropy s w"

text \<open>
  Queueing: a callback gets a wrapper, without one the argument is dropped.  The event number is signed
  in Python.  When the queue is full the wrapper stays behind.  The buffer is read when the event is
  sent; nothing keeps the Python object alive until then, and a length beyond its end is not checked.
\<close>

definition py_addToSendQueue ::
  "seg_cfg \<Rightarrow> u8 list \<Rightarrow> nat \<Rightarrow> int \<Rightarrow> u16 \<Rightarrow> u16 \<Rightarrow> py_object option \<Rightarrow> py_object option \<Rightarrow> py_heap \<Rightarrow> seg_state \<Rightarrow>
     int result \<times> py_heap \<times> seg_state" where
  "py_addToSendQueue c buf bytes eventNum dataId entropy callback cbArg hp s =
     (let (fn, ptr, hp1) =
            (case callback of
               None \<Rightarrow> (None, 0, hp)
             | Some cb \<Rightarrow> (case PythonCallbackWrapper_new (Some cb) cbArg hp of (a, hp') \<Rightarrow> (Some PY_EXECUTE, a, hp')))
      in case seg_addToSendQueue c buf bytes (word_of_int eventNum) dataId entropy fn ptr s of
           (r, s1) \<Rightarrow> (r, hp1, s1))"

definition py_addNumpyArrayToSendQueue ::
  "seg_cfg \<Rightarrow> py_array \<Rightarrow> nat \<Rightarrow> int \<Rightarrow> u16 \<Rightarrow> u16 \<Rightarrow> py_object option \<Rightarrow> py_object option \<Rightarrow> py_heap \<Rightarrow> seg_state \<Rightarrow>
     int result \<times> py_heap \<times> seg_state" where
  "py_addNumpyArrayToSendQueue c a bytes eventNum dataId entropy callback cbArg hp s =
     py_addToSendQueue c (pa_mem a) bytes eventNum dataId entropy callback cbArg hp s"

section \<open>Receiving\<close>

text \<open>
  The tuples Python gets: a length or a negative code, the data, number and data id of the event.
  An event of length 0 is taken from the queue and reported by \<open>getEventBytes\<close> as no event.
\<close>

type_synonym 'd py_event = "int \<times> 'd \<times> u64 \<times> u16"

definition bytes_tuple :: "bool \<Rightarrow> int result \<Rightarrow> got_event \<Rightarrow> buffer py_event" where
  "bytes_tuple emptyIsNone r got =
     (case (r, got) of
        (Inl _, _) \<Rightarrow> (-2, [], 0, 0)
      | (Inr _, None) \<Rightarrow> (-1, [], 0, 0)
      | (Inr v, Some (b, n, num, did)) \<Rightarrow>
          if v = -1 \<or> emptyIsNone \<and> n = 0 then (-1, [], num, did) else (int n, take n b, num, did))"

definition py_getEventBytes :: "reas_shared \<Rightarrow> buffer py_event \<times> reas_shared" where
  "py_getEventBytes g = (case getEvent g of (r, got, g1) \<Rightarrow> (bytes_tuple True r got, g1))"

definition py_recvEventBytes ::
  "int \<Rightarrow> u64 \<Rightarrow> bool \<Rightarrow> wake_up list \<Rightarrow> reas_shared \<Rightarrow> (buffer py_event \<times> reas_shared) option" where
  "py_recvEventBytes nowT wait_ms stop ws g =
     map_option (\<lambda>(r, got, g1). (bytes_tuple False r got, g1)) (recvEvent nowT (unat wait_ms) stop ws g)"

text \<open>
  As an array of a given element size: the elements that fit.  The size 0, which some numpy types
  have, is a division by zero: \<open>None\<close>.
\<close>

definition array_tuple :: "nat \<Rightarrow> int result \<Rightarrow> got_event \<Rightarrow> buffer list py_event option" where
  "array_tuple itemsize r got =
     (case (r, got) of
        (Inl _, _) \<Rightarrow> Some (-2, [], 0, 0)
      | (Inr _, None) \<Rightarrow> Some (-1, [], 0, 0)
      | (Inr v, Some (b, n, num, did)) \<Rightarrow>
          if v = -1 then Some (-1, [], num, did)
          else if itemsize = 0 then None
          else Some (int n, map (\<lambda>i. slice_at (i * itemsize) itemsize b) [0..<n div itemsize], num, did))"

definition py_get1DNumpyArray :: "nat \<Rightarrow> reas_shared \<Rightarrow> (buffer list py_event \<times> reas_shared) option" where
  "py_get1DNumpyArray itemsize g =
     (case getEvent g of (r, got, g1) \<Rightarrow> map_option (\<lambda>t. (t, g1)) (array_tuple itemsize r got))"

definition py_recv1DNumpyArray ::
  "int \<Rightarrow> nat \<Rightarrow> u64 \<Rightarrow> bool \<Rightarrow> wake_up list \<Rightarrow> reas_shared \<Rightarrow> (buffer list py_event \<times> reas_shared) option" where
  "py_recv1DNumpyArray nowT itemsize wait_ms stop ws g =
     (case recvEvent nowT (unat wait_ms) stop ws g of
        None \<Rightarrow> None
      | Some (r, got, g1) \<Rightarrow> map_option (\<lambda>t. (t, g1)) (array_tuple itemsize r got))"

text \<open>An empty tuple when nothing was lost.\<close>

definition py_get_LostEvent :: "reas_shared \<Rightarrow> (u64 \<times> u16 \<times> nat) option \<times> reas_shared" where
  "py_get_LostEvent g = (case get_LostEvent g of (Inl _, g1) \<Rightarrow> (None, g1) | (Inr e, g1) \<Rightarrow> (Some e, g1))"

section \<open>A program that queues events with callbacks\<close>

text \<open>
  Offers by the Python program and turns of the send thread in any order; a turn executes the callbacks
  that the segmenter has called.  The program keeps what each offer returned.
\<close>

datatype py_op =
    PyOffer "u8 list" nat int u16 u16 "py_object option" "py_object option"
  | PyTurn u64 u8 u16 "(int \<times> (nat \<times> nat) option) list list"

record 'w py_world =
  pw_heap :: py_heap
  pw_seg :: seg_state
  pw_net :: 'w
  pw_calls :: "py_callback list"
  pw_accepted :: "py_callback list"
  pw_refused :: "py_callback list"

fun execute_all :: "(nat \<times> nat) list \<Rightarrow> py_heap \<Rightarrow> (py_callback list \<times> py_heap) option" where
  "execute_all [] hp = Some ([], hp)"
| "execute_all ((fn, a) # cbs) hp =
     (if fn \<noteq> PY_EXECUTE then execute_all cbs hp
      else (case PythonCallbackWrapper_execute a hp of
              None \<Rightarrow> None
            | Some (calls, hp1) \<Rightarrow> map_option (\<lambda>(calls', hp2). (calls @ calls', hp2)) (execute_all cbs hp1)))"

definition pairs_of :: "py_object option \<Rightarrow> py_object option \<Rightarrow> py_callback list" where
  "pairs_of cb arg = (if cb = None then [] else [(cb, arg)])"

definition py_step ::
  "'w net_ops \<Rightarrow> byte_order \<Rightarrow> (Code \<Rightarrow> bool) \<Rightarrow> seg_cfg \<Rightarrow> py_op \<Rightarrow> 'w py_world \<Rightarrow> 'w py_world option" where
  "py_step net h isSel c oper p =
     (case oper of
        PyOffer buf bytes num did entropy cb arg \<Rightarrow>
          (case py_addToSendQueue c buf bytes num did entropy cb arg (pw_heap p) (pw_seg p) of
             (r, hp, s) \<Rightarrow>
               Some (let p1 = p\<lparr>pw_heap := hp, pw_seg := s\<rparr>
                     in if has_error r then p1\<lparr>pw_refused := pw_refused p @ pairs_of cb arg\<rparr>
                        else p1\<lparr>pw_accepted := pw_accepted p @ pairs_of cb arg\<rparr>))
      | PyTurn now lsb rnd cqes \<Rightarrow>
          (case seg_thread_step net h isSel c now lsb rnd cqes (pw_seg p) (pw_net p) of
             None \<Rightarrow> None
           | Some (s, w) \<Rightarrow>
               (case execute_all (drop (length (sg_callbacks (pw_seg p))) (sg_callbacks s)) (pw_heap p) of
                  None \<Rightarrow> None
                | Some (calls, hp) \<Rightarrow>
                    Some (p\<lparr>pw_heap := hp, pw_seg := s, pw_net := w, pw_calls := pw_calls p @ calls\<rparr>))))"

fun py_run ::
  "'w net_ops \<Rightarrow> byte_order \<Rightarrow> (Code \<Rightarrow> bool) \<Rightarrow> seg_cfg \<Rightarrow> py_op list \<Rightarrow> 'w py_world \<Rightarrow> 'w py_world option" where
  "py_run net h isSel c [] p = Some p"
| "py_run net h isSel c (oper # ops) p =
     (case py_step net h isSel c oper p of None \<Rightarrow> None | Some p1 \<Rightarrow> py_run net h isSel c ops p1)"

section \<open>Stopping from a thread that holds the interpreter lock\<close>

text \<open>
  \<^verbatim>\<open>stopThreads\<close> beside the send thread and its pool: the caller waits for an empty queue, sets the flag and
  joins the send thread, which joins its pool.  A job that ends with a Python callback takes the
  interpreter lock first.  The binding does not release the lock, so that a Python caller holds it until the call
  returns (\<open>gil_held\<close>); a program in C++ holds none.
\<close>

datatype stop_phase = WaitEmpty | Joining | Stopped

record stop_state =
  st_queue :: "seg_item list"
  st_pool :: "seg_item list"
  st_done :: "seg_item list"
  st_threadsStop :: bool
  st_sendEnded :: bool
  st_phase :: stop_phase

definition needs_gil :: "seg_item \<Rightarrow> bool" where
  "needs_gil i \<longleftrightarrow> qi_callback i = Some PY_EXECUTE"

inductive stop_step :: "bool \<Rightarrow> stop_state \<Rightarrow> stop_state \<Rightarrow> bool" for gil_held :: bool where
  post: "\<not> st_sendEnded s \<Longrightarrow> st_queue s = i # q \<Longrightarrow>
    stop_step gil_held s (s\<lparr>st_queue := q, st_pool := st_pool s @ [i]\<rparr>)"
| job: "st_pool s = xs @ i # ys \<Longrightarrow> \<not> (gil_held \<and> needs_gil i) \<Longrightarrow>
    stop_step gil_held s (s\<lparr>st_pool := xs @ ys, st_done := st_done s @ [i]\<rparr>)"
| empty: "st_phase s = WaitEmpty \<Longrightarrow> st_queue s = [] \<Longrightarrow>
    stop_step gil_held s (s\<lparr>st_phase := Joining, st_threadsStop := True\<rparr>)"
| send_end: "st_threadsStop s \<Longrightarrow> \<not> st_sendEnded s \<Longrightarrow> st_queue s = [] \<Longrightarrow> st_pool s = [] \<Longrightarrow>
    stop_step gil_held s (s\<lparr>st_sendEnded := True\<rparr>)"
| join: "st_phase s = Joining \<Longrightarrow> st_sendEnded s \<Longrightarrow> stop_step gil_held s (s\<lparr>st_phase := Stopped\<rparr>)"

inductive_cases stop_stepE: "stop_step gil_held s s'"

text \<open>The call of \<^verbatim>\<open>stopThreads\<close> with these events queued and these handed to the pool.\<close>

definition stop_called :: "seg_item list \<Rightarrow> seg_item list \<Rightarrow> stop_state" where
  "stop_called q pool = \<lparr>st_queue = q, st_pool = pool, st_done = [], st_threadsStop = False, st_sendEnded = False,
     st_phase = WaitEmpty\<rparr>"

text \<open>What is left to do when a caller stops the threads.\<close>

definition stop_left :: "stop_state \<Rightarrow> nat" where
  "stop_left s = 2 * length (st_queue s) + length (st_pool s) +
     (case st_phase s of WaitEmpty \<Rightarrow> 2 | Joining \<Rightarrow> 1 | Stopped \<Rightarrow> 0) + (if st_sendEnded s then 0 else 1)"

definition stop_inv :: "bool \<Rightarrow> stop_state \<Rightarrow> bool" where
  "stop_inv gil_held s \<longleftrightarrow>
     (st_sendEnded s \<longrightarrow> st_queue s = [] \<and> st_pool s = []) \<and> (st_phase s = Stopped \<longrightarrow> st_sendEnded s) \<and>
     (st_phase s \<noteq> WaitEmpty \<longrightarrow> st_queue s = [] \<and> st_threadsStop s) \<and>
     (\<forall>i\<in>set (st_queue s @ st_pool s). \<not> (gil_held \<and> needs_gil i))"

interpretation stopping: running_down "stop_step gil_held" "stop_inv gil_held" stop_left "\<lambda>s. st_phase s = Stopped" for gil_held
proof
  fix s s'
  assume "stop_inv gil_held s" "stop_step gil_held s s'"
  then show "stop_inv gil_held s'" by (auto simp: stop_inv_def elim!: stop_stepE)
  show "stop_left s' < stop_left s"
    using \<open>stop_step gil_held s s'\<close> by (auto simp: stop_left_def elim!: stop_stepE)
next
  fix s
  assume i: "stop_inv gil_held s" and "st_phase s \<noteq> Stopped"
  then consider (wait) "st_phase s = WaitEmpty" | (join) "st_phase s = Joining" by (cases "st_phase s") auto
  then show "\<exists>s'. stop_step gil_held s s'"
  proof cases
    case wait
    show ?thesis
    proof (cases "st_queue s")
      case Nil
      then show ?thesis using wait by (blast intro: stop_step.empty)
    next
      case (Cons i q)
      moreover from this have "\<not> st_sendEnded s" using i by (auto simp: stop_inv_def)
      ultimately show ?thesis by (blast intro: post)
    qed
  next
    case join
    then have q: "st_queue s = []" "st_threadsStop s" using i by (simp_all add: stop_inv_def)
    show ?thesis
    proof (cases "st_pool s")
      case Nil
      then show ?thesis using join q by (metis stop_step.join send_end)
    next
      case (Cons i p)
      then have "\<not> (gil_held \<and> needs_gil i)" using i by (simp add: stop_inv_def)
      then show ?thesis using Cons by (metis append_Nil job)
    qed
  qed
qed

lemma stop_called_inv:
  "\<not> (gil_held \<and> (\<exists>i\<in>set (q @ pool). needs_gil i)) \<Longrightarrow> stop_inv gil_held (stop_called q pool)"
  by (auto simp: stop_inv_def stop_called_def)

text \<open>A job that needs the lock of its caller stays where it is.\<close>

lemma stop_step_blocked:
  assumes "stop_step True s s'" and "i \<in> set (st_queue s @ st_pool s)" and "needs_gil i"
    and "\<not> st_sendEnded s" and "st_phase s \<noteq> Stopped" and "i \<notin> set (st_done s)"
  shows "i \<in> set (st_queue s' @ st_pool s') \<and> \<not> st_sendEnded s' \<and> st_phase s' \<noteq> Stopped \<and> i \<notin> set (st_done s')"
  using assms by (auto elim!: stop_stepE)

lemma stop_blocked:
  assumes "(stop_step True)\<^sup>*\<^sup>* (stop_called q pool) s" and "i \<in> set (q @ pool)" and "needs_gil i"
  shows "i \<in> set (st_queue s @ st_pool s) \<and> \<not> st_sendEnded s \<and> st_phase s \<noteq> Stopped \<and> i \<notin> set (st_done s)"
  using assms(1)
proof (induction rule: rtranclp_induct)
  case base
  then show ?case using assms(2) by (auto simp: stop_called_def)
next
  case (step s s')
  then show ?case using stop_step_blocked[OF step(2) _ assms(3)] by blast
qed

section \<open>Every callback once, every reference returned\<close>

definition mentions :: "py_object \<Rightarrow> py_callback \<Rightarrow> int" where
  "mentions ob w = (if fst w = Some ob then 1 else 0) + (if snd w = Some ob then 1 else 0)"

lemma add_refs_at: "add_refs n x refs ob = refs ob + (if x = Some ob then n else 0)"
  by (simp add: add_refs_def split: option.splits)

text \<open>
  The wrappers alive are those of the queued events, in their order, and those of the refused offers; the
  references are theirs; what was accepted has been called or is queued.
\<close>

definition py_inv :: "(py_object \<Rightarrow> int) \<Rightarrow> 'w py_world \<Rightarrow> (nat \<times> py_callback) list \<Rightarrow> (nat \<times> py_callback) list \<Rightarrow> bool" where
  "py_inv base p waiting leaked \<longleftrightarrow>
     distinct (map fst (ph_wrappers (pw_heap p))) \<and> (\<forall>x\<in>set (ph_wrappers (pw_heap p)). fst x < ph_next (pw_heap p)) \<and>
     mset (ph_wrappers (pw_heap p)) = mset (waiting @ leaked) \<and> (\<forall>x\<in>set waiting. fst (snd x) \<noteq> None) \<and>
     concat (map item_callback (sg_queue (pw_seg p))) = map (\<lambda>x. (PY_EXECUTE, fst x)) waiting \<and>
     map snd leaked = pw_refused p \<and> pw_accepted p = pw_calls p @ map snd waiting \<and>
     (\<forall>ob. ph_refs (pw_heap p) ob = base ob + sum_list (map (mentions ob) (map snd waiting @ pw_refused p)))"

lemma filter_key_mset:
  assumes "distinct (map fst ws)" and "mset ws = mset ((a, x) # rest)"
  shows "mset (filter (\<lambda>y. fst y \<noteq> a) ws) = mset rest" and "map_of ws a = Some x"
proof -
  have "mset (map fst ws) = mset (map fst ((a, x) # rest))" using assms(2) by (simp only: mset_map)
  then have "distinct (map fst ((a, x) # rest))" using assms(1) mset_eq_imp_distinct_iff by blast
  then have "\<forall>y\<in>set rest. fst y \<noteq> a" by auto
  then have "filter (\<lambda>y. fst y \<noteq> a) ((a, x) # rest) = rest" by simp
  then show "mset (filter (\<lambda>y. fst y \<noteq> a) ws) = mset rest" using assms(2) by (metis mset_filter)
  have "(a, x) \<in> set ws" using assms(2) by (metis list.set_intros(1) set_mset_mset)
  then show "map_of ws a = Some x" using assms(1) by simp
qed

lemma py_inv_execute:
  assumes i: "py_inv base p ((a, cb, arg) # waiting) leaked"
  shows "\<exists>hp. PythonCallbackWrapper_execute a (pw_heap p) = Some ([(cb, arg)], hp) \<and>
    distinct (map fst (ph_wrappers hp)) \<and> (\<forall>x\<in>set (ph_wrappers hp). fst x < ph_next hp) \<and>
    mset (ph_wrappers hp) = mset (waiting @ leaked) \<and>
    (\<forall>ob. ph_refs hp ob = base ob + sum_list (map (mentions ob) (map snd waiting @ pw_refused p)))"
proof -
  let ?hp = "pw_heap p"
  have d: "distinct (map fst (ph_wrappers ?hp))" and m: "mset (ph_wrappers ?hp) = mset ((a, cb, arg) # waiting @ leaked)"
    and cb: "cb \<noteq> None" using i by (simp_all add: py_inv_def)
  note f = filter_key_mset[OF d m]
  show ?thesis
    unfolding PythonCallbackWrapper_execute_def PythonCallbackWrapper_delete_def f(2)
    using i cb f(1) by (auto simp: py_inv_def distinct_map_filter add_refs_at mentions_def)
qed

lemma py_step_turn:
  assumes m: "0 < sg_maxPldLen c" and n: "sg_numSendSockets c \<noteq> 0" and sel: "\<not> isSel liburing_send"
    and i: "py_inv base p waiting leaked"
  shows "\<exists>p' waiting'. py_step wire_net h isSel c (PyTurn now lsb rnd []) p = Some p' \<and> py_inv base p' waiting' leaked"
proof (cases "sg_queue (pw_seg p)")
  case Nil
  then have "py_step wire_net h isSel c (PyTurn now lsb rnd []) p = Some p"
    by (simp add: py_step_def seg_thread_step_def seg_pop_def)
  then show ?thesis using i by blast
next
  case (Cons it q)
  obtain s' where st: "seg_thread_step wire_net h isSel c now lsb rnd [] (pw_seg p) (pw_net p) =
      Some (s', pw_net p @ item_frames h c ((now, lsb, rnd), it))" "sg_queue s' = q"
      "sg_callbacks s' = sg_callbacks (pw_seg p) @ item_callback it"
    using seg_thread_step_wire[OF m n Cons, of h isSel now lsb rnd "pw_net p"] sel by auto
  have q: "item_callback it @ concat (map item_callback q) = map (\<lambda>x. (PY_EXECUTE, fst x)) waiting"
    using i Cons by (simp add: py_inv_def)
  show ?thesis
  proof (cases "item_callback it")
    case Nil
    then have "py_step wire_net h isSel c (PyTurn now lsb rnd []) p =
        Some (p\<lparr>pw_seg := s', pw_net := pw_net p @ item_frames h c ((now, lsb, rnd), it)\<rparr>)"
      by (simp add: py_step_def st)
    moreover have "py_inv base (p\<lparr>pw_seg := s', pw_net := pw_net p @ item_frames h c ((now, lsb, rnd), it)\<rparr>) waiting leaked"
      using i q st(2) Nil by (simp add: py_inv_def)
    ultimately show ?thesis by blast
  next
    case (Cons fa rest)
    then have rest: "rest = []" by (auto simp: item_callback_def split: option.splits)
    then obtain x waiting' where x: "waiting = x # waiting'" "fa = (PY_EXECUTE, fst x)"
      "concat (map item_callback q) = map (\<lambda>x. (PY_EXECUTE, fst x)) waiting'"
      using q Cons by (cases waiting) auto
    obtain a cb arg where xa: "x = (a, cb, arg)" by (metis surj_pair)
    obtain hp where hp: "PythonCallbackWrapper_execute a (pw_heap p) = Some ([(cb, arg)], hp)"
      "distinct (map fst (ph_wrappers hp))" "\<forall>x\<in>set (ph_wrappers hp). fst x < ph_next hp"
      "mset (ph_wrappers hp) = mset (waiting' @ leaked)"
      "\<forall>ob. ph_refs hp ob = base ob + sum_list (map (mentions ob) (map snd waiting' @ pw_refused p))"
      using py_inv_execute i unfolding x(1) xa by blast
    let ?p = "p\<lparr>pw_heap := hp, pw_seg := s', pw_net := pw_net p @ item_frames h c ((now, lsb, rnd), it),
      pw_calls := pw_calls p @ [(cb, arg)]\<rparr>"
    have "py_step wire_net h isSel c (PyTurn now lsb rnd []) p = Some ?p"
      using hp(1) by (simp add: py_step_def st Cons rest x(2) xa)
    moreover have "py_inv base ?p waiting' leaked"
      using i hp(2-5) st(2) x xa by (simp add: py_inv_def)
    ultimately show ?thesis by blast
  qed
qed

lemma py_step_offer:
  assumes i: "py_inv base p waiting leaked"
  shows "\<exists>p' waiting' leaked'. py_step net h isSel c (PyOffer buf bytes num did entropy cb arg) p = Some p' \<and>
    py_inv base p' waiting' leaked'"
proof (cases cb)
  case None
  obtain r s' where a: "seg_addToSendQueue c buf bytes (word_of_int num) did entropy None 0 (pw_seg p) = (r, s')" by fastforce
  have "concat (map item_callback (sg_queue s')) = concat (map item_callback (sg_queue (pw_seg p)))"
    using a by (auto simp: seg_addToSendQueue_def seg_push_def item_callback_def Let_def split: if_splits)
  then have "py_inv base (p\<lparr>pw_seg := s'\<rparr>) waiting leaked" using i by (simp add: py_inv_def)
  moreover have "py_step net h isSel c (PyOffer buf bytes num did entropy cb arg) p = Some (p\<lparr>pw_seg := s'\<rparr>)"
    using a None by (simp add: py_step_def py_addToSendQueue_def pairs_of_def Let_def)
  ultimately show ?thesis by blast
next
  case (Some ob)
  let ?a = "ph_next (pw_heap p)" and ?w = "(Some ob, arg)"
  let ?hp = "snd (PythonCallbackWrapper_new (Some ob) arg (pw_heap p))"
  obtain r s' where a: "seg_addToSendQueue c buf bytes (word_of_int num) did entropy (Some PY_EXECUTE) ?a (pw_seg p) = (r, s')"
    by fastforce
  have step: "py_step net h isSel c (PyOffer buf bytes num did entropy cb arg) p =
      Some (if has_error r then p\<lparr>pw_heap := ?hp, pw_seg := s', pw_refused := pw_refused p @ [?w]\<rparr>
            else p\<lparr>pw_heap := ?hp, pw_seg := s', pw_accepted := pw_accepted p @ [?w]\<rparr>)"
    using a by (simp add: py_step_def py_addToSendQueue_def PythonCallbackWrapper_new_def pairs_of_def Some Let_def)
  have q: "concat (map item_callback (sg_queue s')) = concat (map item_callback (sg_queue (pw_seg p))) @
      (if has_error r then [] else [(PY_EXECUTE, ?a)])"
    using a by (auto simp: seg_addToSendQueue_def seg_push_def item_callback_def has_error_def Let_def split: if_splits)
  have hp: "distinct (map fst (ph_wrappers ?hp))" "\<forall>x\<in>set (ph_wrappers ?hp). fst x < ph_next ?hp"
    "mset (ph_wrappers ?hp) = add_mset (?a, ?w) (mset (waiting @ leaked))"
    "\<forall>ob. ph_refs ?hp ob = base ob + mentions ob ?w + sum_list (map (mentions ob) (map snd waiting @ pw_refused p))"
    using i by (auto simp: py_inv_def PythonCallbackWrapper_new_def add_refs_at mentions_def)
  show ?thesis
  proof (cases "has_error r")
    case True
    then show ?thesis
      using i q hp by (intro exI[of _ "p\<lparr>pw_heap := ?hp, pw_seg := s', pw_refused := pw_refused p @ [?w]\<rparr>"]
        exI[of _ waiting] exI[of _ "leaked @ [(?a, ?w)]"]) (simp add: step py_inv_def)
  next
    case False
    then show ?thesis
      using i q hp by (intro exI[of _ "p\<lparr>pw_heap := ?hp, pw_seg := s', pw_accepted := pw_accepted p @ [?w]\<rparr>"]
        exI[of _ "waiting @ [(?a, ?w)]"] exI[of _ leaked]) (simp add: step py_inv_def)
  qed
qed

text \<open>Operations as they are without a ring: no turn reaps anything.\<close>

definition no_ring :: "py_op \<Rightarrow> bool" where
  "no_ring oper = (case oper of PyTurn now lsb rnd cqes \<Rightarrow> cqes = [] | _ \<Rightarrow> True)"

lemma py_run_inv:
  assumes m: "0 < sg_maxPldLen c" and n: "sg_numSendSockets c \<noteq> 0" and sel: "\<not> isSel liburing_send"
  shows "list_all no_ring ops \<Longrightarrow> py_inv base p waiting leaked \<Longrightarrow>
    \<exists>p' waiting' leaked'. py_run wire_net h isSel c ops p = Some p' \<and> py_inv base p' waiting' leaked'"
proof (induction ops arbitrary: p waiting leaked)
  case Nil
  then show ?case by auto
next
  case (Cons oper ops)
  have "\<exists>p' waiting' leaked'. py_step wire_net h isSel c oper p = Some p' \<and> py_inv base p' waiting' leaked'"
  proof (cases oper)
    case (PyOffer buf bytes num did entropy cb arg)
    then show ?thesis using py_step_offer[OF Cons.prems(2)] by simp
  next
    case (PyTurn now lsb rnd cqes)
    then have "cqes = []" using Cons.prems(1) by (simp add: no_ring_def)
    then show ?thesis using py_step_turn[where isSel = isSel, OF m n sel Cons.prems(2)] PyTurn by blast
  qed
  then show ?case using Cons.IH Cons.prems(1) by fastforce
qed

section \<open>What Python sends and receives\<close>

text \<open>The pointer of an array without gaps gives its elements one after the other.\<close>

lemma concat_slices:
  "k * n \<le> length bs \<Longrightarrow> concat (map (\<lambda>i. slice_at (i * n) n bs) [0..<k]) = take (k * n) bs"
proof (induction k)
  case 0
  then show ?case by simp
next
  case (Suc k)
  have "take (Suc k * n) bs = take (k * n) bs @ slice_at (k * n) n bs"
    unfolding slice_at_def take_add[symmetric] by (simp add: add.commute)
  moreover have "concat (map (\<lambda>i. slice_at (i * n) n bs) [0..<k]) = take (k * n) bs" using Suc by simp
  ultimately show ?case by simp
qed

lemma array_bytes_contiguous:
  assumes "pa_stride a = pa_itemsize a" and "array_nbytes a \<le> length (pa_mem a)"
  shows "array_bytes a = take (array_nbytes a) (pa_mem a)"
  using assms concat_slices[of "pa_len a" "pa_itemsize a" "pa_mem a"] by (simp add: array_bytes_def array_nbytes_def)

text \<open>A queued event as the reassembler keeps it, read in the two ways.\<close>

lemma py_getEventBytes_cases:
  obtains (none) g1 where "rs_eventQueue g = []" "py_getEventBytes g = ((-1, [], 0, 0), g1)"
      "\<And>k. py_get1DNumpyArray k g = Some ((-1, [], 0, 0), g1)"
  | (event) i q g1 where "rs_eventQueue g = i # q" "getEvent g = (Ok 0, Some (item_out i), g1)"
      "py_getEventBytes g = (bytes_tuple True (Ok 0) (Some (item_out i)), g1)"
      "\<And>k. py_get1DNumpyArray k g = map_option (\<lambda>t. (t, g1)) (array_tuple k (Ok 0) (Some (item_out i)))"
proof (cases "rs_eventQueue g")
  case Nil
  obtain g1 x where d: "reas_dequeue g = (g1, x)" by fastforce
  then have "x = None" using Nil by (auto simp: reas_dequeue_def split: list.splits)
  then have e: "getEvent g = (Ok (-1), None, g1)" using d by (simp add: getEvent_def)
  show ?thesis
    by (rule none[OF Nil, of g1]) (simp_all add: py_getEventBytes_def py_get1DNumpyArray_def e bytes_tuple_def array_tuple_def)
next
  case (Cons i q)
  then obtain g1 where "reas_dequeue g = (g1, Some i)" using reas_fifo.pop_head by blast
  then have e: "getEvent g = (Ok 0, Some (item_out i), g1)" by (simp add: getEvent_def)
  show ?thesis by (rule event[OF Cons e]) (simp_all add: py_getEventBytes_def py_get1DNumpyArray_def e)
qed

lemma bytes_tuple_item:
  "length (ri_event i) = ri_bytes i \<Longrightarrow> bytes_tuple True (Ok 0) (Some (item_out i)) =
    (if ri_bytes i = 0 then -1 else int (ri_bytes i), ri_event i, ri_eventNum i, ri_dataId i)"
  by (auto simp: bytes_tuple_def item_out_def)

lemma array_tuple_item:
  "0 < k \<Longrightarrow> array_tuple k (Ok 0) (Some (item_out i)) =
    Some (int (ri_bytes i), map (\<lambda>j. slice_at (j * k) k (ri_event i)) [0..<ri_bytes i div k], ri_eventNum i, ri_dataId i)"
  by (simp add: array_tuple_def item_out_def)

text \<open>An array whose elements all fit is cut where the sender's array was.\<close>

lemma array_of_elements:
  assumes "pa_stride a = pa_itemsize a" and "array_nbytes a \<le> length (pa_mem a)" and "0 < pa_itemsize a"
  shows "map (\<lambda>j. slice_at (j * pa_itemsize a) (pa_itemsize a) (map Some (take (array_nbytes a) (pa_mem a))))
      [0..<array_nbytes a div pa_itemsize a] =
    map (\<lambda>j. map Some (slice_at (j * pa_stride a) (pa_itemsize a) (pa_mem a))) [0..<pa_len a]"
proof -
  have "array_nbytes a div pa_itemsize a = pa_len a" using assms(3) by (simp add: array_nbytes_def)
  moreover have "slice_at (j * pa_itemsize a) (pa_itemsize a) (map Some (take (array_nbytes a) (pa_mem a))) =
      map Some (slice_at (j * pa_stride a) (pa_itemsize a) (pa_mem a))" if "j < pa_len a" for j
  proof -
    have "j * pa_itemsize a + pa_itemsize a \<le> array_nbytes a"
      using that mult_le_mono1[of "Suc j" "pa_len a" "pa_itemsize a"] by (simp add: array_nbytes_def)
    then show ?thesis using slice_at_take[of "j * pa_itemsize a" "pa_itemsize a" "array_nbytes a" "pa_mem a"] assms(1)
      by (simp add: slice_at_def take_map drop_map)
  qed
  ultimately show ?thesis by (intro map_cong) auto
qed

section \<open>The two ways of receiving agree\<close>

lemma py_received:
  assumes "\<forall>i\<in>set (rs_eventQueue g). length (ri_event i) = ri_bytes i" and "0 < k"
  shows "\<exists>n n' data arr num did g'. py_getEventBytes g = ((n, data, num, did), g') \<and>
    py_get1DNumpyArray k g = Some ((n', arr, num, did), g') \<and>
    (n = -1 \<and> data = [] \<or> 0 < n \<and> int (length data) = n) \<and>
    (n' = n \<or> n = -1 \<and> n' = 0) \<and> (n' = -1 \<longrightarrow> arr = []) \<and> length arr = nat n' div k \<and>
    (\<forall>e\<in>set arr. length e = k) \<and> concat arr = take (length arr * k) data"
proof (cases rule: py_getEventBytes_cases[of g])
  case (none g1)
  then show ?thesis by simp
next
  case (event i q g1)
  let ?n = "ri_bytes i" and ?ev = "ri_event i"
  have l: "length ?ev = ?n" using assms(1) event(1) by simp
  have le: "?n div k * k \<le> ?n" by (rule div_times_less_eq_dividend)
  have "length (slice_at (j * k) k ?ev) = k" if "j < ?n div k" for j
  proof -
    have "j * k + k \<le> ?n div k * k" using that mult_le_mono1[of "Suc j" "?n div k" k] by simp
    then have "j * k + k \<le> length ?ev" using le l by linarith
    then show ?thesis by (simp add: slice_at_def)
  qed
  moreover have "concat (map (\<lambda>j. slice_at (j * k) k ?ev) [0..<?n div k]) = take (?n div k * k) ?ev"
    by (rule concat_slices) (use le l in simp)
  ultimately show ?thesis
    unfolding event(3,4) bytes_tuple_item[OF l] array_tuple_item[OF assms(2)] using l by auto
qed

section \<open>What a stopped sender has done\<close>

lemma stop_step_jobs:
  "stop_step gil_held s s' \<Longrightarrow> set (st_queue s' @ st_pool s' @ st_done s') = set (st_queue s @ st_pool s @ st_done s)"
  by (auto elim!: stop_stepE)

lemma stop_jobs:
  assumes "(stop_step gil_held)\<^sup>*\<^sup>* s s'"
  shows "set (st_queue s' @ st_pool s' @ st_done s') = set (st_queue s @ st_pool s @ st_done s)"
  using assms
proof (induction rule: rtranclp_induct)
  case base
  then show ?case by simp
next
  case (step s1 s2)
  then show ?case using stop_step_jobs[OF step(2)] by (simp only:)
qed

text \<open>Blocked or not, there is only so much to do.\<close>

lemma stop_run_bounded: "(stop_step gil_held ^^ n) s s' \<Longrightarrow> n + stop_left s' \<le> stop_left s"
proof (induction n arbitrary: s')
  case 0
  then show ?case by simp
next
  case (Suc n)
  then obtain s1 where s1: "(stop_step gil_held ^^ n) s s1" "stop_step gil_held s1 s'" by auto
  have "stop_left s' < stop_left s1" using s1(2) by (auto simp: stop_left_def elim!: stop_stepE)
  then show ?case using Suc.IH[OF s1(1)] by simp
qed

end
