(* ===== verification/E2SAR_PythonModule.thy ===== *)
theory E2SAR_PythonModule
  imports E2SAR_Python E2SAR_ControlPlane
begin

text \<open>
  The Python module itself, \<^verbatim>\<open>src/pybind/py_e2sar.cpp\<close>, \<^verbatim>\<open>py_e2sarCP.cpp\<close> and \<^verbatim>\<open>py_e2sarUtil.cpp\<close>: the
  result classes, what a call of the library gives back to Python, the control plane calls that are more
  than a pointer to the method, and the samples and time stamps.  A function that pybind11 binds by its
  pointer is the function itself and has no definition of its own here.
\<close>

section \<open>Results and exceptions\<close>

text \<open>What Python raises: a \<^verbatim>\<open>RuntimeError\<close>, the access to a missing value, or a type that is not registered.\<close>

datatype py_exn = RuntimeError string | BadResultAccess E2SARErrorInfo | TypeErrorUnregistered

type_synonym 'a py_call = "py_exn + 'a"

definition py_result_value :: "'a result \<Rightarrow> 'a py_call" where
  "py_result_value r = (case r of Inl e \<Rightarrow> Inl (BadResultAccess e) | Inr v \<Rightarrow> Inr v)"

definition py_result_error :: "'a result \<Rightarrow> E2SARErrorInfo py_call" where
  "py_result_error r = (case r of Inl e \<Rightarrow> Inr e | Inr v \<Rightarrow> Inl (RuntimeError ''No error present in ''))"

definition py_result_has_value :: "'a result \<Rightarrow> bool" where
  "py_result_has_value r \<longleftrightarrow> \<not> has_error r"

definition py_result_has_error :: "'a result \<Rightarrow> bool" where
  "py_result_has_error r \<longleftrightarrow> \<not> py_result_has_value r"

text \<open>
  The value types whose result class is registered.  Returning a result of another type raises a
  \<^verbatim>\<open>TypeError\<close>, after the call has been made.
\<close>

datatype py_value_type =
    VInt | VString | VEjfatURI | VSslOptions | VUInt32 | VPairIP | VPairString | VFDStats | VPairUInt64
  | VReassemblerFlags | VSegmenterFlags | VTokenDetails | VTokenDetailsList | VTimeseriesResult

definition registered_results :: "py_value_type list" where
  "registered_results = [VInt, VString, VEjfatURI, VSslOptions, VUInt32, VPairIP, VPairString, VFDStats, VPairUInt64,
     VReassemblerFlags, VSegmenterFlags]"

definition py_returns :: "py_value_type \<Rightarrow> 'a result \<times> 's \<Rightarrow> 'a result py_call \<times> 's" where
  "py_returns t = (\<lambda>(r, s). (if t \<in> set registered_results then Inr r else Inl TypeErrorUnregistered, s))"

text \<open>The texts of an error and of an address.\<close>

definition py_error_repr :: "E2SARErrorInfo \<Rightarrow> string" where
  "py_error_repr e =
     (let c = errc_value (ec e); n = nat_str (nat \<bar>c\<bar>)
      in ''<E2SARErrorInfo(code='' @ (if c < 0 then ''-'' @ n else n) @ '', message='' @ [CHR 0x27] @ msg e @ [CHR 0x27] @ '')>'')"

section \<open>Control plane calls\<close>

text \<open>A reply held by a pointer becomes an object, an error becomes None (and is printed).\<close>

definition outcome_result_to_pyobject :: "'a result \<times> 's \<Rightarrow> 'a option \<times> 's" where
  "outcome_result_to_pyobject = (\<lambda>(r, s). (case r of Inl e \<Rightarrow> None | Inr v \<Rightarrow> Some v, s))"

definition py_get_version ::
  "('w, 'ws) lb_stub \<Rightarrow> LBManager \<Rightarrow> 'w \<Rightarrow> (string \<times> string \<times> string) py_call \<times> LBManager \<times> 'w" where
  "py_get_version stub m w =
     (case lb_version stub m w of
        (Inl e, s) \<Rightarrow> (Inl (RuntimeError (msg e)), s)
      | (Inr v, s) \<Rightarrow> (Inr v, s))"

definition py_get_lb_status :: "('w, 'ws) lb_stub \<Rightarrow> LBManager \<Rightarrow> 'w \<Rightarrow> 'ws StatusReply option \<times> LBManager \<times> 'w" where
  "py_get_lb_status stub m w = outcome_result_to_pyobject (getLBStatus stub m w)"

definition py_get_lb_status_by_id ::
  "('w, 'ws) lb_stub \<Rightarrow> string \<Rightarrow> LBManager \<Rightarrow> 'w \<Rightarrow> 'ws StatusReply option \<times> LBManager \<times> 'w" where
  "py_get_lb_status_by_id stub lbid m w = outcome_result_to_pyobject (getLBStatus_id stub lbid m w)"

definition py_get_lb_overview ::
  "('w, 'ws) lb_stub \<Rightarrow> LBManager \<Rightarrow> 'w \<Rightarrow> (string \<times> Reservation \<times> 'ws StatusReply) list option \<times> LBManager \<times> 'w" where
  "py_get_lb_overview stub m w = outcome_result_to_pyobject (lb_overview stub m w)"

text \<open>An id is an unsigned number of 32 bits: pybind11 refuses any other before the call.\<close>

definition py_list_token_permissions_by_id ::
  "('w, 'ws) lb_stub \<Rightarrow> u32 \<Rightarrow> LBManager \<Rightarrow> 'w \<Rightarrow> TokenDetails result py_call \<times> LBManager \<times> 'w" where
  "py_list_token_permissions_by_id stub i m w = py_returns VTokenDetails (listTokenPermissions stub (ById i) m w)"

definition py_list_token_permissions_by_string ::
  "('w, 'ws) lb_stub \<Rightarrow> string \<Rightarrow> LBManager \<Rightarrow> 'w \<Rightarrow> TokenDetails result py_call \<times> LBManager \<times> 'w" where
  "py_list_token_permissions_by_string stub t m w = py_returns VTokenDetails (listTokenPermissions stub (ByToken t) m w)"

definition py_list_child_tokens_by_id ::
  "('w, 'ws) lb_stub \<Rightarrow> u32 \<Rightarrow> LBManager \<Rightarrow> 'w \<Rightarrow> TokenDetails list result py_call \<times> LBManager \<times> 'w" where
  "py_list_child_tokens_by_id stub i m w = py_returns VTokenDetailsList (listChildTokens stub (ById i) m w)"

definition py_list_child_tokens_by_string ::
  "('w, 'ws) lb_stub \<Rightarrow> string \<Rightarrow> LBManager \<Rightarrow> 'w \<Rightarrow> TokenDetails list result py_call \<times> LBManager \<times> 'w" where
  "py_list_child_tokens_by_string stub t m w = py_returns VTokenDetailsList (listChildTokens stub (ByToken t) m w)"

definition py_revoke_token_by_id ::
  "('w, 'ws) lb_stub \<Rightarrow> u32 \<Rightarrow> LBManager \<Rightarrow> 'w \<Rightarrow> int result py_call \<times> LBManager \<times> 'w" where
  "py_revoke_token_by_id stub i m w = py_returns VInt (revokeToken stub (ById i) m w)"

definition py_revoke_token_by_string ::
  "('w, 'ws) lb_stub \<Rightarrow> string \<Rightarrow> LBManager \<Rightarrow> 'w \<Rightarrow> int result py_call \<times> LBManager \<times> 'w" where
  "py_revoke_token_by_string stub t m w = py_returns VInt (revokeToken stub (ByToken t) m w)"

definition py_create_token ::
  "('w, 'ws) lb_stub \<Rightarrow> string \<Rightarrow> TokenPerm list \<Rightarrow> LBManager \<Rightarrow> 'w \<Rightarrow> string result py_call \<times> LBManager \<times> 'w" where
  "py_create_token stub name perms m w = py_returns VString (createToken stub name perms m w)"

definition py_timeseries ::
  "('w, 'ws) lb_stub \<Rightarrow> string \<Rightarrow> time_stamp \<Rightarrow> LBManager \<Rightarrow> 'w \<Rightarrow>
     (int \<times> TimeseriesData list) result py_call \<times> LBManager \<times> 'w" where
  "py_timeseries stub path since m w = py_returns VTimeseriesResult (lb_timeseries stub path since m w)"

section \<open>Samples, time stamps and addresses\<close>

definition py_is_float :: "TimeseriesData \<Rightarrow> bool" where
  "py_is_float d = (case sd_timeseries d of FloatTS _ \<Rightarrow> True | _ \<Rightarrow> False)"

definition py_is_integer :: "TimeseriesData \<Rightarrow> bool" where
  "py_is_integer d = (case sd_timeseries d of IntTS _ \<Rightarrow> True | _ \<Rightarrow> False)"

definition py_get_float_samples :: "TimeseriesData \<Rightarrow> (int \<times> rat) list py_call" where
  "py_get_float_samples d =
     (case sd_timeseries d of FloatTS xs \<Rightarrow> Inr xs | _ \<Rightarrow> Inl (RuntimeError ''Timeseries does not contain float samples''))"

definition py_get_integer_samples :: "TimeseriesData \<Rightarrow> (int \<times> int) list py_call" where
  "py_get_integer_samples d =
     (case sd_timeseries d of IntTS xs \<Rightarrow> Inr xs | _ \<Rightarrow> Inl (RuntimeError ''Timeseries does not contain integer samples''))"

text \<open>
  A protobuf time stamp has 64 bits of seconds and 32 of nanoseconds; a Python number outside of that
  cannot be cast.
\<close>

definition convert_timestamp_to_python :: "64 word \<times> 32 word \<Rightarrow> int \<times> int" where
  "convert_timestamp_to_python = (\<lambda>(sec, nsec). (sint sec, sint nsec))"

definition convert_timestamp_to_cpp :: "int \<times> int \<Rightarrow> (64 word \<times> 32 word) option" where
  "convert_timestamp_to_cpp = (\<lambda>(sec, nsec).
     if - (2 ^ 63) \<le> sec \<and> sec < 2 ^ 63 \<and> - (2 ^ 31) \<le> nsec \<and> nsec < 2 ^ 31
     then Some (word_of_int sec, word_of_int nsec) else None)"

definition py_get_dp_local_addrs :: "host_ops \<Rightarrow> route_ops \<Rightarrow> EjfatURI \<Rightarrow> bool \<Rightarrow> string list py_call" where
  "py_get_dp_local_addrs h r uri v6 =
     (case getDataplaneLocalAddresses r v6 uri of
        Inl e \<Rightarrow> Inl (RuntimeError ''Failed to retrieve dataplane local addresses'')
      | Inr ips \<Rightarrow> Inr (map (addr_str h) ips))"

section \<open>Lemmas\<close>

lemma py_result_cases:
  "py_result_has_value r \<Longrightarrow> \<exists>v. py_result_value r = Inr v \<and> r = Inr v"
  "py_result_has_error r \<Longrightarrow> \<exists>e. py_result_error r = Inr e \<and> r = Inl e"
  by (auto simp: py_result_has_value_def py_result_has_error_def py_result_value_def py_result_error_def has_error_def
      split: sum.splits)

lemma convert_timestamp_roundtrip: "convert_timestamp_to_cpp (convert_timestamp_to_python t) = Some t"
proof -
  obtain a b where t: "t = (a, b)" by fastforce
  have "- (2 ^ 63) \<le> sint a \<and> sint a < 2 ^ 63" using sint_greater_eq[of a] sint_less[of a] by simp
  moreover have "- (2 ^ 31) \<le> sint b \<and> sint b < 2 ^ 31" using sint_greater_eq[of b] sint_less[of b] by simp
  ultimately show ?thesis by (simp add: t convert_timestamp_to_cpp_def convert_timestamp_to_python_def)
qed

text \<open>The three calls whose result class is missing never give Python a result, whatever the server answered.\<close>

lemma unregistered_calls_fail:
  "fst (py_list_token_permissions_by_id stub i m w) = Inl TypeErrorUnregistered"
  "fst (py_list_token_permissions_by_string stub t m w) = Inl TypeErrorUnregistered"
  "fst (py_list_child_tokens_by_id stub i m w) = Inl TypeErrorUnregistered"
  "fst (py_list_child_tokens_by_string stub t m w) = Inl TypeErrorUnregistered"
  "fst (py_timeseries stub path since m w) = Inl TypeErrorUnregistered"
  by (simp_all add: py_list_token_permissions_by_id_def py_list_token_permissions_by_string_def
      py_list_child_tokens_by_id_def py_list_child_tokens_by_string_def py_timeseries_def py_returns_def
      registered_results_def split: prod.splits)

end
