(* ===== verification/E2SAR_Memory.thy ===== *)
theory E2SAR_Memory
  imports E2SAR_Reassembly "HOL-Library.Multiset"
begin

text \<open>
  Who owns the buffer of an event.  The receive threads, the garbage collector and the user in steps finer
  than those of \<open>E2SAR_Reassembly\<close>: a receive thread holds the mutex of its table only while it looks an
  event up and while it takes a finished one out; in between it copies with the item in hand.  Buffers are
  numbers, those allocated and not freed yet are \<open>mm_live\<close>, and a write to or a free of
  any other sets \<open>mm_fault\<close>.  What is in the buffers, and the counters, are left out here.
\<close>

section \<open>State\<close>

text \<open>
  The items created so far (the number of an item is that of its buffer).  \<open>Copying\<close> a payload and \<open>Copied\<close>
  are the states of a thread between its two critical sections.
\<close>

record event_obj =
  eo_key :: event_key
  eo_first :: int
  eo_bytes :: nat
  eo_cur :: nat

datatype hand = Idle | Copying nat nat | Copied nat

record mem_thread =
  mt_table :: "(event_key \<times> nat) list"
  mt_hand :: hand
  mt_ended :: bool

record mem_state =
  mm_objs :: "event_obj list"
  mm_live :: "nat set"
  mm_threads :: "mem_thread list"
  mm_queue :: "nat list"
  mm_user :: "nat list"
  mm_replaced :: "nat list"
  mm_threadsStop :: bool
  mm_gcEnded :: bool
  mm_fault :: bool

definition mem_initial :: "nat \<Rightarrow> mem_state" where
  "mem_initial n = \<lparr>mm_objs = [], mm_live = {}, mm_threads = replicate n \<lparr>mt_table = [], mt_hand = Idle, mt_ended = False\<rparr>,
     mm_queue = [], mm_user = [], mm_replaced = [], mm_threadsStop = False, mm_gcEnded = False, mm_fault = False\<rparr>"

section \<open>Operations\<close>

definition mem_write :: "nat \<Rightarrow> mem_state \<Rightarrow> mem_state" where
  "mem_write b s = (if b \<in> mm_live s then s else s\<lparr>mm_fault := True\<rparr>)"

definition mem_free :: "nat \<Rightarrow> mem_state \<Rightarrow> mem_state" where
  "mem_free b s = (if b \<in> mm_live s then s\<lparr>mm_live := mm_live s - {b}\<rparr> else s\<lparr>mm_fault := True\<rparr>)"

definition set_thread :: "nat \<Rightarrow> mem_thread \<Rightarrow> mem_state \<Rightarrow> mem_state" where
  "set_thread i t s = s\<lparr>mm_threads := (mm_threads s)[i := t]\<rparr>"

text \<open>
  Looking up the item of a valid fragment, under the mutex.  A fragment at offset 0 starts a new one; what
  the table had under the key is dropped without being freed (\<open>mm_replaced\<close>).
\<close>

definition mem_locate :: "nat \<Rightarrow> event_key \<Rightarrow> nat \<Rightarrow> nat \<Rightarrow> nat \<Rightarrow> int \<Rightarrow> mem_state \<Rightarrow> mem_state" where
  "mem_locate i key off bytes len now s =
     (let t = mm_threads s ! i in
      case (if off = 0 then None else map_of (mt_table t) key) of
        Some b \<Rightarrow> set_thread i (t\<lparr>mt_hand := Copying b len\<rparr>) s
      | None \<Rightarrow>
          (let b = length (mm_objs s)
           in set_thread i (t\<lparr>mt_table := AList.update key b (mt_table t), mt_hand := Copying b len\<rparr>)
             (s\<lparr>mm_objs := mm_objs s @ [\<lparr>eo_key = key, eo_first = now, eo_bytes = bytes, eo_cur = 0\<rparr>],
                mm_live := insert b (mm_live s),
                mm_replaced := mm_replaced s @ (case map_of (mt_table t) key of None \<Rightarrow> [] | Some b' \<Rightarrow> [b'])\<rparr>)))"

text \<open>The copy into the buffer of the item in hand, outside the mutex, and the count of its bytes.\<close>

definition mem_copy :: "nat \<Rightarrow> nat \<Rightarrow> nat \<Rightarrow> mem_state \<Rightarrow> mem_state" where
  "mem_copy i b len s =
     (let s1 = mem_write b s; ob = mm_objs s ! b
      in set_thread i ((mm_threads s ! i)\<lparr>mt_hand := Copied b\<rparr>)
           (s1\<lparr>mm_objs := (mm_objs s)[b := ob\<lparr>eo_cur := eo_cur ob + len\<rparr>]\<rparr>))"

text \<open>
  A finished event leaves the table under the mutex, then it is queued or, when no node can be
  allocated, freed.
\<close>

definition mem_finish :: "nat \<Rightarrow> nat \<Rightarrow> bool \<Rightarrow> mem_state \<Rightarrow> mem_state" where
  "mem_finish i b alloc_ok s =
     (let t = mm_threads s ! i; ob = mm_objs s ! b
      in if eo_cur ob = eo_bytes ob
         then (let s1 = set_thread i (t\<lparr>mt_table := AList.delete (eo_key ob) (mt_table t), mt_hand := Idle\<rparr>) s
               in if alloc_ok then s1\<lparr>mm_queue := mm_queue s1 @ [b]\<rparr> else mem_free b s1)
         else set_thread i (t\<lparr>mt_hand := Idle\<rparr>) s)"

definition obj_expired :: "int \<Rightarrow> int \<Rightarrow> event_obj \<Rightarrow> bool" where
  "obj_expired now tmo ob \<longleftrightarrow> cpp_div (now - eo_first ob) 1000000 > tmo"

text \<open>A scan of the collector over the table of one thread, under its mutex.\<close>

definition mem_gc :: "nat \<Rightarrow> int \<Rightarrow> int \<Rightarrow> mem_state \<Rightarrow> mem_state" where
  "mem_gc i now tmo s =
     (let t = mm_threads s ! i; old = (\<lambda>(k, b). obj_expired now tmo (mm_objs s ! b))
      in set_thread i (t\<lparr>mt_table := filter (\<lambda>e. \<not> old e) (mt_table t)\<rparr>)
           (fold mem_free (map snd (filter old (mt_table t))) s))"

text \<open>The collector's drain after the stop, without the mutexes, and the drain of the event queue.\<close>

definition mem_gc_drain :: "mem_state \<Rightarrow> mem_state" where
  "mem_gc_drain s =
     (let s1 = fold mem_free (concat (map (map snd \<circ> mt_table) (mm_threads s))) s
      in s1\<lparr>mm_threads := map (\<lambda>t. t\<lparr>mt_table := []\<rparr>) (mm_threads s), mm_gcEnded := True\<rparr>)"

definition mem_queue_drain :: "mem_state \<Rightarrow> mem_state" where
  "mem_queue_drain s = fold mem_free (mm_queue s) (s\<lparr>mm_queue := []\<rparr>)"

section \<open>Steps\<close>

definition in_hand :: "mem_thread \<Rightarrow> nat \<Rightarrow> bool" where
  "in_hand t b \<longleftrightarrow> (case mt_hand t of Idle \<Rightarrow> False | Copying b' len \<Rightarrow> b' = b | Copied b' \<Rightarrow> b' = b)"

text \<open>
  The steps of the threads and the user.  With \<open>timely\<close>, a fragment is done with before its event times
  out, and the collector's drain comes after the receive threads have ended; nothing in
  the program sees to either.
\<close>

inductive mem_step :: "int \<Rightarrow> bool \<Rightarrow> mem_state \<Rightarrow> mem_state \<Rightarrow> bool" for tmo :: int and timely :: bool where
  ms_locate: "i < length (mm_threads s) \<Longrightarrow> mt_hand (mm_threads s ! i) = Idle \<Longrightarrow> \<not> mt_ended (mm_threads s ! i) \<Longrightarrow>
    mem_step tmo timely s (mem_locate i key off bytes len now s)"
| ms_copy: "i < length (mm_threads s) \<Longrightarrow> mt_hand (mm_threads s ! i) = Copying b len \<Longrightarrow>
    mem_step tmo timely s (mem_copy i b len s)"
| ms_finish: "i < length (mm_threads s) \<Longrightarrow> mt_hand (mm_threads s ! i) = Copied b \<Longrightarrow>
    mem_step tmo timely s (mem_finish i b alloc_ok s)"
| ms_gc: "i < length (mm_threads s) \<Longrightarrow> \<not> mm_gcEnded s \<Longrightarrow>
    (timely \<Longrightarrow> \<forall>(k, b)\<in>set (mt_table (mm_threads s ! i)). obj_expired now tmo (mm_objs s ! b) \<longrightarrow>
       \<not> in_hand (mm_threads s ! i) b) \<Longrightarrow>
    mem_step tmo timely s (mem_gc i now tmo s)"
| ms_get: "mm_queue s = b # q \<Longrightarrow> mem_step tmo timely s (s\<lparr>mm_queue := q, mm_user := mm_user s @ [b]\<rparr>)"
| ms_user: "b \<in> set (mm_user s) \<Longrightarrow>
    mem_step tmo timely s (mem_free b (s\<lparr>mm_user := remove1 b (mm_user s)\<rparr>))"
| ms_stop: "mem_step tmo timely s (s\<lparr>mm_threadsStop := True\<rparr>)"
| ms_end: "i < length (mm_threads s) \<Longrightarrow> mm_threadsStop s \<Longrightarrow> mt_hand (mm_threads s ! i) = Idle \<Longrightarrow>
    mem_step tmo timely s (set_thread i ((mm_threads s ! i)\<lparr>mt_ended := True\<rparr>) s)"
| ms_gc_drain: "mm_threadsStop s \<Longrightarrow> \<not> mm_gcEnded s \<Longrightarrow> (timely \<Longrightarrow> \<forall>t\<in>set (mm_threads s). mt_ended t) \<Longrightarrow>
    mem_step tmo timely s (mem_gc_drain s)"
| ms_queue_drain: "\<forall>t\<in>set (mm_threads s). mt_ended t \<Longrightarrow> mem_step tmo timely s (mem_queue_drain s)"

section \<open>Ownership\<close>

definition table_bufs :: "mem_thread list \<Rightarrow> nat list" where
  "table_bufs ts = concat (map (map snd \<circ> mt_table) ts)"

definition owners :: "mem_state \<Rightarrow> nat list" where
  "owners s = table_bufs (mm_threads s) @ mm_queue s @ mm_user s @ mm_replaced s"

definition thread_fine :: "mem_state \<Rightarrow> mem_thread \<Rightarrow> bool" where
  "thread_fine s t \<longleftrightarrow>
     distinct (map fst (mt_table t)) \<and> (\<forall>(k, b)\<in>set (mt_table t). eo_key (mm_objs s ! b) = k) \<and>
     (\<forall>b. in_hand t b \<longrightarrow> b \<in> snd ` set (mt_table t)) \<and> (mt_ended t \<longrightarrow> mt_hand t = Idle)"

definition mem_inv :: "mem_state \<Rightarrow> bool" where
  "mem_inv s \<longleftrightarrow> \<not> mm_fault s \<and> distinct (owners s) \<and> set (owners s) = mm_live s \<and>
     (\<forall>b\<in>mm_live s. b < length (mm_objs s)) \<and> (\<forall>t\<in>set (mm_threads s). thread_fine s t) \<and>
     (mm_gcEnded s \<longrightarrow> (\<forall>t\<in>set (mm_threads s). mt_ended t \<and> mt_table t = []))"

lemma mem_initial_inv: "mem_inv (mem_initial n)"
  by (auto simp: mem_inv_def mem_initial_def owners_def table_bufs_def thread_fine_def in_hand_def)

lemma mset_table_bufs:
  "i < length ts \<Longrightarrow> mset (table_bufs (ts[i := t])) + mset (map snd (mt_table (ts ! i))) =
     mset (table_bufs ts) + mset (map snd (mt_table t))"
proof (induction ts arbitrary: i)
  case Nil
  then show ?case by simp
next
  case (Cons x xs)
  show ?case
  proof (cases i)
    case 0
    then show ?thesis by (simp add: table_bufs_def ac_simps)
  next
    case (Suc j)
    then show ?thesis using Cons.IH[of j] Cons.prems by (simp add: table_bufs_def ac_simps)
  qed
qed

lemma owned_iff:
  assumes "finite A"
  shows "distinct xs \<and> set xs = A \<longleftrightarrow> mset xs = mset_set A"
proof
  assume "distinct xs \<and> set xs = A"
  then show "mset xs = mset_set A" using mset_set_set[of xs] by simp
next
  assume m: "mset xs = mset_set A"
  have "set xs = A" using arg_cong[OF m, of set_mset] assms by simp
  moreover have "count (mset xs) a = (if a \<in> set xs then 1 else 0)" for a
    unfolding m using assms \<open>set xs = A\<close> by (auto simp: count_mset_set)
  ultimately show "distinct xs \<and> set xs = A" using distinct_count_atmost_1 by blast
qed

lemma mset_update_new: "map_of xs k = None \<Longrightarrow> mset (map snd (AList.update k b xs)) = add_mset b (mset (map snd xs))"
  by (induction xs) (auto split: if_splits)

lemma mset_update_old:
  "map_of xs k = Some b' \<Longrightarrow> add_mset b' (mset (map snd (AList.update k b xs))) = add_mset b (mset (map snd xs))"
  by (induction xs) (auto simp: add_mset_commute split: if_splits)

lemma mset_delete:
  "distinct (map fst xs) \<Longrightarrow> map_of xs k = Some b \<Longrightarrow> add_mset b (mset (map snd (AList.delete k xs))) = mset (map snd xs)"
proof (induction xs)
  case Nil
  then show ?case by simp
next
  case (Cons x xs)
  show ?case
  proof (cases "fst x = k")
    case True
    then have "AList.delete k (x # xs) = xs" using Cons.prems(1) AList.delete_id[of k xs] by simp
    then show ?thesis using True Cons.prems(2) by (cases x) simp
  next
    case False
    then show ?thesis using Cons by (cases x) (simp add: add_mset_commute[of b])
  qed
qed

lemma mset_partition: "mset (map snd (filter P xs)) + mset (map snd (filter (\<lambda>x. \<not> P x) xs)) = mset (map snd xs)"
  by (induction xs) auto

lemma mem_free_live [simp]: "b \<in> mm_live s \<Longrightarrow> mem_free b s = s\<lparr>mm_live := mm_live s - {b}\<rparr>"
  by (simp add: mem_free_def)

lemma fold_mem_free:
  "distinct bs \<Longrightarrow> set bs \<subseteq> mm_live s \<Longrightarrow> fold mem_free bs s = s\<lparr>mm_live := mm_live s - set bs\<rparr>"
proof (induction bs arbitrary: s)
  case Nil
  then show ?case by simp
next
  case (Cons b bs)
  then have "fold mem_free bs (s\<lparr>mm_live := mm_live s - {b}\<rparr>) = s\<lparr>mm_live := mm_live s - {b} - set bs\<rparr>"
    by (subst Cons.IH) auto
  then show ?case using Cons.prems by (simp add: Diff_insert2[symmetric] insert_commute)
qed

lemma set_update_cases:
  "x \<in> set (AList.update k v xs) \<Longrightarrow> x = (k, v) \<or> x \<in> set xs"
  "(k, v) \<in> set (AList.update k v xs)"
  by (induction xs) (auto split: if_splits)

lemma mem_invI:
  assumes "\<not> mm_fault s" and "mset (owners s) = mset_set (mm_live s)" and "finite (mm_live s)"
    and "\<And>b. b \<in> mm_live s \<Longrightarrow> b < length (mm_objs s)" and "\<And>t. t \<in> set (mm_threads s) \<Longrightarrow> thread_fine s t"
    and "mm_gcEnded s \<Longrightarrow> \<forall>t\<in>set (mm_threads s). mt_ended t \<and> mt_table t = []"
  shows "mem_inv s"
  using assms owned_iff[OF assms(3), of "owners s"] by (simp add: mem_inv_def)

lemma mem_invD:
  assumes "mem_inv s"
  shows "\<not> mm_fault s" and "mset (owners s) = mset_set (mm_live s)" and "finite (mm_live s)"
    and "b \<in> mm_live s \<Longrightarrow> b < length (mm_objs s)" and "t \<in> set (mm_threads s) \<Longrightarrow> thread_fine s t"
    and "mm_gcEnded s \<Longrightarrow> \<forall>t\<in>set (mm_threads s). mt_ended t \<and> mt_table t = []"
proof -
  have "set (owners s) = mm_live s" using assms by (simp add: mem_inv_def)
  then show f: "finite (mm_live s)" using finite_set by metis
  show "mset (owners s) = mset_set (mm_live s)" using assms owned_iff[OF f, of "owners s"] by (simp add: mem_inv_def)
qed (use assms in \<open>auto simp: mem_inv_def\<close>)

lemma table_live:
  assumes "mem_inv s" and "t \<in> set (mm_threads s)" and "b \<in> snd ` set (mt_table t)"
  shows "b \<in> mm_live s"
proof -
  have "b \<in> set (owners s)" using assms(2,3) by (auto simp: owners_def table_bufs_def)
  then show ?thesis using assms(1) by (simp add: mem_inv_def)
qed

lemma thread_fine_cong:
  "thread_fine s t \<Longrightarrow> (\<And>b. b \<in> snd ` set (mt_table t) \<Longrightarrow> eo_key (mm_objs s' ! b) = eo_key (mm_objs s ! b)) \<Longrightarrow>
   thread_fine s' t"
  by (force simp: thread_fine_def)

lemma thread_fine_update:
  assumes "\<And>t. t \<in> set ts \<Longrightarrow> thread_fine s t" and "thread_fine s t'" and "t \<in> set (ts[i := t'])"
  shows "thread_fine s t"
  using assms set_update_subset_insert[of ts i t'] by blast

lemma set_thread_simps [simp]:
  "mm_objs (set_thread i t s) = mm_objs s" "mm_live (set_thread i t s) = mm_live s"
  "mm_threads (set_thread i t s) = (mm_threads s)[i := t]" "mm_queue (set_thread i t s) = mm_queue s"
  "mm_user (set_thread i t s) = mm_user s" "mm_replaced (set_thread i t s) = mm_replaced s"
  "mm_threadsStop (set_thread i t s) = mm_threadsStop s" "mm_gcEnded (set_thread i t s) = mm_gcEnded s"
  "mm_fault (set_thread i t s) = mm_fault s"
  by (simp_all add: set_thread_def)

lemma thread_not_ended:
  assumes "mem_inv s" and "i < length (mm_threads s)" and "\<not> mt_ended (mm_threads s ! i)"
  shows "\<not> mm_gcEnded s"
  using mem_invD(6)[OF assms(1)] assms(2,3) nth_mem by blast

lemma busy_not_ended:
  assumes "mem_inv s" and "i < length (mm_threads s)" and "mt_hand (mm_threads s ! i) \<noteq> Idle"
  shows "\<not> mt_ended (mm_threads s ! i)"
  using mem_invD(5)[OF assms(1) nth_mem[OF assms(2)]] assms(3) by (auto simp: thread_fine_def)

text \<open>A thread whose table stays as it is.\<close>

lemma same_table_inv:
  assumes "mem_inv s" and "i < length (mm_threads s)" and "mt_table t = mt_table (mm_threads s ! i)"
    and "thread_fine s' t" and "mm_threads s' = (mm_threads s)[i := t]"
    and "mm_live s' = mm_live s" and "mm_queue s' = mm_queue s" and "mm_user s' = mm_user s"
    and "mm_replaced s' = mm_replaced s" and "mm_fault s' = mm_fault s" and "mm_gcEnded s' = mm_gcEnded s"
    and "length (mm_objs s') = length (mm_objs s)" and "\<And>b. eo_key (mm_objs s' ! b) = eo_key (mm_objs s ! b)"
    and "mm_gcEnded s \<Longrightarrow> mt_ended t"
  shows "mem_inv s'"
proof (rule mem_invI)
  have "mset (table_bufs (mm_threads s')) = mset (table_bufs (mm_threads s))"
    using mset_table_bufs[OF assms(2), of t] assms(3,5) by simp
  then show "mset (owners s') = mset_set (mm_live s')"
    using mem_invD(2)[OF assms(1)] assms(6-9) by (simp add: owners_def)
  show "thread_fine s' u" if "u \<in> set (mm_threads s')" for u
  proof (rule thread_fine_update[OF _ assms(4)])
    show "u \<in> set ((mm_threads s)[i := t])" using that assms(5) by simp
    show "thread_fine s' v" if "v \<in> set (mm_threads s)" for v
      using thread_fine_cong[OF mem_invD(5)[OF assms(1) that]] assms(13) by simp
  qed
  show "\<forall>u\<in>set (mm_threads s'). mt_ended u \<and> mt_table u = []" if "mm_gcEnded s'"
  proof -
    have "\<forall>u\<in>set (mm_threads s). mt_ended u \<and> mt_table u = []" using mem_invD(6)[OF assms(1)] that assms(11) by simp
    then show ?thesis
      using assms(2,3,5,11,14) that set_update_subset_insert[of "mm_threads s" i t] by auto
  qed
qed (use mem_invD[OF assms(1)] assms(6,10,12) in simp_all)

lemma mem_locate_inv:
  assumes inv: "mem_inv s" and i: "i < length (mm_threads s)" and e: "\<not> mt_ended (mm_threads s ! i)"
  shows "mem_inv (mem_locate i key off bytes len now s)"
proof (cases "if off = 0 then None else map_of (mt_table (mm_threads s ! i)) key")
  case (Some b)
  let ?t = "mm_threads s ! i"
  have "b \<in> snd ` set (mt_table ?t)" using Some by (force split: if_splits dest: map_of_SomeD)
  moreover have "thread_fine s ?t" using mem_invD(5)[OF inv] i by simp
  ultimately have "thread_fine s (?t\<lparr>mt_hand := Copying b len\<rparr>)" using e by (auto simp: thread_fine_def in_hand_def)
  then show ?thesis
    unfolding mem_locate_def Let_def Some option.case
    by (intro same_table_inv[OF inv i, of "?t\<lparr>mt_hand := Copying b len\<rparr>"])
      (use thread_not_ended[OF inv i e] in \<open>auto simp: thread_fine_def\<close>)
next
  case None
  let ?t = "mm_threads s ! i" and ?n = "length (mm_objs s)"
  let ?ob = "\<lparr>eo_key = key, eo_first = now, eo_bytes = bytes, eo_cur = 0\<rparr>"
  let ?t' = "?t\<lparr>mt_table := AList.update key ?n (mt_table ?t), mt_hand := Copying ?n len\<rparr>"
  let ?old = "case map_of (mt_table ?t) key of None \<Rightarrow> [] | Some b' \<Rightarrow> [b']"
  let ?s = "mem_locate i key off bytes len now s"
  have s': "?s = set_thread i ?t' (s\<lparr>mm_objs := mm_objs s @ [?ob], mm_live := insert ?n (mm_live s),
      mm_replaced := mm_replaced s @ ?old\<rparr>)"
    unfolding mem_locate_def Let_def None option.case by simp
  have new: "?n \<notin> mm_live s" using mem_invD(4)[OF inv] by blast
  have fine: "thread_fine s ?t" using mem_invD(5)[OF inv] i by simp
  have keep: "eo_key ((mm_objs s @ [?ob]) ! b) = eo_key (mm_objs s ! b)" if "b \<in> mm_live s" for b
    using mem_invD(4)[OF inv that] by (simp add: nth_append)
  show ?thesis
  proof (rule mem_invI)
    have "mset (table_bufs ((mm_threads s)[i := ?t'])) + mset ?old = add_mset ?n (mset (table_bufs (mm_threads s)))"
    proof (cases "map_of (mt_table ?t) key")
      case None
      then show ?thesis using mset_table_bufs[OF i, of ?t'] mset_update_new[OF None, of ?n] by simp
    next
      case (Some b')
      have "mset (table_bufs ((mm_threads s)[i := ?t'])) + mset (map snd (mt_table ?t)) + {#b'#} =
          mset (table_bufs (mm_threads s)) + add_mset ?n (mset (map snd (mt_table ?t)))"
        using mset_table_bufs[OF i, of ?t'] mset_update_old[OF Some, of ?n] by simp
      then show ?thesis using Some by simp
    qed
    then have "mset (owners ?s) = add_mset ?n (mset (owners s))"
      unfolding s' owners_def by (simp add: ac_simps)
    then show "mset (owners ?s) = mset_set (mm_live ?s)"
      using mem_invD(2,3)[OF inv] new by (simp add: s')
    show "thread_fine ?s u" if "u \<in> set (mm_threads ?s)" for u
    proof (rule thread_fine_update[where ts = "mm_threads s" and i = i and t' = ?t'])
      show "u \<in> set ((mm_threads s)[i := ?t'])" using that by (simp add: s')
      show "thread_fine ?s v" if "v \<in> set (mm_threads s)" for v
        by (rule thread_fine_cong[OF mem_invD(5)[OF inv that]]) (use keep table_live[OF inv that] in \<open>simp add: s'\<close>)
      have "eo_key ((mm_objs s @ [?ob]) ! b) = k" if "(k, b) \<in> set (AList.update key ?n (mt_table ?t))" for k b
        using set_update_cases(1)[OF that] fine keep table_live[OF inv nth_mem[OF i]]
        by (force simp: thread_fine_def)
      moreover have "?n \<in> snd ` set (AList.update key ?n (mt_table ?t))"
        using set_update_cases(2)[of key ?n "mt_table ?t"] by force
      ultimately show "thread_fine ?s ?t'"
        using fine e by (auto simp: thread_fine_def s' in_hand_def distinct_update)
    qed
    show "b < length (mm_objs ?s)" if "b \<in> mm_live ?s" for b
      using that mem_invD(4)[OF inv] by (fastforce simp: s')
  qed (use mem_invD(1,3)[OF inv] thread_not_ended[OF inv i e] in \<open>simp_all add: s'\<close>)
qed

lemma hand_live:
  assumes "mem_inv s" and "i < length (mm_threads s)" and "in_hand (mm_threads s ! i) b"
  shows "b \<in> mm_live s" and "(eo_key (mm_objs s ! b), b) \<in> set (mt_table (mm_threads s ! i))"
proof -
  have f: "thread_fine s (mm_threads s ! i)" using mem_invD(5)[OF assms(1)] assms(2) by simp
  then have "b \<in> snd ` set (mt_table (mm_threads s ! i))" using assms(3) unfolding thread_fine_def by blast
  then obtain k where k: "(k, b) \<in> set (mt_table (mm_threads s ! i))" by auto
  then show "b \<in> mm_live s" using table_live[OF assms(1) nth_mem[OF assms(2)]] by force
  show "(eo_key (mm_objs s ! b), b) \<in> set (mt_table (mm_threads s ! i))"
    using f k by (auto simp: thread_fine_def)
qed

lemma mem_copy_inv:
  assumes inv: "mem_inv s" and i: "i < length (mm_threads s)" and h: "mt_hand (mm_threads s ! i) = Copying b len"
  shows "mem_inv (mem_copy i b len s)"
proof -
  let ?t = "mm_threads s ! i"
  have hand: "in_hand ?t b" using h by (simp add: in_hand_def)
  have live: "b \<in> mm_live s" by (rule hand_live(1)[OF inv i hand])
  have keys: "eo_key ((mm_objs s)[b := (mm_objs s ! b)\<lparr>eo_cur := n\<rparr>] ! b') = eo_key (mm_objs s ! b')" for b' n
    by (cases "b < length (mm_objs s)") (auto simp: nth_list_update list_update_beyond)
  have fine: "thread_fine s ?t" using mem_invD(5)[OF inv] i by simp
  have e: "\<not> mt_ended ?t" using busy_not_ended[OF inv i] h by simp
  show ?thesis
    unfolding mem_copy_def mem_write_def Let_def if_P[OF live]
    by (rule same_table_inv[OF inv i, of "?t\<lparr>mt_hand := Copied b\<rparr>"])
      (use fine h e thread_not_ended[OF inv i e] in \<open>auto simp: keys thread_fine_def in_hand_def\<close>)
qed

lemma mem_finish_inv:
  assumes inv: "mem_inv s" and i: "i < length (mm_threads s)" and h: "mt_hand (mm_threads s ! i) = Copied b"
  shows "mem_inv (mem_finish i b alloc_ok s)"
proof -
  let ?t = "mm_threads s ! i" and ?ob = "mm_objs s ! b"
  have hand: "in_hand ?t b" using h by (simp add: in_hand_def)
  note live = hand_live[OF inv i hand]
  have fine: "thread_fine s ?t" using mem_invD(5)[OF inv] i by simp
  have e: "\<not> mt_ended ?t" using busy_not_ended[OF inv i] h by simp
  show ?thesis
  proof (cases "eo_cur ?ob = eo_bytes ?ob")
    case False
    show ?thesis
      unfolding mem_finish_def Let_def if_not_P[OF False]
      by (rule same_table_inv[OF inv i, of "?t\<lparr>mt_hand := Idle\<rparr>"])
        (use fine e thread_not_ended[OF inv i e] in \<open>auto simp: thread_fine_def in_hand_def\<close>)
  next
    case True
    let ?t' = "?t\<lparr>mt_table := AList.delete (eo_key ?ob) (mt_table ?t), mt_hand := Idle\<rparr>"
    let ?s = "mem_finish i b alloc_ok s"
    have s': "?s = (if alloc_ok then (set_thread i ?t' s)\<lparr>mm_queue := mm_queue s @ [b]\<rparr>
        else (set_thread i ?t' s)\<lparr>mm_live := mm_live s - {b}\<rparr>)"
      using live(1) by (simp add: mem_finish_def True Let_def)
    have "distinct (map fst (mt_table ?t))" using fine by (simp add: thread_fine_def)
    then have "map_of (mt_table ?t) (eo_key ?ob) = Some b" "distinct (map fst (mt_table ?t))" using live(2) by simp_all
    then have "mset (table_bufs ((mm_threads s)[i := ?t'])) + {#b#} = mset (table_bufs (mm_threads s))"
      using mset_table_bufs[OF i, of ?t'] mset_delete[of "mt_table ?t" "eo_key ?ob" b]
      by simp (metis (no_types, lifting) add_mset_add_single union_mset_add_mset_right add_right_cancel union_mset_add_mset_left)
    then have tb: "mset (table_bufs (mm_threads s)) = add_mset b (mset (table_bufs ((mm_threads s)[i := ?t'])))" by simp
    show ?thesis
    proof (rule mem_invI)
      show "mset (owners ?s) = mset_set (mm_live ?s)"
        using mem_invD(3)[OF inv] live(1)
        by (simp add: s' owners_def tb mset_set_Diff mem_invD(2)[OF inv, symmetric])
      have t': "thread_fine s ?t'"
        using fine e distinct_delete[of "mt_table ?t" "eo_key ?ob"] set_delete_subset[of "eo_key ?ob" "mt_table ?t"]
        by (auto simp: thread_fine_def in_hand_def)
      have obs: "mm_objs ?s = mm_objs s" by (simp add: s')
      show "thread_fine ?s u" if "u \<in> set (mm_threads ?s)" for u
      proof (rule thread_fine_cong[where s = s])
        show "thread_fine s u"
          using that thread_fine_update[OF mem_invD(5)[OF inv] t'] by (auto simp: s' split: if_splits)
      qed (simp add: obs)
    qed (use mem_invD(1,3,4)[OF inv] thread_not_ended[OF inv i e] in \<open>auto simp: s' split: if_splits\<close>)
  qed
qed

lemma mset_set_minus:
  assumes "finite A" and "distinct xs" and "set xs \<subseteq> A"
  shows "mset_set (A - set xs) + mset xs = mset_set A"
  using assms mset_set_Diff[of A "set xs"] mset_set_set[OF assms(2)]
  by (metis subset_imp_msubset_mset_set subset_mset.diff_add finite_set)

lemma owners_distinct:
  assumes "mem_inv s"
  shows "distinct (owners s)" and "set (owners s) = mm_live s"
  using assms by (simp_all add: mem_inv_def)

lemma table_bufs_distinct: "distinct (table_bufs ts) \<Longrightarrow> t \<in> set ts \<Longrightarrow> distinct (map snd (mt_table t))"
  by (induction ts) (auto simp: table_bufs_def)

lemma mem_gc_inv:
  assumes inv: "mem_inv s" and i: "i < length (mm_threads s)" and e: "\<not> mm_gcEnded s"
    and timely: "\<forall>(k, b)\<in>set (mt_table (mm_threads s ! i)). obj_expired now tmo (mm_objs s ! b) \<longrightarrow>
      \<not> in_hand (mm_threads s ! i) b"
  shows "mem_inv (mem_gc i now tmo s)"
proof -
  let ?t = "mm_threads s ! i" and ?old = "\<lambda>(k, b). obj_expired now tmo (mm_objs s ! b)"
  let ?t' = "?t\<lparr>mt_table := filter (\<lambda>e. \<not> ?old e) (mt_table ?t)\<rparr>" and ?s = "mem_gc i now tmo s"
  let ?bs = "map snd (filter ?old (mt_table ?t))"
  have fine: "thread_fine s ?t" using mem_invD(5)[OF inv] i by simp
  have "distinct (map snd (mt_table ?t))"
    using table_bufs_distinct[of "mm_threads s" ?t] owners_distinct(1)[OF inv] i by (simp add: owners_def)
  then have d: "distinct ?bs" by (rule distinct_map_filter)
  have sub: "set ?bs \<subseteq> mm_live s" using table_live[OF inv nth_mem[OF i]] by auto
  have s': "?s = (set_thread i ?t' s)\<lparr>mm_live := mm_live s - set ?bs\<rparr>"
    unfolding mem_gc_def Let_def fold_mem_free[OF d sub] by (simp add: set_thread_def)
  have "mset (table_bufs ((mm_threads s)[i := ?t'])) + mset ?bs = mset (table_bufs (mm_threads s))"
    using mset_table_bufs[OF i, of ?t'] mset_partition[of ?old "mt_table ?t", symmetric] by (simp add: ac_simps)
  then have "mset (owners ?s) + mset ?bs = mset (owners s)" unfolding s' owners_def by (simp add: ac_simps)
  then have "mset (owners ?s) + mset ?bs = mset_set (mm_live s - set ?bs) + mset ?bs"
    using mset_set_minus[OF mem_invD(3)[OF inv] d sub] mem_invD(2)[OF inv] by presburger
  moreover have "mm_live ?s = mm_live s - set ?bs" by (simp add: s')
  ultimately have own: "mset (owners ?s) = mset_set (mm_live ?s)" by simp
  have "\<forall>b. in_hand ?t b \<longrightarrow> b \<in> snd ` set (filter (\<lambda>e. \<not> ?old e) (mt_table ?t))"
    using hand_live(2)[OF inv i] timely by force
  then have t': "thread_fine s ?t'"
    using fine by (auto simp: thread_fine_def in_hand_def distinct_map_filter)
  show ?thesis
  proof (rule mem_invI)
    show "thread_fine ?s u" if "u \<in> set (mm_threads ?s)" for u
    proof (rule thread_fine_cong[where s = s])
      show "thread_fine s u" using that thread_fine_update[OF mem_invD(5)[OF inv] t'] by (simp add: s')
    qed (simp add: s')
  qed (use own mem_invD(1,3,4)[OF inv] e in \<open>simp_all add: s'\<close>)
qed

lemma mem_gc_drain_inv:
  assumes inv: "mem_inv s" and ended: "\<forall>t\<in>set (mm_threads s). mt_ended t"
  shows "mem_inv (mem_gc_drain s)"
proof -
  let ?bs = "table_bufs (mm_threads s)" and ?s = "mem_gc_drain s"
  have d: "distinct ?bs" and sub: "set ?bs \<subseteq> mm_live s"
    using owners_distinct[OF inv] by (auto simp: owners_def)
  have s': "?s = s\<lparr>mm_live := mm_live s - set ?bs, mm_threads := map (\<lambda>t. t\<lparr>mt_table := []\<rparr>) (mm_threads s), mm_gcEnded := True\<rparr>"
    using fold_mem_free[OF d sub] by (simp add: mem_gc_drain_def table_bufs_def)
  have "mset (owners s) = mset (owners ?s) + mset ?bs" by (simp add: s' owners_def table_bufs_def comp_def ac_simps)
  then have own: "mset (owners ?s) = mset_set (mm_live ?s)"
    using mset_set_minus[OF mem_invD(3)[OF inv] d sub] mem_invD(2)[OF inv] by (simp add: s')
  have hands: "mt_hand t = Idle" if "t \<in> set (mm_threads s)" for t
    using mem_invD(5)[OF inv that] ended that by (simp add: thread_fine_def)
  show ?thesis
    by (rule mem_invI) (use own mem_invD(1,3,4)[OF inv] ended hands in \<open>auto simp: s' thread_fine_def in_hand_def\<close>)
qed

lemma keep_threads_inv:
  assumes inv: "mem_inv s" and "mm_threads s' = mm_threads s" and "mm_objs s' = mm_objs s" and "mm_gcEnded s' = mm_gcEnded s"
    and "mm_fault s' = mm_fault s" and "distinct xs" and "set xs \<subseteq> mm_live s" and "mm_live s' = mm_live s - set xs"
    and "mset (owners s) = mset (owners s') + mset xs"
  shows "mem_inv s'"
proof (rule mem_invI)
  show "mset (owners s') = mset_set (mm_live s')"
    using mset_set_minus[OF mem_invD(3)[OF inv] assms(6,7)] mem_invD(2)[OF inv] assms(8,9)
    by (metis add_right_cancel)
  show "thread_fine s' t" if "t \<in> set (mm_threads s')" for t
    using thread_fine_cong[OF mem_invD(5)[OF inv], of t s'] that assms(2,3) by simp
qed (use mem_invD(1,3,4,6)[OF inv] assms(2-5,8) in \<open>simp_all\<close>)

lemma mem_step_inv:
  assumes "mem_step tmo True s s'" and inv: "mem_inv s"
  shows "mem_inv s'"
  using assms(1)
proof cases
  case (ms_locate i key off bytes len now)
  then show ?thesis using mem_locate_inv[OF inv] by simp
next
  case (ms_copy i b len)
  then show ?thesis using mem_copy_inv[OF inv] by simp
next
  case (ms_finish i b alloc_ok)
  then show ?thesis using mem_finish_inv[OF inv] by simp
next
  case (ms_gc i now)
  then show ?thesis using mem_gc_inv[OF inv] by simp
next
  case (ms_get b q)
  then show ?thesis by (intro keep_threads_inv[OF inv, of s' "[]"]) (simp_all add: owners_def)
next
  case (ms_user b)
  have b: "b \<in> mm_live s" using ms_user(2) owners_distinct(2)[OF inv] by (auto simp: owners_def)
  then have "s' = s\<lparr>mm_user := remove1 b (mm_user s), mm_live := mm_live s - {b}\<rparr>" using ms_user(1) by simp
  then show ?thesis using b ms_user(2)
    by (intro keep_threads_inv[OF inv, of s' "[b]"]) (simp_all add: owners_def)
next
  case ms_stop
  then show ?thesis by (intro keep_threads_inv[OF inv, of s' "[]"]) (simp_all add: owners_def)
next
  case (ms_end i)
  let ?t = "(mm_threads s ! i)\<lparr>mt_ended := True\<rparr>"
  have "thread_fine s ?t" using mem_invD(5)[OF inv nth_mem[OF ms_end(2)]] ms_end(4) by (auto simp: thread_fine_def in_hand_def)
  then have "thread_fine s' ?t" using thread_fine_cong ms_end(1) by simp
  then show ?thesis by (rule same_table_inv[OF inv ms_end(2), rotated]) (simp_all add: ms_end(1))
next
  case ms_gc_drain
  then show ?thesis using mem_gc_drain_inv[OF inv] by simp
next
  case ms_queue_drain
  have d: "distinct (mm_queue s)" and sub: "set (mm_queue s) \<subseteq> mm_live s"
    using owners_distinct[OF inv] by (auto simp: owners_def)
  have "s' = s\<lparr>mm_queue := [], mm_live := mm_live s - set (mm_queue s)\<rparr>"
    using fold_mem_free[OF d, of "s\<lparr>mm_queue := []\<rparr>"] sub ms_queue_drain(1) by (simp add: mem_queue_drain_def)
  then show ?thesis using d sub
    by (intro keep_threads_inv[OF inv, of s' "mm_queue s"]) (simp_all add: owners_def ac_simps)
qed

lemma mem_reachable_inv: "(mem_step tmo True)\<^sup>*\<^sup>* (mem_initial n) s \<Longrightarrow> mem_inv s"
  by (induction rule: rtranclp_induct) (auto intro: mem_initial_inv mem_step_inv)

section \<open>The race with the collector\<close>

text \<open>
  The second fragment of an event has been looked up when the collector finds the event too old: the
  buffer is freed before the fragment is copied into it.
\<close>

lemma collector_race:
  assumes "0 < n"
  shows "\<exists>s. (mem_step tmo False)\<^sup>*\<^sup>* (mem_initial n) s \<and> mm_fault s"
proof -
  obtain m where n: "n = Suc m" using assms gr0_conv_Suc by blast
  let ?k = "(7, 5) :: event_key" and ?T = "(\<bar>tmo\<bar> + 1) * 1000000" and ?rest = "replicate m \<lparr>mt_table = [], mt_hand = Idle, mt_ended = False\<rparr>"
  let ?S = "\<lambda>cur live tab hnd fl. \<lparr>mm_objs = [\<lparr>eo_key = ?k, eo_first = 0, eo_bytes = 2, eo_cur = cur\<rparr>], mm_live = live,
     mm_threads = \<lparr>mt_table = tab, mt_hand = hnd, mt_ended = False\<rparr> # ?rest, mm_queue = [], mm_user = [], mm_replaced = [],
     mm_threadsStop = False, mm_gcEnded = False, mm_fault = fl\<rparr>"
  let ?s1 = "?S 0 {0} [(?k, 0)] (Copying 0 1) False" and ?s2 = "?S 1 {0} [(?k, 0)] (Copied 0) False"
    and ?s3 = "?S 1 {0} [(?k, 0)] Idle False" and ?s4 = "?S 1 {0} [(?k, 0)] (Copying 0 1) False"
    and ?s5 = "?S 1 {} [] (Copying 0 1) False" and ?s6 = "?S 2 {} [] (Copied 0) True"
  have "mem_locate 0 ?k 0 2 1 0 (mem_initial n) = ?s1"
    by (simp add: mem_locate_def mem_initial_def n set_thread_def Let_def)
  then have 1: "mem_step tmo False (mem_initial n) ?s1"
    using ms_locate[of 0 "mem_initial n" tmo False ?k 0 2 1 0] by (simp add: mem_initial_def n)
  have "mem_copy 0 0 1 ?s1 = ?s2" by (simp add: mem_copy_def mem_write_def set_thread_def Let_def)
  then have 2: "mem_step tmo False ?s1 ?s2" using ms_copy[of 0 ?s1 0 1 tmo False] by simp
  have "mem_finish 0 0 True ?s2 = ?s3" by (simp add: mem_finish_def set_thread_def Let_def)
  then have 3: "mem_step tmo False ?s2 ?s3" using ms_finish[of 0 ?s2 0 tmo False True] by simp
  have "mem_locate 0 ?k 1 2 1 ?T ?s3 = ?s4" by (simp add: mem_locate_def set_thread_def Let_def)
  then have 4: "mem_step tmo False ?s3 ?s4" using ms_locate[of 0 ?s3 tmo False ?k 1 2 1 ?T] by simp
  have "obj_expired ?T tmo \<lparr>eo_key = ?k, eo_first = 0, eo_bytes = 2, eo_cur = 1\<rparr>"
    by (simp add: obj_expired_def cpp_div_def abs_if)
  then have "mem_gc 0 ?T tmo ?s4 = ?s5" by (simp add: mem_gc_def mem_free_def set_thread_def Let_def)
  then have 5: "mem_step tmo False ?s4 ?s5" using ms_gc[of 0 ?s4 False ?T tmo] by simp
  have "mem_copy 0 0 1 ?s5 = ?s6" by (simp add: mem_copy_def mem_write_def set_thread_def Let_def)
  then have 6: "mem_step tmo False ?s5 ?s6" using ms_copy[of 0 ?s5 0 1 tmo False] by simp
  have "(mem_step tmo False)\<^sup>*\<^sup>* (mem_initial n) ?s6"
    using 1 2 3 4 5 6 by (meson converse_rtranclp_into_rtranclp r_into_rtranclp)
  then show ?thesis by (intro exI[of _ ?s6]) simp
qed

text \<open>After the stop, what is left is what the user has and what was replaced.\<close>

lemma left_after_stop:
  assumes "mem_inv s" and "mm_gcEnded s" and "mm_queue s = []"
  shows "mm_live s = set (mm_user s) \<union> set (mm_replaced s)"
proof -
  have "table_bufs (mm_threads s) = []" using mem_invD(6)[OF assms(1,2)] by (simp add: table_bufs_def)
  then have "owners s = mm_user s @ mm_replaced s" using assms(3) by (simp add: owners_def)
  then show ?thesis using owners_distinct(2)[OF assms(1)] by (metis set_append)
qed

section \<open>The three parts together are one datagram\<close>

text \<open>
  Without another step in between, the three parts do to the table what \<open>recv_one\<close> does: the tables are the
  same when items are seen as their key, first arrival and byte counts.
\<close>

definition obj_of :: "reas_item \<Rightarrow> event_obj" where
  "obj_of it = \<lparr>eo_key = item_key it, eo_first = ri_firstSegment it, eo_bytes = ri_bytes it, eo_cur = ri_curBytes it\<rparr>"

definition map_vals :: "('v \<Rightarrow> 'x) \<Rightarrow> ('k \<times> 'v) list \<Rightarrow> ('k \<times> 'x) list" where
  "map_vals f xs = map (\<lambda>(k, v). (k, f v)) xs"

definition table_view :: "nat \<Rightarrow> mem_state \<Rightarrow> (event_key \<times> event_obj) list" where
  "table_view i s = map_vals (\<lambda>b. mm_objs s ! b) (mt_table (mm_threads s ! i))"

definition table_after :: "event_key \<Rightarrow> nat \<Rightarrow> nat \<Rightarrow> nat \<Rightarrow> int \<Rightarrow> (event_key \<times> event_obj) list \<Rightarrow>
    (event_key \<times> event_obj) list" where
  "table_after key off bytes len now tab =
     (let (ob, tab1) = (case (if off = 0 then None else map_of tab key) of
            Some ob \<Rightarrow> (ob, tab)
          | None \<Rightarrow> (let ob = \<lparr>eo_key = key, eo_first = now, eo_bytes = bytes, eo_cur = 0\<rparr> in (ob, AList.update key ob tab)));
          ob' = ob\<lparr>eo_cur := eo_cur ob + len\<rparr>; tab2 = AList.update key ob' tab1
      in if eo_cur ob' = eo_bytes ob' then AList.delete (eo_key ob') tab2 else tab2)"

lemma map_vals_simps:
  "map_of (map_vals f xs) k = map_option f (map_of xs k)"
  "AList.update k (f v) (map_vals f xs) = map_vals f (AList.update k v xs)"
  "AList.delete k (map_vals f xs) = map_vals f (AList.delete k xs)"
  by (induction xs) (auto simp: map_vals_def)

lemma update_twice: "AList.update k v (AList.update k w xs) = AList.update k v xs"
  by (induction xs) auto

lemma map_vals_cong: "(\<And>v. v \<in> snd ` set xs \<Longrightarrow> f v = g v) \<Longrightarrow> map_vals f xs = map_vals g xs"
  by (force simp: map_vals_def)

lemma map_vals_one:
  assumes "distinct (map fst xs)" and "distinct (map snd xs)" and "(k, b) \<in> set xs" and "\<And>b'. b' \<noteq> b \<Longrightarrow> g b' = f b'"
  shows "map_vals g xs = AList.update k (g b) (map_vals f xs)"
  using assms(1-3)
proof (induction xs)
  case Nil
  then show ?case by simp
next
  case (Cons x xs)
  obtain k' b' where x: "x = (k', b')" by fastforce
  show ?case
  proof (cases "k' = k")
    case True
    then have "b' = b" using Cons.prems x by force
    have "b \<notin> snd ` set xs" using Cons.prems(2) x \<open>b' = b\<close> by simp
    then have "map_vals g xs = map_vals f xs" using assms(4) by (metis map_vals_cong)
    then show ?thesis using x True \<open>b' = b\<close> by (simp add: map_vals_def)
  next
    case False
    then have kb: "(k, b) \<in> set xs" using Cons.prems(3) x by simp
    then have "b' \<noteq> b" using Cons.prems(2) x by force
    then show ?thesis using x False Cons.IH kb Cons.prems(1,2) assms(4) by (simp add: map_vals_def)
  qed
qed

lemma finish_table:
  "rt_eventsInProgress (fst (finish_item alloc_ok it prog (t, g))) =
     (if ri_curBytes it = ri_bytes it then AList.delete (item_key it) prog else prog)"
  by (auto simp: finish_item_def item_key_def Let_def split: prod.splits)

lemma recv_one_table:
  assumes "recv_one h lb x (t, g) = Some (t', g')" and "in_outcome x = RecvData d"
    and "start = (if lb then sizeof_LBHdr else 0)" and "rehdr = re_cast h (drop start (recv_buffer x d))" and "re_validate rehdr"
  shows "map_vals obj_of (rt_eventsInProgress t') =
    table_after (re_get_eventNum h rehdr, re_get_dataId h rehdr) (unat (re_get_bufferOffset h rehdr))
      (unat (re_get_bufferLength h rehdr)) (length (take RECV_BUFFER_SIZE d) - (start + sizeof_REHdr)) (in_now x)
      (map_vals obj_of (rt_eventsInProgress t))"
proof -
  let ?key = "(re_get_eventNum h rehdr, re_get_dataId h rehdr)" and ?n = "length (take RECV_BUFFER_SIZE d) - (start + sizeof_REHdr)"
  obtain item prog where loc: "locate_item h (in_now x) rehdr (rt_eventsInProgress t) = (item, prog)" by fastforce
  let ?nb = "int (length (take RECV_BUFFER_SIZE d)) - int (start + sizeof_REHdr)"
  let ?upd = "\<lambda>ev n. item\<lparr>ri_event := ev, ri_numFragments := ri_numFragments item + 1, ri_curBytes := ri_curBytes item + n\<rparr>"
  obtain ev g1 where fin: "finish_item (in_alloc x) (?upd ev (nat ?nb)) (AList.update ?key (?upd ev (nat ?nb)) prog) (t, g1) = (t', g')"
    using assms(1) unfolding recv_one_def prod.case assms(2) recv_outcome.case Let_def assms(3)[symmetric] assms(4)[symmetric]
    by (simp only: loc assms(5) prod.case if_False not_True_eq_False option.inject option.distinct split: if_splits option.splits)
  have nb: "nat ?nb = ?n" by simp
  have t': "t' = fst (finish_item (in_alloc x) (?upd ev ?n) (AList.update ?key (?upd ev ?n) prog) (t, g1))"
    using fin unfolding nb by simp
  let ?it = "item\<lparr>ri_event := ev, ri_numFragments := ri_numFragments item + 1, ri_curBytes := ri_curBytes item + ?n\<rparr>"
  have tab: "rt_eventsInProgress t' = (if ri_curBytes ?it = ri_bytes ?it
      then AList.delete (item_key ?it) (AList.update ?key ?it prog) else AList.update ?key ?it prog)"
    unfolding t' finish_table ..
  let ?fresh = "\<lparr>eo_key = ?key, eo_first = in_now x, eo_bytes = unat (re_get_bufferLength h rehdr), eo_cur = 0\<rparr>"
  have fr: "obj_of (initFromHeader h (in_now x) rehdr) = ?fresh" by (simp add: obj_of_def initFromHeader_def item_key_def)
  have it: "(obj_of item)\<lparr>eo_cur := eo_cur (obj_of item) + ?n\<rparr> = obj_of ?it" by (simp add: obj_of_def item_key_def)
  have found: "(case (if unat (re_get_bufferOffset h rehdr) = 0 then None else map_of (map_vals obj_of (rt_eventsInProgress t)) ?key) of
      Some ob \<Rightarrow> (ob, map_vals obj_of (rt_eventsInProgress t))
    | None \<Rightarrow> (?fresh, AList.update ?key ?fresh (map_vals obj_of (rt_eventsInProgress t)))) =
      (obj_of item, map_vals obj_of prog)"
    using loc unfolding locate_item_def Let_def fr[symmetric] map_vals_simps
    by (auto simp: unat_eq_zero split: option.splits if_splits)
  have up: "map_vals obj_of (AList.update ?key ?it prog) = AList.update ?key (obj_of ?it) (map_vals obj_of prog)"
    by (rule map_vals_simps(2)[symmetric])
  have del: "map_vals obj_of (AList.delete (item_key ?it) ps) = AList.delete (eo_key (obj_of ?it)) (map_vals obj_of ps)" for ps
    using map_vals_simps(3)[of "item_key ?it" obj_of ps] by (simp add: obj_of_def)
  have full: "ri_curBytes ?it = ri_bytes ?it \<longleftrightarrow> eo_cur (obj_of ?it) = eo_bytes (obj_of ?it)" by (simp add: obj_of_def)
  show ?thesis
    unfolding table_after_def found prod.case Let_def it tab full
    by (cases "eo_cur (obj_of ?it) = eo_bytes (obj_of ?it)") (simp_all only: if_True if_False del up refl)
qed

lemma mem_copy_finish_table:
  assumes inv: "mem_inv s" and i: "i < length (mm_threads s)" and h: "mt_hand (mm_threads s ! i) = Copying b len"
    and ob: "ob = (mm_objs s ! b)\<lparr>eo_cur := eo_cur (mm_objs s ! b) + len\<rparr>"
  shows "table_view i (mem_finish i b alloc_ok (mem_copy i b len s)) =
    (let tab = AList.update (eo_key ob) ob (table_view i s)
     in if eo_cur ob = eo_bytes ob then AList.delete (eo_key ob) tab else tab)"
proof -
  let ?t = "mm_threads s ! i" and ?objs = "(mm_objs s)[b := ob]"
  have hand: "in_hand ?t b" using h by (simp add: in_hand_def)
  note live = hand_live[OF inv i hand]
  have len: "b < length (mm_objs s)" by (rule mem_invD(4)[OF inv live(1)])
  have d: "distinct (map fst (mt_table ?t))" using mem_invD(5)[OF inv nth_mem[OF i]] by (simp add: thread_fine_def)
  have d': "distinct (map snd (mt_table ?t))"
    using table_bufs_distinct[of "mm_threads s" ?t] owners_distinct(1)[OF inv] i by (simp add: owners_def)
  have "map_vals (\<lambda>b. ?objs ! b) (mt_table ?t) = AList.update (eo_key ob) (?objs ! b) (table_view i s)"
    unfolding table_view_def by (rule map_vals_one[OF d d']) (use live(2) in \<open>simp_all add: ob\<close>)
  then have tab: "map_vals (\<lambda>b. ?objs ! b) (mt_table ?t) = AList.update (eo_key ob) ob (table_view i s)"
    using len by simp
  have "mm_objs (mem_finish i b alloc_ok (mem_copy i b len s)) = ?objs"
    by (simp add: mem_finish_def mem_copy_def mem_write_def mem_free_def ob Let_def)
  moreover have "mt_table (mm_threads (mem_finish i b alloc_ok (mem_copy i b len s)) ! i) =
      (if eo_cur ob = eo_bytes ob then AList.delete (eo_key ob) (mt_table ?t) else mt_table ?t)"
    using i len by (simp add: mem_finish_def mem_copy_def mem_write_def mem_free_def ob Let_def)
  ultimately show ?thesis unfolding table_view_def[of i "mem_finish _ _ _ _"] Let_def tab[symmetric]
    by (simp add: map_vals_simps)
qed

lemma mem_parts_table:
  assumes inv: "mem_inv s" and i: "i < length (mm_threads s)" and e: "\<not> mt_ended (mm_threads s ! i)"
    and s1: "s1 = mem_locate i key off bytes len now s"
  shows "\<exists>b. mt_hand (mm_threads s1 ! i) = Copying b len \<and>
    table_view i (mem_finish i b alloc_ok (mem_copy i b len s1)) = table_after key off bytes len now (table_view i s)"
proof -
  let ?t = "mm_threads s ! i" and ?fresh = "\<lparr>eo_key = key, eo_first = now, eo_bytes = bytes, eo_cur = 0\<rparr>"
  have inv1: "mem_inv s1" unfolding s1 by (rule mem_locate_inv[OF inv i e])
  have i1: "i < length (mm_threads s1)" using i by (simp add: s1 mem_locate_def Let_def split: option.split)
  obtain b where b: "mt_hand (mm_threads s1 ! i) = Copying b len" and key: "eo_key (mm_objs s1 ! b) = key"
    and located: "(case (if off = 0 then None else map_of (table_view i s) key) of
        Some ob \<Rightarrow> (ob, table_view i s)
      | None \<Rightarrow> (let ob = ?fresh in (ob, AList.update key ob (table_view i s)))) = (mm_objs s1 ! b, table_view i s1)"
  proof (cases "if off = 0 then None else map_of (mt_table ?t) key")
    case (Some b)
    have "mm_objs s1 = mm_objs s" "mm_threads s1 = (mm_threads s)[i := ?t\<lparr>mt_hand := Copying b len\<rparr>]"
      unfolding s1 mem_locate_def Let_def Some option.case by simp_all
    moreover have "eo_key (mm_objs s ! b) = key"
      using Some mem_invD(5)[OF inv nth_mem[OF i]] by (force simp: thread_fine_def split: if_splits dest: map_of_SomeD)
    ultimately show ?thesis
      using i Some by (intro that[of b]) (auto simp: table_view_def map_vals_simps split: if_splits)
  next
    case None
    let ?n = "length (mm_objs s)"
    have o1: "mm_objs s1 = mm_objs s @ [?fresh]" and
      th: "mm_threads s1 = (mm_threads s)[i := ?t\<lparr>mt_table := AList.update key ?n (mt_table ?t), mt_hand := Copying ?n len\<rparr>]"
      unfolding s1 mem_locate_def Let_def None option.case by simp_all
    have "table_view i s1 = map_vals (\<lambda>b. mm_objs s1 ! b) (AList.update key ?n (mt_table ?t))"
      using i by (simp add: table_view_def th)
    also have "\<dots> = AList.update key (mm_objs s1 ! ?n) (map_vals (\<lambda>b. mm_objs s1 ! b) (mt_table ?t))"
      by (rule map_vals_simps(2)[symmetric])
    also have "map_vals (\<lambda>b. mm_objs s1 ! b) (mt_table ?t) = table_view i s"
      unfolding table_view_def
      by (rule map_vals_cong) (use mem_invD(4)[OF inv] table_live[OF inv nth_mem[OF i]] in \<open>simp add: o1 nth_append\<close>)
    finally have tv: "table_view i s1 = AList.update key ?fresh (table_view i s)" by (simp add: o1)
    have "(if off = 0 then None else map_of (table_view i s) key) = None"
      using None by (auto simp: table_view_def map_vals_simps split: if_splits)
    then show ?thesis using i by (intro that[of ?n]) (simp_all add: th tv o1 Let_def)
  qed
  show ?thesis
    using mem_copy_finish_table[OF inv1 i1 b refl, of alloc_ok] located b
    by (intro exI[of _ b]) (simp add: table_after_def key Let_def)
qed

lemma recv_one_in_parts:
  assumes "recv_one h lb x (t, g) = Some (t', g')" and "in_outcome x = RecvData d"
    and "start = (if lb then sizeof_LBHdr else 0)" and "rehdr = re_cast h (drop start (recv_buffer x d))" and "re_validate rehdr"
    and "mem_inv s" and "i < length (mm_threads s)" and "\<not> mt_ended (mm_threads s ! i)"
    and "table_view i s = map_vals obj_of (rt_eventsInProgress t)"
    and "s1 = mem_locate i (re_get_eventNum h rehdr, re_get_dataId h rehdr) (unat (re_get_bufferOffset h rehdr))
      (unat (re_get_bufferLength h rehdr)) (length (take RECV_BUFFER_SIZE d) - (start + sizeof_REHdr)) (in_now x) s"
  shows "\<exists>b len. mt_hand (mm_threads s1 ! i) = Copying b len \<and>
    table_view i (mem_finish i b alloc_ok (mem_copy i b len s1)) = map_vals obj_of (rt_eventsInProgress t')"
  using mem_parts_table[OF assms(6-8,10), of alloc_ok] recv_one_table[OF assms(1-5)] assms(9) by metis

text \<open>A scan of the collector does to the table what \<open>gc_thread\<close> does.\<close>

lemma mem_gc_view:
  assumes "i < length (mm_threads s)" and "table_view i s = map_vals obj_of (rt_eventsInProgress t)"
  shows "table_view i (mem_gc i now tmo s) = map_vals obj_of (rt_eventsInProgress (fst (gc_thread now tmo (t, g))))"
proof -
  have objs: "mm_objs (fold mem_free bs s) = mm_objs s" "mm_threads (fold mem_free bs s) = mm_threads s" for bs s
    by (induction bs arbitrary: s) (simp_all add: mem_free_def)
  have filt: "map_vals f (filter (\<lambda>e. P (f (snd e))) xs) = filter (P \<circ> snd) (map_vals f xs)"
    for f :: "'v \<Rightarrow> event_obj" and P and xs :: "(event_key \<times> 'v) list"
    by (induction xs) (auto simp: map_vals_def)
  have "table_view i (mem_gc i now tmo s) = filter ((\<lambda>ob. \<not> obj_expired now tmo ob) \<circ> snd) (table_view i s)"
    using assms(1) filt[of "\<lambda>b. mm_objs s ! b" "\<lambda>ob. \<not> obj_expired now tmo ob"]
    by (simp add: table_view_def mem_gc_def objs Let_def case_prod_unfold)
  also have "\<dots> = map_vals obj_of (filter (\<lambda>e. \<not> obj_expired now tmo (obj_of (snd e))) (rt_eventsInProgress t))"
    unfolding assms(2) by (rule filt[symmetric])
  also have "filter (\<lambda>e. \<not> obj_expired now tmo (obj_of (snd e))) (rt_eventsInProgress t) =
      rt_eventsInProgress (fst (gc_thread now tmo (t, g)))"
    by (auto simp: gc_thread_def obj_expired_def obj_of_def expired_def split: prod.splits dest: gc_scan_table)
  finally show ?thesis .
qed

end
