(* ===== verification/E2SAR_Entropy.thy ===== *)
theory E2SAR_Entropy
  imports E2SAR_SegmenterSetup
begin

text \<open>
  The test of the clock a segmenter makes when it is constructed, \<open>clockEntropyTest\<close> of
  \<^verbatim>\<open>include/e2sarUtil.hpp\<close>: how evenly the lowest 8 bits of its microsecond readings are spread.  Floating point
  numbers are reals without rounding; \<open>None\<close> is NaN, which \<^verbatim>\<open>0 * log(0)\<close> is and which every sum
  and product with it is.
\<close>

section \<open>The test\<close>

definition clock_bin :: "int \<Rightarrow> nat" where
  "clock_bin nowUsec = nat (nowUsec mod 256)"

definition clock_bins :: "int list \<Rightarrow> nat list" where
  "clock_bins readings = fold (\<lambda>t bins. bins[clock_bin t := bins ! clock_bin t + 1]) readings (replicate 256 0)"

definition prob_log_prob :: "nat \<Rightarrow> nat \<Rightarrow> real option" where
  "prob_log_prob totalTests n =
     (if totalTests = 0 then None
      else (let prob = real n / real totalTests in if prob = 0 then None else Some (prob * ln prob)))"

definition add_nan :: "real option \<Rightarrow> real option \<Rightarrow> real option" where
  "add_nan x y = (case (x, y) of (Some a, Some b) \<Rightarrow> Some (a + b) | _ \<Rightarrow> None)"

definition clockEntropyTest :: "int list \<Rightarrow> real option" where
  "clockEntropyTest readings =
     map_option (\<lambda>entropy. entropy * (- 1 / ln 2))
       (fold (\<lambda>n entropy. add_nan entropy (prob_log_prob (length readings) n)) (clock_bins readings) (Some 0))"

text \<open>The comparison with \<^verbatim>\<open>MIN_CLOCK_ENTROPY\<close> in the initialiser of \<open>addEntropy\<close>: NaN is not greater.\<close>

definition entropy_low :: "int list \<Rightarrow> bool" where
  "entropy_low readings = (case clockEntropyTest readings of None \<Rightarrow> True | Some e \<Rightarrow> \<not> e > 6)"

section \<open>What it tests\<close>

definition bin_count :: "int list \<Rightarrow> nat \<Rightarrow> nat" where
  "bin_count readings b = length (filter (\<lambda>t. clock_bin t = b) readings)"

lemma clock_bin_less: "clock_bin t < 256"
  by (simp add: clock_bin_def nat_less_iff)

lemma clock_bins_count: "clock_bins readings = map (bin_count readings) [0..<256]"
proof -
  have "fold (\<lambda>t bins. bins[clock_bin t := bins ! clock_bin t + 1]) ts (map f [0..<256]) =
      map (\<lambda>b. f b + bin_count ts b) [0..<256]" for ts f
  proof (induction ts arbitrary: f)
    case Nil
    then show ?case by (simp add: bin_count_def)
  next
    case (Cons t ts)
    have "(map f [0..<256])[clock_bin t := map f [0..<256] ! clock_bin t + 1] =
        map (\<lambda>b. f b + (if b = clock_bin t then 1 else 0)) [0..<256]"
      using clock_bin_less[of t] by (intro nth_equalityI) (auto simp: nth_list_update)
    then show ?case
      using Cons.IH[of "\<lambda>b. f b + (if b = clock_bin t then 1 else 0)"] by (auto simp: bin_count_def)
  qed
  from this[of readings "\<lambda>_. 0"] show ?thesis by (simp add: clock_bins_def map_replicate_const)
qed

lemma bin_count_0: "bin_count readings b = 0 \<longleftrightarrow> b \<notin> clock_bin ` set readings"
  by (auto simp: bin_count_def filter_empty_conv)

lemma fold_add_nan:
  "fold (\<lambda>n e. add_nan e (f n)) ns e0 =
     (if e0 = None \<or> (\<exists>n\<in>set ns. f n = None) then None else Some (the e0 + sum_list (map (the \<circ> f) ns)))"
proof (induction ns arbitrary: e0)
  case Nil
  then show ?case by simp
next
  case (Cons n ns)
  then show ?case by (cases e0; cases "f n") (auto simp: add_nan_def)
qed

text \<open>The entropy of the values read, in bits.\<close>

definition shannon :: "int list \<Rightarrow> real" where
  "shannon readings =
     (\<Sum>b<256. let p = real (bin_count readings b) / real (length readings) in - (p * ln p)) / ln 2"

lemma clockEntropyTest_value:
  "clockEntropyTest readings = (if \<exists>b<256. b \<notin> clock_bin ` set readings then None else Some (shannon readings))"
proof -
  let ?f = "prob_log_prob (length readings)"
  have none: "?f (bin_count readings b) = None \<longleftrightarrow> b \<notin> clock_bin ` set readings" for b
    using bin_count_0[of readings b] by (auto simp: prob_log_prob_def Let_def)
  show ?thesis
  proof (cases "\<exists>b<256. b \<notin> clock_bin ` set readings")
    case True
    then have "\<exists>n\<in>set (clock_bins readings). ?f n = None" using none by (force simp: clock_bins_count)
    then show ?thesis using True by (simp add: clockEntropyTest_def fold_add_nan)
  next
    case False
    then have some: "\<not> (\<exists>n\<in>set (clock_bins readings). ?f n = None)" using none by (force simp: clock_bins_count)
    have the: "the (?f (bin_count readings b)) =
        real (bin_count readings b) / real (length readings) * ln (real (bin_count readings b) / real (length readings))"
      if "b < 256" for b
      using False that none[of b] by (auto simp: prob_log_prob_def Let_def split: if_splits)
    have "sum_list (map (the \<circ> ?f) (clock_bins readings)) = (\<Sum>b<256. the (?f (bin_count readings b)))"
      by (simp add: clock_bins_count comp_def interv_sum_list_conv_sum_set_nat atLeast0LessThan)
    also have "\<dots> = - (shannon readings * ln 2)"
      by (simp add: shannon_def Let_def sum_negf the)
    finally show ?thesis using False some by (simp add: clockEntropyTest_def fold_add_nan)
  qed
qed

lemma sum_bin_counts: "(\<Sum>b<256. bin_count readings b) = length readings"
proof (induction readings)
  case Nil
  then show ?case by (simp add: bin_count_def)
next
  case (Cons t ts)
  have "(\<Sum>b<256. bin_count (t # ts) b) = (\<Sum>b<256. (if b = clock_bin t then 1 else 0) + bin_count ts b)"
    by (rule sum.cong) (auto simp: bin_count_def)
  also have "\<dots> = 1 + (\<Sum>b<256. bin_count ts b)" using clock_bin_less[of t] by (simp add: sum.distrib)
  finally show ?case using Cons.IH by simp
qed

lemma shannon_bounds: "0 \<le> shannon readings" "shannon readings \<le> 8"
proof -
  let ?n = "real (length readings)" and ?c = "\<lambda>b. real (bin_count readings b)"
  have le: "?c b \<le> ?n" for b by (simp add: bin_count_def)
  have "0 \<le> - (?c b / ?n * ln (?c b / ?n))" for b
  proof (cases "?c b / ?n = 0")
    case True
    show ?thesis unfolding True by simp
  next
    case False
    then have "0 < ?c b / ?n" "?c b / ?n \<le> 1" using le[of b] by (auto simp: divide_le_eq_1)
    then show ?thesis using mult_nonneg_nonpos[of "?c b / ?n" "ln (?c b / ?n)"] by simp
  qed
  then have "0 \<le> (\<Sum>b<256. - (?c b / ?n * ln (?c b / ?n)))" by (rule sum_nonneg)
  then show "0 \<le> shannon readings" by (simp add: shannon_def Let_def)
  show "shannon readings \<le> 8"
  proof (cases "readings = []")
    case True
    then show ?thesis by (simp add: shannon_def)
  next
    case False
    then have n: "0 < ?n" by simp
    have bound: "- (p * ln p) \<le> 1 / 256 - p + p * ln 256" if "0 \<le> p" for p :: real
    proof (cases "p = 0")
      case False
      then have p: "0 < p" using that by simp
      have "ln (1 / (256 * p)) \<le> 1 / (256 * p) - 1" using p by (intro ln_le_minus_one) simp
      then have "p * ln (1 / (256 * p)) \<le> p * (1 / (256 * p) - 1)" using p by (intro mult_left_mono) auto
      also have "\<dots> = 1 / 256 - p" using p by (simp add: field_simps)
      finally show ?thesis using p by (simp add: ln_div ln_mult algebra_simps)
    qed simp
    have "(\<Sum>b<256. - (?c b / ?n * ln (?c b / ?n))) \<le> (\<Sum>b<256. 1 / 256 - ?c b / ?n + ?c b / ?n * ln 256)"
      by (rule sum_mono, rule bound) simp
    also have "\<dots> = 1 - (\<Sum>b<256. ?c b / ?n) + (\<Sum>b<256. ?c b / ?n) * ln 256"
      by (simp add: sum.distrib sum_subtractf sum_distrib_right)
    also have "(\<Sum>b<256. ?c b / ?n) = 1"
      using n sum_bin_counts[of readings] by (simp add: sum_divide_distrib[symmetric] flip: of_nat_sum)
    finally have "(\<Sum>b<256. - (?c b / ?n * ln (?c b / ?n))) \<le> ln 256" by simp
    also have "ln (256 :: real) = 8 * ln 2" using ln_realpow[of 2 8] by simp
    finally show ?thesis by (simp add: shannon_def Let_def field_simps)
  qed
qed

text \<open>Two cases that fail the test: one value missing among equally frequent ones, and too few readings.\<close>

lemma equal_values: "7 < shannon (map int [0..<255])" "entropy_low (map int [0..<255])"
proof -
  have bin: "clock_bin (int k) = k" if "k < 255" for k using that by (simp add: clock_bin_def)
  have img: "clock_bin ` set (map int [0..<255]) = {..<255}" using bin by (force simp: image_image)
  have "\<exists>b<256. b \<notin> clock_bin ` set (map int [0..<255])" unfolding img by (intro exI[of _ 255]) simp
  then show "entropy_low (map int [0..<255])" unfolding entropy_low_def clockEntropyTest_value by simp
  have count: "bin_count (map int [0..<255]) b = (if b < 255 then 1 else 0)" if "b < 256" for b
  proof -
    have "filter (\<lambda>t. clock_bin t = b) (map int [0..<255]) = map int (filter (\<lambda>k. k = b) [0..<255])"
      using bin by (auto simp: filter_map comp_def intro!: arg_cong[where f = "map int"] filter_cong)
    moreover have "length (filter (\<lambda>k. k = b) [0..<255]) = (if b < 255 then 1 else 0)"
    proof -
      have "set (filter (\<lambda>k. k = b) [0..<255]) = (if b < 255 then {b} else {})" by auto
      then show ?thesis using distinct_card[of "filter (\<lambda>k. k = b) [0..<255]"] by (simp split: if_splits)
    qed
    ultimately show ?thesis by (simp add: bin_count_def)
  qed
  have "shannon (map int [0..<255]) = (\<Sum>b<256::nat. if b < 255 then ln 255 / 255 else 0) / ln 2"
    unfolding shannon_def by (intro arg_cong[where f = "\<lambda>x. x / ln 2"] sum.cong) (auto simp: count Let_def ln_div)
  also have "(\<Sum>b<256::nat. if b < 255 then ln 255 / 255 else 0) = (\<Sum>b\<in>{..<255::nat}. ln 255 / (255 :: real))"
    by (rule sum.mono_neutral_cong_right) auto
  also have "\<dots> = ln 255" by simp
  finally have v: "shannon (map int [0..<255]) = ln 255 / ln 2" .
  have "7 * ln 2 = ln (128 :: real)" using ln_realpow[of 2 7] by simp
  also have "\<dots> < ln 255" by simp
  finally show "7 < shannon (map int [0..<255])" unfolding v by (simp add: field_simps)
qed

lemma few_readings:
  assumes "length readings < 256"
  shows "entropy_low readings"
proof -
  have "card (clock_bin ` set readings) < card {..<256 :: nat}"
    using assms card_image_le[of "set readings" clock_bin] card_length[of readings] by simp
  then have "\<not> {..<256} \<subseteq> clock_bin ` set readings" by (meson card_mono finite_imageI finite_set leD)
  then have "\<exists>b<256. b \<notin> clock_bin ` set readings" by blast
  then show ?thesis by (simp add: entropy_low_def clockEntropyTest_value)
qed

end
