(* ===== verification/E2SAR_RelayStop.thy ===== *)
theory E2SAR_RelayStop
  imports E2SAR_Relay E2SAR_Progress
begin

text \<open>
  How the UDP relay starts and ends (\<^verbatim>\<open>bin/e2sar_udp_relay.cpp\<close>): \<open>main\<close> up to the loop, and its signal
  handler beside the relay loop and the thread that prints statistics.  The handler runs on the
  thread the signal is delivered to, which the operating system chooses.
\<close>

section \<open>Starting\<close>

text \<open>
  The command line after parsing (\<open>None\<close>: it cannot be parsed).  \<open>Inl\<close> is the exit code and what is printed
  last, \<open>Inr\<close> the sockets with which the loop is entered.
\<close>

record relay_args =
  ra_help :: bool
  ra_rx_addr :: string
  ra_tx_addr :: "string option"
  ra_rx_bufsize :: int
  ra_tx_bufsize :: int

definition relay_start ::
  "host_ops \<Rightarrow> 'w sock_ops \<Rightarrow> string \<Rightarrow> relay_args option \<Rightarrow> 'w \<Rightarrow> ((int \<times> string) + nat \<times> nat) \<times> 'w" where
  "relay_start h ops usage args w =
     (case args of
        None \<Rightarrow> (Inl (-1, ''Unable to parse command line: ''), w)
      | Some a \<Rightarrow>
          if ra_help a then (Inl (0, usage), w)
          else (case relay_addresses h (ra_rx_addr a) (ra_tx_addr a) of
             Inl m \<Rightarrow> (Inl (-1, m), w)
           | Inr addrs \<Rightarrow>
               (case relay_sockets h ops addrs (ra_rx_bufsize a) (ra_tx_bufsize a) w of
                  (Inl m, w1) \<Rightarrow> (Inl (-1, m), w1)
                | (Inr socks, w1) \<Rightarrow> (Inr socks, w1))))"

text \<open>The warning about an address that stands for all interfaces.\<close>

definition bindingToAll :: "host_ops \<Rightarrow> ip_address \<Rightarrow> bool" where
  "bindingToAll h a = (if is_v6 a then addr_str h a = ''::'' \<or> addr_str h a = ''0:0:0:0:0:0:0:0'' else addr_str h a = ''0.0.0.0'')"

section \<open>Ending\<close>

text \<open>
  The process: its flags, the statistics thread, the sockets the global variables hold, what has been closed
  so far, and where the handler is.  \<open>Terminated\<close> is \<^verbatim>\<open>std::terminate\<close>.
\<close>

datatype relay_thread = MainThread | StatsThread
datatype stats_state = NotStarted | Running | Ended
datatype handler_at = AtJoin | AtClose | AtExit
datatype relay_end = Exited int | Terminated

record relay_proc =
  rp_keepRunning :: bool
  rp_handlerTriggered :: bool
  rp_stats :: stats_state
  rp_rxSocket :: "nat option"
  rp_txSocket :: "nat option"
  rp_closed :: "nat list"
  rp_handler :: "(relay_thread \<times> handler_at) option"
  rp_end :: "relay_end option"

text \<open>
  Steps of the process: \<open>main\<close> sets up the sockets and the thread, a signal comes (only the first starts the handler), the
  handler goes on, the statistics thread sees the flag, \<open>main\<close> sees the flag and returns.  A thread does
  nothing else while the handler runs on it.  Joining oneself throws, and returning from \<open>main\<close> destroys a
  thread object that is still joinable; both end in \<open>Terminated\<close>.
\<close>

inductive relay_proc_step :: "relay_proc \<Rightarrow> relay_proc \<Rightarrow> bool" where
  open_rx: "rp_end p = None \<Longrightarrow> rp_handler p = None \<Longrightarrow> rp_rxSocket p = None \<Longrightarrow>
    relay_proc_step p (p\<lparr>rp_rxSocket := Some fd\<rparr>)"
| open_tx: "rp_end p = None \<Longrightarrow> rp_handler p = None \<Longrightarrow> rp_rxSocket p = Some fd0 \<Longrightarrow> rp_txSocket p = None \<Longrightarrow> fd \<noteq> fd0 \<Longrightarrow>
    relay_proc_step p (p\<lparr>rp_txSocket := Some fd\<rparr>)"
| start_stats: "rp_end p = None \<Longrightarrow> rp_handler p = None \<Longrightarrow> rp_txSocket p \<noteq> None \<Longrightarrow> rp_stats p = NotStarted \<Longrightarrow>
    relay_proc_step p (p\<lparr>rp_stats := Running\<rparr>)"
| signal_first: "rp_end p = None \<Longrightarrow> \<not> rp_handlerTriggered p \<Longrightarrow> thr = StatsThread \<longrightarrow> rp_stats p = Running \<Longrightarrow>
    relay_proc_step p (p\<lparr>rp_handlerTriggered := True, rp_keepRunning := False,
      rp_handler := Some (thr, if rp_stats p = NotStarted then AtClose else AtJoin)\<rparr>)"
| stats_ends: "rp_end p = None \<Longrightarrow> \<not> rp_keepRunning p \<Longrightarrow> rp_stats p = Running \<Longrightarrow>
    \<forall>a. rp_handler p \<noteq> Some (StatsThread, a) \<Longrightarrow> relay_proc_step p (p\<lparr>rp_stats := Ended\<rparr>)"
| join_stats: "rp_end p = None \<Longrightarrow> rp_handler p = Some (MainThread, AtJoin) \<Longrightarrow> rp_stats p = Ended \<Longrightarrow>
    relay_proc_step p (p\<lparr>rp_handler := Some (MainThread, AtClose)\<rparr>)"
| join_self: "rp_end p = None \<Longrightarrow> rp_handler p = Some (StatsThread, AtJoin) \<Longrightarrow>
    relay_proc_step p (p\<lparr>rp_end := Some Terminated\<rparr>)"
| close_all: "rp_end p = None \<Longrightarrow> rp_handler p = Some (thr, AtClose) \<Longrightarrow>
    relay_proc_step p (p\<lparr>rp_closed := rp_closed p @ (case rp_rxSocket p of None \<Rightarrow> [] | Some fd \<Rightarrow> [fd]) @
      (case rp_txSocket p of None \<Rightarrow> [] | Some fd \<Rightarrow> [fd]), rp_handler := Some (thr, AtExit)\<rparr>)"
| exit_handler: "rp_end p = None \<Longrightarrow> rp_handler p = Some (thr, AtExit) \<Longrightarrow> relay_proc_step p (p\<lparr>rp_end := Some (Exited 0)\<rparr>)"
| main_returns: "rp_end p = None \<Longrightarrow> \<not> rp_keepRunning p \<Longrightarrow> rp_stats p \<noteq> NotStarted \<Longrightarrow>
    \<forall>a. rp_handler p \<noteq> Some (MainThread, a) \<Longrightarrow> relay_proc_step p (p\<lparr>rp_end := Some Terminated\<rparr>)"

definition relay_proc_new :: relay_proc where
  "relay_proc_new = \<lparr>rp_keepRunning = True, rp_handlerTriggered = False, rp_stats = NotStarted, rp_rxSocket = None,
     rp_txSocket = None, rp_closed = [], rp_handler = None, rp_end = None\<rparr>"

section \<open>Lemmas\<close>

definition relay_socks :: "relay_proc \<Rightarrow> nat list" where
  "relay_socks p = (case rp_rxSocket p of None \<Rightarrow> [] | Some fd \<Rightarrow> [fd]) @ (case rp_txSocket p of None \<Rightarrow> [] | Some fd \<Rightarrow> [fd])"

definition relay_inv :: "relay_proc \<Rightarrow> bool" where
  "relay_inv p \<longleftrightarrow>
     rp_handlerTriggered p = (rp_handler p \<noteq> None) \<and> rp_keepRunning p = (\<not> rp_handlerTriggered p) \<and>
     (\<forall>a. rp_handler p = Some (StatsThread, a) \<longrightarrow> a = AtJoin \<and> rp_stats p = Running) \<and>
     (rp_handler p = Some (MainThread, AtJoin) \<longrightarrow> rp_stats p \<noteq> NotStarted) \<and>
     (\<forall>a. rp_handler p = Some (MainThread, a) \<longrightarrow> a \<noteq> AtJoin \<longrightarrow> rp_stats p \<noteq> Running) \<and>
     rp_closed p = (if rp_handler p = Some (MainThread, AtExit) then relay_socks p else []) \<and>
     (\<forall>fd. rp_txSocket p = Some fd \<longrightarrow> rp_rxSocket p \<noteq> None \<and> rp_rxSocket p \<noteq> Some fd) \<and>
     (\<forall>c. rp_end p = Some (Exited c) \<longrightarrow> c = 0 \<and> rp_handler p = Some (MainThread, AtExit)) \<and>
     (rp_end p = Some Terminated \<longrightarrow> rp_handler p = Some (StatsThread, AtJoin))"

lemma relay_new_inv: "relay_inv relay_proc_new"
  by (simp add: relay_inv_def relay_proc_new_def)

lemma relay_step_inv:
  assumes "relay_proc_step p p'" and "relay_inv p"
  shows "relay_inv p'"
  using assms
proof (induction rule: relay_proc_step.induct)
  case (main_returns p)
  then have "rp_handler p = Some (StatsThread, AtJoin)"
    unfolding relay_inv_def by (cases "rp_handler p") (auto intro: relay_thread.exhaust)
  then show ?case using main_returns by (auto simp: relay_inv_def)
next
  case (signal_first p thr)
  then show ?case by (cases thr; cases "rp_stats p") (auto simp: relay_inv_def relay_socks_def)
next
  case (close_all p thr)
  then have "thr = MainThread" by (cases thr) (auto simp: relay_inv_def)
  then show ?case using close_all by (auto simp: relay_inv_def relay_socks_def)
next
  case (exit_handler p thr)
  then have "thr = MainThread" by (cases thr) (auto simp: relay_inv_def)
  then show ?case using exit_handler by (auto simp: relay_inv_def relay_socks_def)
qed (auto simp: relay_inv_def relay_socks_def)

text \<open>Once the handler runs, it stays on its thread.\<close>

lemma relay_step_handler:
  assumes "relay_proc_step p p'" and "relay_inv p" and "rp_handler p = Some (thr, a)"
  shows "\<exists>a'. rp_handler p' = Some (thr, a')"
  using assms by (induction rule: relay_proc_step.induct) (auto simp: relay_inv_def)

definition relay_left :: "relay_proc \<Rightarrow> nat" where
  "relay_left p = (if rp_stats p = Running then 1 else 0) + (if rp_end p = None then 1 else 0) +
     (case rp_handler p of None \<Rightarrow> 0 | Some (_, AtJoin) \<Rightarrow> 2 | Some (_, AtClose) \<Rightarrow> 1 | Some (_, AtExit) \<Rightarrow> 0)"

lemma relay_step_left:
  assumes "relay_proc_step p p'" and "relay_inv p" and "rp_handlerTriggered p"
  shows "relay_left p' < relay_left p"
  using assms by (induction rule: relay_proc_step.induct) (auto simp: relay_inv_def relay_left_def)

lemma relay_not_stuck:
  assumes "relay_inv p" and "rp_handlerTriggered p" and "rp_end p = None"
  shows "\<exists>p'. relay_proc_step p p'"
proof -
  obtain thr a where h: "rp_handler p = Some (thr, a)" using assms(1,2) by (cases "rp_handler p") (auto simp: relay_inv_def)
  show ?thesis
  proof (cases thr)
    case StatsThread
    then show ?thesis using h assms relay_proc_step.join_self[of p] by (auto simp: relay_inv_def)
  next
    case MainThread
    then show ?thesis
      using h assms relay_proc_step.join_stats[of p] relay_proc_step.stats_ends[of p] relay_proc_step.close_all[of p]
        relay_proc_step.exit_handler[of p]
      by (cases a; cases "rp_stats p") (auto simp: relay_inv_def)
  qed
qed

interpretation relay_stopping: running_down relay_proc_step "\<lambda>p. relay_inv p \<and> rp_handlerTriggered p" relay_left "\<lambda>p. rp_end p \<noteq> None"
proof
  show "relay_inv p' \<and> rp_handlerTriggered p'" if inv: "relay_inv p \<and> rp_handlerTriggered p" and step: "relay_proc_step p p'" for p p'
  proof -
    obtain thr a where "rp_handler p = Some (thr, a)" using inv by (cases "rp_handler p") (auto simp: relay_inv_def)
    then obtain a' where h: "rp_handler p' = Some (thr, a')" using relay_step_handler[OF step] inv by blast
    have "relay_inv p'" using relay_step_inv[OF step] inv by blast
    then show ?thesis using h unfolding relay_inv_def by simp
  qed
  show "relay_left p' < relay_left p" if "relay_inv p \<and> rp_handlerTriggered p" and "relay_proc_step p p'" for p p'
    using relay_step_left that by blast
  show "\<exists>p'. relay_proc_step p p'" if "relay_inv p \<and> rp_handlerTriggered p" and "\<not> rp_end p \<noteq> None" for p
    using relay_not_stuck that by blast
qed

lemma relay_reachable: "relay_proc_step\<^sup>*\<^sup>* relay_proc_new p \<Longrightarrow> relay_inv p"
  by (induction rule: rtranclp_induct) (auto intro: relay_new_inv relay_step_inv)

lemma relay_handler_stays:
  assumes "relay_proc_step\<^sup>*\<^sup>* p p'" and "relay_inv p" and "rp_handler p = Some (thr, a)"
  shows "relay_inv p' \<and> (\<exists>a'. rp_handler p' = Some (thr, a'))"
  using assms by (induction rule: rtranclp_induct) (use relay_step_inv relay_step_handler in blast)+

end
