(* ===== verification/E2SAR_Waiting.thy ===== *)
theory E2SAR_Waiting
  imports E2SAR_Reassembly
begin

text \<open>
  How long the receive threads of a reassembler wait (\<^verbatim>\<open>src/e2sarDPReassembler.cpp\<close>): the time-out of
  \<^verbatim>\<open>select\<close> is the member \<^verbatim>\<open>sleep_tv\<close>, set to 10 ms when the thread is constructed and passed by its address.
  What \<^verbatim>\<open>select\<close> leaves there is the system's choice, a parameter \<open>left\<close>; Linux leaves the time not
  slept, other systems leave it as it is.
\<close>

definition SLEEP_USEC :: nat where
  "SLEEP_USEC = 10000"

definition linux_left :: "nat \<Rightarrow> nat \<Rightarrow> nat" where
  "linux_left tv waited = tv - waited"

definition posix_left :: "nat \<Rightarrow> nat \<Rightarrow> nat" where
  "posix_left tv waited = tv"

text \<open>
  One call: after \<open>ready\<close> microseconds a descriptor is readable (\<open>None\<close>: none will be).  What it gives, how
  long it took, and the time-out afterwards.
\<close>

definition select_wait ::
  "(nat \<Rightarrow> nat \<Rightarrow> nat) \<Rightarrow> (nat \<times> select_outcome) option \<Rightarrow> nat \<Rightarrow> select_outcome \<times> nat \<times> nat" where
  "select_wait left ready tv =
     (case ready of
        Some (r, outcome) \<Rightarrow>
          if r \<le> tv then (outcome, r, left tv r) else (SelectReady (\<lambda>_. None), tv, left tv tv)
      | None \<Rightarrow> (SelectReady (\<lambda>_. None), tv, left tv tv))"

text \<open>The loop of a receive thread over such calls, with the time it has spent waiting in each.\<close>

fun recv_loop ::
  "byte_order \<Rightarrow> bool \<Rightarrow> (nat \<Rightarrow> nat \<Rightarrow> nat) \<Rightarrow> (nat \<times> select_outcome) option list \<Rightarrow> nat \<Rightarrow> recv_thread \<times> reas_shared \<Rightarrow>
     (nat list \<times> nat \<times> recv_thread \<times> reas_shared) option" where
  "recv_loop h lb left [] tv s = Some ([], tv, s)"
| "recv_loop h lb left (ready # rs) tv s =
     (case select_wait left ready tv of
        (outcome, waited, tv') \<Rightarrow>
          (case recv_turn h lb outcome s of
             None \<Rightarrow> None
           | Some s' \<Rightarrow> map_option (\<lambda>(ws, tv2, s2). (waited # ws, tv2, s2)) (recv_loop h lb left rs tv' s')))"

lemma select_wait_le: "select_wait left ready tv = (outcome, waited, tv') \<Longrightarrow> waited \<le> tv \<and> tv' = left tv waited"
  by (auto simp: select_wait_def split: option.splits if_splits)

text \<open>On Linux all the waiting a thread ever does adds up to no more than the first time-out.\<close>

lemma recv_loop_waits:
  "recv_loop h lb linux_left rs tv s = Some (ws, tv', s') \<Longrightarrow> sum_list ws + tv' = tv"
proof (induction rs arbitrary: tv s ws)
  case Nil
  then show ?case by simp
next
  case (Cons r rs)
  obtain outcome waited tv1 where sel: "select_wait linux_left r tv = (outcome, waited, tv1)" by (metis prod_cases3)
  note w = select_wait_le[OF sel]
  from Cons.prems obtain s1 ws1 where run: "recv_loop h lb linux_left rs tv1 s1 = Some (ws1, tv', s')" and ws: "ws = waited # ws1"
    by (auto simp: sel split: option.splits)
  show ?case using Cons.IH[OF run] w by (auto simp: ws linux_left_def)
qed

lemma idle_turn: "recv_turn h lb (SelectReady (\<lambda>_. None)) s = Some s"
  by (cases s) (simp add: recv_turn_def map_filter_def)

lemma recv_loop_idle:
  "recv_loop h lb linux_left (replicate n None) tv s =
     Some (if n = 0 then [] else tv # replicate (n - 1) 0, if n = 0 then tv else 0, s)"
proof (induction n arbitrary: tv)
  case 0
  then show ?case by simp
next
  case (Suc n)
  have "linux_left tv tv = 0" by (simp add: linux_left_def)
  moreover have "(0::nat) # replicate (n - 1) 0 = replicate n 0" if "0 < n" using that by (cases n) auto
  ultimately show ?case using Suc.IH[of 0] by (cases s) (auto simp: select_wait_def idle_turn)
qed

lemma recv_loop_idle_posix:
  "recv_loop h lb posix_left (replicate n None) tv s = Some (replicate n tv, tv, s)"
  by (induction n) (simp_all add: select_wait_def posix_left_def idle_turn)

end
