(* ===== verification/E2SAR_Lifecycle.thy ===== *)
theory E2SAR_Lifecycle
  imports E2SAR_SegmenterSetup E2SAR_Progress "HOL-Library.Multiset"
begin

text \<open>
  A segmenter from \<open>openAndStart\<close> to the end of \<^verbatim>\<open>stopThreads\<close> (\<^verbatim>\<open>include/e2sarDPSegmenter.hpp\<close>,
  \<^verbatim>\<open>src/e2sarDPSegmenter.cpp\<close>): the callers, the send thread with its pool, the sync thread and the
  caller of \<^verbatim>\<open>stopThreads\<close>, step by step, and what they do with the sockets.  What a datagram contains
  is in \<open>E2SAR_Segmenter\<close>; here an event goes out as a whole, on the socket of its round robin index.
\<close>

section \<open>State\<close>

text \<open>
  Where the threads are: the send thread before its test of \<^verbatim>\<open>threadsStop\<close>, in its loop over the queue,
  joining its pool, gone; the sync thread before its test, before its message, gone; and the caller of
  \<^verbatim>\<open>stopThreads\<close> (\<open>Working\<close>: it has not been called).
\<close>

datatype send_at = NoSend | SendTest | SendPop | SendJoin | SendGone
datatype sync_at = NoSync | SyncTest | SyncTurn | SyncGone
datatype stop_at = Working | WaitQueue | SetFlag | JoinSend | JoinSync | AllStopped

text \<open>What happens to a socket: a sync message, an event of the queue, an event of \<open>sendEvent\<close>, its close.\<close>

datatype sock_use = SyncOut nat | EventOut nat seg_item | DirectOut nat | Closed nat

record seg_life =
  lf_queue :: "seg_item list"
  lf_pool :: "(nat \<times> seg_item) list"
  lf_accepted :: "seg_item list"
  lf_roundRobin :: nat
  lf_sendFds :: "nat list"
  lf_syncFd :: nat
  lf_send :: send_at
  lf_sync :: sync_at
  lf_stop :: stop_at
  lf_threadsStop :: bool
  lf_syncThreadStop :: bool
  lf_log :: "sock_use list"

text \<open>After \<open>openAndStart\<close>, with the events that were queued before.\<close>

definition seg_life_of :: "seg_running \<Rightarrow> seg_item list \<Rightarrow> seg_life" where
  "seg_life_of r q =
     \<lparr>lf_queue = q, lf_pool = [], lf_accepted = q, lf_roundRobin = 0,
      lf_sendFds = (case sr_send r of None \<Rightarrow> [] | Some socks \<Rightarrow> map fst socks),
      lf_syncFd = (case sr_sync r of None \<Rightarrow> 0 | Some fd \<Rightarrow> fd),
      lf_send = (if sr_send r = None then NoSend else SendTest), lf_sync = (if sr_sync r = None then NoSync else SyncTest),
      lf_stop = Working, lf_threadsStop = False, lf_syncThreadStop = False, lf_log = []\<rparr>"

definition next_socket :: "seg_life \<Rightarrow> nat" where
  "next_socket s = (lf_roundRobin s + 1) mod length (lf_sendFds s)"

section \<open>Steps\<close>

text \<open>
  Callers queue and send; with \<open>quiet\<close> they no longer do once \<^verbatim>\<open>stopThreads\<close> has been called, which nothing
  in the program sees to.  \<^verbatim>\<open>stopThreads\<close> finds the queue empty and sets the flag in two steps, and joins the send
  thread before it stops the sync thread.  A thread that was never started is joined at once.
\<close>

inductive seg_life_step :: "bool \<Rightarrow> seg_life \<Rightarrow> seg_life \<Rightarrow> bool" for quiet :: bool where
  life_offer: "(quiet \<Longrightarrow> lf_stop s = Working) \<Longrightarrow> seg_push i (lf_queue s) = (q, True) \<Longrightarrow>
    seg_life_step quiet s (s\<lparr>lf_queue := q, lf_accepted := lf_accepted s @ [i]\<rparr>)"
| life_direct: "(quiet \<Longrightarrow> lf_stop s = Working) \<Longrightarrow> lf_sendFds s \<noteq> [] \<Longrightarrow>
    seg_life_step quiet s (s\<lparr>lf_roundRobin := next_socket s,
      lf_log := lf_log s @ [DirectOut (lf_sendFds s ! next_socket s)]\<rparr>)"
| stop_call: "lf_stop s = Working \<Longrightarrow> \<not> lf_threadsStop s \<Longrightarrow> seg_life_step quiet s (s\<lparr>lf_stop := WaitQueue\<rparr>)"
| stop_empty: "lf_stop s = WaitQueue \<Longrightarrow> lf_queue s = [] \<Longrightarrow> seg_life_step quiet s (s\<lparr>lf_stop := SetFlag\<rparr>)"
| stop_flag: "lf_stop s = SetFlag \<Longrightarrow> seg_life_step quiet s (s\<lparr>lf_stop := JoinSend, lf_threadsStop := True\<rparr>)"
| stop_joined: "lf_stop s = JoinSend \<Longrightarrow> lf_send s \<in> {NoSend, SendGone} \<Longrightarrow>
    seg_life_step quiet s (s\<lparr>lf_stop := JoinSync, lf_syncThreadStop := True\<rparr>)"
| stop_done: "lf_stop s = JoinSync \<Longrightarrow> lf_sync s \<in> {NoSync, SyncGone} \<Longrightarrow>
    seg_life_step quiet s (s\<lparr>lf_stop := AllStopped\<rparr>)"
| send_look: "lf_send s = SendTest \<Longrightarrow> \<not> lf_threadsStop s \<Longrightarrow> seg_life_step quiet s (s\<lparr>lf_send := SendPop\<rparr>)"
| send_post: "lf_send s = SendPop \<Longrightarrow> seg_pop (lf_queue s) = (q, Some i) \<Longrightarrow>
    seg_life_step quiet s (s\<lparr>lf_queue := q, lf_roundRobin := next_socket s,
      lf_pool := lf_pool s @ [(lf_sendFds s ! next_socket s, i)]\<rparr>)"
| send_idle: "lf_send s = SendPop \<Longrightarrow> lf_queue s = [] \<Longrightarrow> seg_life_step quiet s (s\<lparr>lf_send := SendTest\<rparr>)"
| send_leave: "lf_send s = SendTest \<Longrightarrow> lf_threadsStop s \<Longrightarrow> seg_life_step quiet s (s\<lparr>lf_send := SendJoin\<rparr>)"
| send_job: "lf_pool s = xs @ (fd, i) # ys \<Longrightarrow>
    seg_life_step quiet s (s\<lparr>lf_pool := xs @ ys, lf_log := lf_log s @ [EventOut fd i]\<rparr>)"
| send_close: "lf_send s = SendJoin \<Longrightarrow> lf_pool s = [] \<Longrightarrow>
    seg_life_step quiet s (s\<lparr>lf_send := SendGone, lf_log := lf_log s @ map Closed (lf_sendFds s)\<rparr>)"
| sync_look: "lf_sync s = SyncTest \<Longrightarrow> \<not> lf_syncThreadStop s \<Longrightarrow> seg_life_step quiet s (s\<lparr>lf_sync := SyncTurn\<rparr>)"
| sync_out: "lf_sync s = SyncTurn \<Longrightarrow>
    seg_life_step quiet s (s\<lparr>lf_sync := SyncTest, lf_log := lf_log s @ [SyncOut (lf_syncFd s)]\<rparr>)"
| sync_close: "lf_sync s = SyncTest \<Longrightarrow> lf_syncThreadStop s \<Longrightarrow>
    seg_life_step quiet s (s\<lparr>lf_sync := SyncGone, lf_log := lf_log s @ [Closed (lf_syncFd s)]\<rparr>)"

inductive_cases seg_life_stepE: "seg_life_step quiet s s'"

section \<open>Sockets\<close>

fun sock_of :: "sock_use \<Rightarrow> nat list" where
  "sock_of (SyncOut fd) = [fd]"
| "sock_of (EventOut fd i) = [fd]"
| "sock_of (DirectOut fd) = [fd]"
| "sock_of (Closed fd) = [fd]"

fun sock_closed :: "sock_use \<Rightarrow> nat list" where
  "sock_closed (Closed fd) = [fd]"
| "sock_closed _ = []"

abbreviation closed_socks :: "sock_use list \<Rightarrow> nat list" where
  "closed_socks us \<equiv> closed_by sock_closed us"

abbreviation open_socks_only :: "sock_use list \<Rightarrow> bool" where
  "open_socks_only us \<equiv> uses_open sock_of sock_closed [] us"

definition events_out :: "sock_use list \<Rightarrow> seg_item list" where
  "events_out us = concat (map (\<lambda>u. case u of EventOut fd i \<Rightarrow> [i] | _ \<Rightarrow> []) us)"

lemma log_simps [simp]:
  "closed_socks (map Closed fds) = fds"
  "events_out [] = []" "events_out (us @ vs) = events_out us @ events_out vs"
  "events_out [SyncOut fd] = []" "events_out [EventOut fd i] = [i]" "events_out [DirectOut fd] = []"
  "events_out [Closed fd] = []" "events_out (map Closed fds) = []"
  by (simp_all add: closed_by_map events_out_def comp_def)

lemma log_closes: "uses_open sock_of sock_closed old (map Closed fds) \<longleftrightarrow> distinct fds \<and> set old \<inter> set fds = {}"
  by (simp add: uses_open_closes)

section \<open>Invariants\<close>

text \<open>Where the threads can be, given how far \<^verbatim>\<open>stopThreads\<close> has come.\<close>

definition life_threads :: "seg_life \<Rightarrow> bool" where
  "life_threads s \<longleftrightarrow>
     lf_threadsStop s = (lf_stop s \<in> {JoinSend, JoinSync, AllStopped}) \<and>
     lf_syncThreadStop s = (lf_stop s \<in> {JoinSync, AllStopped}) \<and>
     (lf_send s \<in> {SendJoin, SendGone} \<longrightarrow> lf_threadsStop s) \<and>
     (lf_stop s \<in> {JoinSync, AllStopped} \<longrightarrow> lf_send s \<in> {NoSend, SendGone}) \<and>
     (lf_sync s = SyncGone \<longrightarrow> lf_syncThreadStop s) \<and> (lf_stop s = AllStopped \<longrightarrow> lf_sync s \<in> {NoSync, SyncGone}) \<and>
     (lf_send s \<in> {NoSend, SendGone} \<longrightarrow> lf_pool s = [])"

text \<open>Which sockets are closed, and where the accepted events are.\<close>

definition life_socks :: "seg_life \<Rightarrow> bool" where
  "life_socks s \<longleftrightarrow>
     closed_socks (lf_log s) =
       (if lf_send s = SendGone then lf_sendFds s else []) @ (if lf_sync s = SyncGone then [lf_syncFd s] else []) \<and>
     (\<forall>x\<in>set (lf_pool s). fst x \<in> set (lf_sendFds s)) \<and> (lf_send s \<noteq> NoSend \<longrightarrow> lf_sendFds s \<noteq> [])"

definition life_events :: "seg_life \<Rightarrow> bool" where
  "life_events s \<longleftrightarrow> mset (lf_queue s) + mset (map snd (lf_pool s)) + mset (events_out (lf_log s)) = mset (lf_accepted s)"

text \<open>What quiet callers add.\<close>

definition life_quiet :: "seg_life \<Rightarrow> bool" where
  "life_quiet s \<longleftrightarrow> (lf_stop s \<notin> {Working, WaitQueue} \<longrightarrow> lf_queue s = []) \<and> open_socks_only (lf_log s)"

lemma next_socket_less: "lf_sendFds s \<noteq> [] \<Longrightarrow> next_socket s < length (lf_sendFds s)"
  by (simp add: next_socket_def)

lemma seg_pop_Some: "seg_pop q = (q', Some i) \<longleftrightarrow> q = i # q'"
  by (auto simp: seg_pop_def split: list.splits)

lemma seg_push_True: "seg_push i q = (q', True) \<longleftrightarrow> length q < SEG_QSIZE \<and> q' = q @ [i]"
  by (auto simp: seg_push_def)

lemma life_step_threads:
  assumes "seg_life_step quiet s s'" and "life_threads s"
  shows "life_threads s'"
  using assms by (induction rule: seg_life_step.induct) (auto simp: life_threads_def)

lemma life_step_socks:
  assumes "seg_life_step quiet s s'" and "life_threads s" and "life_socks s"
  shows "life_socks s' \<and> lf_sendFds s' = lf_sendFds s \<and> lf_syncFd s' = lf_syncFd s"
  using assms
proof (induction rule: seg_life_step.induct)
  case (send_post s q i)
  then show ?case using next_socket_less[of s] by (auto simp: life_socks_def)
next
  case (send_close s)
  then have "lf_sync s \<noteq> SyncGone" by (auto simp: life_threads_def)
  then show ?case using send_close by (simp add: life_socks_def)
qed (auto simp: life_socks_def life_threads_def)

lemma life_step_events:
  assumes "seg_life_step quiet s s'" and "life_events s"
  shows "life_events s'"
  using assms by (induction rule: seg_life_step.induct) (auto simp: life_events_def seg_push_True seg_pop_Some)

definition life_fds :: "seg_life \<Rightarrow> nat list" where
  "life_fds s = lf_sendFds s @ (if lf_sync s = NoSync then [] else [lf_syncFd s])"

lemma life_step_quiet:
  assumes "seg_life_step True s s'" and "life_threads s" and "life_socks s" and "life_quiet s" and "distinct (life_fds s)"
  shows "life_quiet s' \<and> life_fds s' = life_fds s"
  using assms
proof (induction rule: seg_life_step.induct)
  case (life_direct s)
  then have "lf_send s \<noteq> SendGone" "lf_sync s \<noteq> SyncGone" by (auto simp: life_threads_def)
  then have "closed_socks (lf_log s) = []" using life_direct by (simp add: life_socks_def)
  then show ?case using life_direct by (simp add: life_quiet_def life_fds_def)
next
  case (send_job s xs fd i ys)
  then have "lf_send s \<notin> {NoSend, SendGone}" by (auto simp: life_threads_def)
  moreover from this have "lf_sync s \<noteq> SyncGone" using send_job by (auto simp: life_threads_def)
  ultimately have "closed_socks (lf_log s) = []" using send_job by (simp add: life_socks_def)
  then show ?case using send_job by (simp add: life_quiet_def life_fds_def)
next
  case (send_close s)
  then have "lf_sync s \<noteq> SyncGone" by (auto simp: life_threads_def)
  then have "closed_socks (lf_log s) = []" using send_close by (simp add: life_socks_def)
  then show ?case using send_close
    by (auto simp: life_quiet_def log_closes life_fds_def)
next
  case (sync_out s)
  then have "lf_syncFd s \<notin> set (closed_socks (lf_log s))" by (simp add: life_socks_def life_fds_def)
  then show ?case using sync_out by (simp add: life_quiet_def life_fds_def)
next
  case (sync_close s)
  then have "lf_syncFd s \<notin> set (closed_socks (lf_log s))" by (simp add: life_socks_def life_fds_def)
  then show ?case using sync_close by (simp add: life_quiet_def life_fds_def)
qed (auto simp: life_quiet_def life_fds_def seg_pop_Some seg_push_True)

definition life_inv :: "seg_life \<Rightarrow> bool" where
  "life_inv s \<longleftrightarrow> life_threads s \<and> life_socks s \<and> life_events s \<and> life_quiet s \<and> distinct (life_fds s)"

lemma life_step_inv: "seg_life_step True s s' \<Longrightarrow> life_inv s \<Longrightarrow> life_inv s'"
  using life_step_threads life_step_socks life_step_events life_step_quiet by (simp add: life_inv_def)

lemma life_reachable_inv:
  assumes "(seg_life_step True)\<^sup>*\<^sup>* s s'" and "life_inv s"
  shows "life_inv s'"
  using assms by (induction rule: rtranclp_induct) (auto dest: life_step_inv)

section \<open>Stopping\<close>

definition life_left :: "seg_life \<Rightarrow> nat" where
  "life_left s = 2 * length (lf_queue s) + length (lf_pool s) +
     (case lf_stop s of Working \<Rightarrow> 5 | WaitQueue \<Rightarrow> 4 | SetFlag \<Rightarrow> 3 | JoinSend \<Rightarrow> 2 | JoinSync \<Rightarrow> 1 | AllStopped \<Rightarrow> 0) +
     (case lf_send s of NoSend \<Rightarrow> 0 | SendTest \<Rightarrow> 2 | SendPop \<Rightarrow> 2 | SendJoin \<Rightarrow> 1 | SendGone \<Rightarrow> 0) +
     (if lf_sync s \<in> {SyncTest, SyncTurn} then 1 else 0)"

definition stopping_inv :: "seg_life \<Rightarrow> bool" where
  "stopping_inv s \<longleftrightarrow> life_inv s \<and> lf_stop s \<noteq> Working \<and> (lf_send s = NoSend \<longrightarrow> lf_queue s = [])"

lemma stopping_step:
  assumes "seg_life_step True s s'" and "stopping_inv s"
  shows "stopping_inv s' \<and> life_left s' \<le> life_left s"
proof -
  have "life_inv s'" using assms life_step_inv by (simp add: stopping_inv_def)
  moreover have "lf_stop s' \<noteq> Working \<and> (lf_send s' = NoSend \<longrightarrow> lf_queue s' = []) \<and> life_left s' \<le> life_left s"
    using assms by (induction rule: seg_life_step.induct) (auto simp: stopping_inv_def life_left_def seg_pop_Some)
  ultimately show ?thesis by (simp add: stopping_inv_def)
qed

text \<open>The step that is due, after one the threads may have to make first.\<close>

lemma stopping_due:
  assumes "stopping_inv s" and "lf_stop s \<noteq> AllStopped"
  shows "\<exists>s1 s2. (seg_life_step True)\<^sup>*\<^sup>* s s1 \<and> seg_life_step True s1 s2 \<and> life_left s1 = life_left s \<and> life_left s2 < life_left s"
proof -
  have inv: "life_threads s" "life_quiet s" using assms(1) by (simp_all add: stopping_inv_def life_inv_def)
  let ?step = "seg_life_step True"
  have now: ?thesis if "?step s s'" "life_left s' < life_left s" for s' using that by blast
  have next': ?thesis if "?step s s1" "?step s1 s2" "life_left s1 = life_left s" "life_left s2 < life_left s" for s1 s2
    using that by blast
  consider (wait) "lf_stop s = WaitQueue" | (flag) "lf_stop s = SetFlag" | (send) "lf_stop s = JoinSend"
    | (sync) "lf_stop s = JoinSync"
    using assms by (cases "lf_stop s") (auto simp: stopping_inv_def)
  then show ?thesis
  proof cases
    case wait
    show ?thesis
    proof (cases "lf_queue s")
      case Nil
      show ?thesis by (rule now[OF stop_empty[OF wait Nil]]) (simp add: life_left_def wait)
    next
      case (Cons i q)
      then have pop: "seg_pop (lf_queue s) = (q, Some i)" by (simp add: seg_pop_Some)
      have "lf_send s \<in> {SendTest, SendPop}" "\<not> lf_threadsStop s"
        using assms(1) inv wait Cons by (cases "lf_send s"; auto simp: stopping_inv_def life_threads_def)+
      then consider (test) "lf_send s = SendTest" "\<not> lf_threadsStop s" | (pop) "lf_send s = SendPop" by auto
      then show ?thesis
      proof cases
        case test
        show ?thesis
          by (rule next'[OF send_look[OF test] send_post[where q = q and i = i]])
            (simp_all add: pop[unfolded Cons] life_left_def test Cons)
      next
        case at: pop
        show ?thesis by (rule now[OF send_post[OF at pop]]) (simp add: life_left_def Cons)
      qed
    qed
  next
    case flag
    show ?thesis by (rule now[OF stop_flag[OF flag]]) (simp add: life_left_def flag)
  next
    case send
    have q: "lf_queue s = []" and f: "lf_threadsStop s" using inv send by (simp_all add: life_quiet_def life_threads_def)
    show ?thesis
    proof (cases "lf_send s")
      case SendTest
      show ?thesis by (rule now[OF send_leave[OF SendTest f]]) (simp add: life_left_def SendTest)
    next
      case SendPop
      show ?thesis
        by (rule next'[OF send_idle[OF SendPop q] send_leave]) (simp_all add: life_left_def SendPop f)
    next
      case SendJoin
      show ?thesis
      proof (cases "lf_pool s")
        case Nil
        show ?thesis by (rule now[OF send_close[OF SendJoin Nil]]) (simp add: life_left_def SendJoin)
      next
        case (Cons x xs)
        then have "lf_pool s = [] @ (fst x, snd x) # xs" by simp
        from now[OF send_job[OF this]] show ?thesis by (simp add: life_left_def Cons)
      qed
    qed (rule now[OF stop_joined[OF send]]; simp add: life_left_def send)+
  next
    case sync
    then have f: "lf_syncThreadStop s" using inv by (simp add: life_threads_def)
    show ?thesis
    proof (cases "lf_sync s")
      case SyncTest
      show ?thesis by (rule now[OF sync_close[OF SyncTest f]]) (simp add: life_left_def SyncTest)
    next
      case SyncTurn
      show ?thesis by (rule next'[OF sync_out[OF SyncTurn] sync_close]) (simp_all add: life_left_def SyncTurn f)
    qed (rule now[OF stop_done[OF sync]]; simp add: life_left_def sync)+
  qed
qed

interpretation seg_stopping: settling "seg_life_step True" stopping_inv life_left "\<lambda>s. lf_stop s = AllStopped"
proof
  fix s
  assume "stopping_inv s" "lf_stop s \<noteq> AllStopped"
  from stopping_due[OF this] show "\<exists>s'. (seg_life_step True)\<^sup>*\<^sup>* s s' \<and> life_left s' < life_left s"
    by (meson rtranclp.rtrancl_into_rtrancl)
qed (use stopping_step in auto)

text \<open>The start, and what holds at the end.\<close>

definition running_fds :: "seg_running \<Rightarrow> nat list" where
  "running_fds r = (case sr_send r of None \<Rightarrow> [] | Some socks \<Rightarrow> map fst socks) @
     (case sr_sync r of None \<Rightarrow> [] | Some fd \<Rightarrow> [fd])"

lemma life_start_inv:
  assumes "distinct (running_fds r)" and "sr_send r \<noteq> Some []"
  shows "life_inv (seg_life_of r q)"
  using assms
  by (auto simp: life_inv_def life_threads_def life_socks_def life_events_def life_quiet_def life_fds_def seg_life_of_def
      running_fds_def split: option.splits)

lemma life_waits_forever:
  assumes "(seg_life_step quiet)\<^sup>*\<^sup>* s s'" and "lf_send s = NoSend" and "lf_queue s \<noteq> []"
    and "lf_stop s \<in> {Working, WaitQueue}"
  shows "lf_send s' = NoSend \<and> lf_queue s' \<noteq> [] \<and> lf_stop s' \<in> {Working, WaitQueue}"
  using assms by (induction rule: rtranclp_induct) (auto simp: seg_push_True elim!: seg_life_stepE)

lemma life_reachable_fds:
  assumes "(seg_life_step True)\<^sup>*\<^sup>* s s'" and "life_inv s"
  shows "life_fds s' = life_fds s \<and> (lf_send s' = NoSend) = (lf_send s = NoSend)"
  using assms
proof (induction rule: rtranclp_induct)
  case (step s1 s2)
  then have inv: "life_inv s1" using life_reachable_inv by blast
  have "(lf_send s2 = NoSend) = (lf_send s1 = NoSend)" using step.hyps(2) by (auto elim!: seg_life_stepE)
  then show ?case using step life_step_quiet[OF step.hyps(2)] inv by (simp add: life_inv_def)
qed simp

lemma life_start_fds: "life_fds (seg_life_of r q) = running_fds r"
  by (simp add: life_fds_def seg_life_of_def running_fds_def split: option.splits)

text \<open>Everything is done when \<^verbatim>\<open>stopThreads\<close> has returned.\<close>

lemma life_stopped:
  assumes "life_inv s" and "lf_stop s = AllStopped" and "lf_send s \<noteq> NoSend"
  shows "closed_socks (lf_log s) = life_fds s" and "mset (events_out (lf_log s)) = mset (lf_accepted s)"
proof -
  have t: "lf_send s = SendGone" "lf_sync s \<in> {NoSync, SyncGone}" "lf_pool s = []" "lf_queue s = []"
    using assms by (auto simp: life_inv_def life_threads_def life_quiet_def)
  then show "closed_socks (lf_log s) = life_fds s" using assms(1) by (auto simp: life_inv_def life_socks_def life_fds_def)
  show "mset (events_out (lf_log s)) = mset (lf_accepted s)" using t assms(1) by (simp add: life_inv_def life_events_def)
qed

lemma seg_openAndStart_running:
  assumes "seg_openAndStart ops isSel sg s w = (Ok 0, r, s', w')"
  shows "\<exists>socks. sr_send r = Some socks \<and> length socks = sf_numSendSockets (sg_flags sg)"
  using assms
  by (auto simp: seg_openAndStart_def send_open_def Let_def dest!: send_open_all_ports split: sum.splits prod.splits if_splits)

text \<open>An event offered between the look at the queue and the setting of the flag.\<close>

lemma life_loses_late_event:
  assumes "sr_send r = Some socks" and "socks \<noteq> []"
  shows "\<exists>s. (seg_life_step False)\<^sup>*\<^sup>* (seg_life_of r []) s \<and> lf_stop s = AllStopped \<and> lf_queue s = [i]"
proof -
  let ?s0 = "seg_life_of r []"
  let ?s1 = "?s0\<lparr>lf_stop := WaitQueue\<rparr>"
  let ?s2 = "?s1\<lparr>lf_stop := SetFlag\<rparr>"
  let ?s3 = "?s2\<lparr>lf_queue := [i], lf_accepted := [] @ [i]\<rparr>"
  let ?s4 = "?s3\<lparr>lf_stop := JoinSend, lf_threadsStop := True\<rparr>"
  let ?s5 = "?s4\<lparr>lf_send := SendJoin\<rparr>"
  let ?s6 = "?s5\<lparr>lf_send := SendGone, lf_log := lf_log ?s5 @ map Closed (lf_sendFds ?s5)\<rparr>"
  let ?s7 = "?s6\<lparr>lf_stop := JoinSync, lf_syncThreadStop := True\<rparr>"
  note d = seg_life_of_def assms(1) seg_push_True SEG_QSIZE_def
  have "seg_life_step False ?s0 ?s1" by (rule stop_call) (simp_all add: d)
  moreover have "seg_life_step False ?s1 ?s2" by (rule stop_empty) (simp_all add: d)
  moreover have "seg_life_step False ?s2 ?s3"
    using life_offer[of False ?s2 i "[i]"] by (simp add: d)
  moreover have "seg_life_step False ?s3 ?s4" by (rule stop_flag) (simp add: d)
  moreover have "seg_life_step False ?s4 ?s5" by (rule send_leave) (simp_all add: d)
  moreover have "seg_life_step False ?s5 ?s6" by (rule send_close) (simp_all add: d)
  moreover have "seg_life_step False ?s6 ?s7" by (rule stop_joined) (simp_all add: d)
  ultimately have run: "(seg_life_step False)\<^sup>*\<^sup>* ?s0 ?s7" by (meson converse_rtranclp_into_rtranclp rtranclp.rtrancl_refl)
  show ?thesis
  proof (cases "sr_sync r")
    case None
    have "seg_life_step False ?s7 (?s7\<lparr>lf_stop := AllStopped\<rparr>)" by (rule stop_done) (simp_all add: d None)
    then show ?thesis using rtranclp.rtrancl_into_rtrancl[OF run] by fastforce
  next
    case (Some fd)
    let ?s8 = "?s7\<lparr>lf_sync := SyncGone, lf_log := lf_log ?s7 @ [Closed (lf_syncFd ?s7)]\<rparr>"
    have "seg_life_step False ?s7 ?s8" by (rule sync_close) (simp_all add: d Some)
    moreover have "seg_life_step False ?s8 (?s8\<lparr>lf_stop := AllStopped\<rparr>)" by (rule stop_done) simp_all
    ultimately have "(seg_life_step False)\<^sup>*\<^sup>* ?s0 (?s8\<lparr>lf_stop := AllStopped\<rparr>)"
      using run by (meson rtranclp.rtrancl_into_rtrancl)
    then show ?thesis by (intro exI[of _ "?s8\<lparr>lf_stop := AllStopped\<rparr>"]) simp
  qed
qed

end
