(* ===== verification/E2SAR_ReceiverLife.thy ===== *)
theory E2SAR_ReceiverLife
  imports E2SAR_ReassemblerSetup E2SAR_Progress "HOL-Library.Multiset"
begin

text \<open>
  A reassembler from \<open>openAndStart\<close> to the end of \<^verbatim>\<open>stopThreads\<close> (\<^verbatim>\<open>src/e2sarDPReassembler.cpp\<close>): when
  its threads end, what they still do with their sockets, and when the worker is still reported to the control
  plane.  What the threads do with fragments is in \<open>E2SAR_Reassembly\<close>, the buffers in \<open>E2SAR_Memory\<close>.
\<close>

section \<open>State\<close>

text \<open>
  A thread is before its test of \<^verbatim>\<open>threadsStop\<close>, in its turn, or gone; \<open>NotRun\<close>: it was not started.
  The caller of \<^verbatim>\<open>stopThreads\<close> joins the reporting thread, the receive threads in order and the collector;
  between the last two it drains the event queue.
\<close>

datatype thread_at = NotRun | Test | Turn | Gone
datatype halt_at = Up | JoinReport | JoinRecv nat | JoinGc | Halted

datatype reas_use = Received nat | RecvClosed nat | Reported | Registered | Deregistered

record recv_life =
  rv_sockets :: "nat list"
  rv_at :: thread_at

record reas_life =
  rl_recv :: "recv_life list"
  rl_report :: thread_at
  rl_gc :: thread_at
  rl_halt :: halt_at
  rl_threadsStop :: bool
  rl_useCP :: bool
  rl_registered :: bool
  rl_log :: "reas_use list"

text \<open>After \<open>openAndStart\<close>, which started the threads or did not.\<close>

definition reas_life_of :: "reassembler \<Rightarrow> bool \<Rightarrow> recv_thread list \<Rightarrow> reas_life" where
  "reas_life_of r started ts =
     (let pos = (if started then Test else NotRun)
      in \<lparr>rl_recv = map (\<lambda>t. \<lparr>rv_sockets = rt_sockets t, rv_at = pos\<rparr>) ts,
          rl_report = (if rf_useCP (ra_flags r) then pos else NotRun), rl_gc = pos, rl_halt = Up, rl_threadsStop = False,
          rl_useCP = rf_useCP (ra_flags r), rl_registered = ra_registeredWorker r, rl_log = []\<rparr>)"

definition set_recv :: "nat \<Rightarrow> thread_at \<Rightarrow> reas_life \<Rightarrow> reas_life" where
  "set_recv i pos s = s\<lparr>rl_recv := (rl_recv s)[i := (rl_recv s ! i)\<lparr>rv_at := pos\<rparr>]\<rparr>"

section \<open>Steps\<close>

text \<open>
  A turn of a receive thread receives on some of its sockets, in their order; its end closes them all.  The user registers
  and deregisters the worker at any time.
\<close>

inductive reas_life_step :: "reas_life \<Rightarrow> reas_life \<Rightarrow> bool" where
  recv_look: "i < length (rl_recv s) \<Longrightarrow> rv_at (rl_recv s ! i) = Test \<Longrightarrow> \<not> rl_threadsStop s \<Longrightarrow>
    reas_life_step s (set_recv i Turn s)"
| recv_turns: "i < length (rl_recv s) \<Longrightarrow> rv_at (rl_recv s ! i) = Turn \<Longrightarrow>
    reas_life_step s ((set_recv i Test s)\<lparr>rl_log := rl_log s @ map Received (filter isset (rv_sockets (rl_recv s ! i)))\<rparr>)"
| recv_close: "i < length (rl_recv s) \<Longrightarrow> rv_at (rl_recv s ! i) = Test \<Longrightarrow> rl_threadsStop s \<Longrightarrow>
    reas_life_step s ((set_recv i Gone s)\<lparr>rl_log := rl_log s @ map RecvClosed (rv_sockets (rl_recv s ! i))\<rparr>)"
| report_look: "rl_report s = Test \<Longrightarrow> \<not> rl_threadsStop s \<Longrightarrow> reas_life_step s (s\<lparr>rl_report := Turn\<rparr>)"
| report_turn: "rl_report s = Turn \<Longrightarrow> reas_life_step s (s\<lparr>rl_report := Test, rl_log := rl_log s @ [Reported]\<rparr>)"
| report_end: "rl_report s = Test \<Longrightarrow> rl_threadsStop s \<Longrightarrow> reas_life_step s (s\<lparr>rl_report := Gone\<rparr>)"
| gc_look: "rl_gc s = Test \<Longrightarrow> \<not> rl_threadsStop s \<Longrightarrow> reas_life_step s (s\<lparr>rl_gc := Turn\<rparr>)"
| gc_turn: "rl_gc s = Turn \<Longrightarrow> reas_life_step s (s\<lparr>rl_gc := Test\<rparr>)"
| gc_end: "rl_gc s = Test \<Longrightarrow> rl_threadsStop s \<Longrightarrow> reas_life_step s (s\<lparr>rl_gc := Gone\<rparr>)"
| do_register: "rl_useCP s \<Longrightarrow> reas_life_step s (s\<lparr>rl_registered := True, rl_log := rl_log s @ [Registered]\<rparr>)"
| do_deregister: "rl_registered s \<Longrightarrow> reas_life_step s (s\<lparr>rl_registered := False, rl_log := rl_log s @ [Deregistered]\<rparr>)"
| halt_call: "rl_halt s = Up \<Longrightarrow> \<not> rl_threadsStop s \<Longrightarrow>
    reas_life_step s (s\<lparr>rl_threadsStop := True, rl_halt := (if rl_useCP s then JoinReport else JoinRecv 0)\<rparr>)"
| halt_report: "rl_halt s = JoinReport \<Longrightarrow> rl_report s \<in> {NotRun, Gone} \<Longrightarrow> reas_life_step s (s\<lparr>rl_halt := JoinRecv 0\<rparr>)"
| halt_recv: "rl_halt s = JoinRecv k \<Longrightarrow> k < length (rl_recv s) \<Longrightarrow> rv_at (rl_recv s ! k) \<in> {NotRun, Gone} \<Longrightarrow>
    reas_life_step s (s\<lparr>rl_halt := JoinRecv (Suc k)\<rparr>)"
| halt_drain: "rl_halt s = JoinRecv k \<Longrightarrow> k = length (rl_recv s) \<Longrightarrow> reas_life_step s (s\<lparr>rl_halt := JoinGc\<rparr>)"
| halt_gc: "rl_halt s = JoinGc \<Longrightarrow> rl_gc s \<in> {NotRun, Gone} \<Longrightarrow> reas_life_step s (s\<lparr>rl_halt := Halted\<rparr>)"

inductive_cases reas_life_stepE: "reas_life_step s s'"

section \<open>Invariants\<close>

fun recv_uses :: "reas_use \<Rightarrow> nat list" where
  "recv_uses (Received fd) = [fd]"
| "recv_uses (RecvClosed fd) = [fd]"
| "recv_uses _ = []"

fun recv_closes :: "reas_use \<Rightarrow> nat list" where
  "recv_closes (RecvClosed fd) = [fd]"
| "recv_closes _ = []"

definition life_fds_of :: "recv_life list \<Rightarrow> nat list" where
  "life_fds_of ts = concat (map rv_sockets ts)"

definition gone_fds :: "recv_life list \<Rightarrow> nat list" where
  "gone_fds ts = concat (map rv_sockets (filter (\<lambda>t. rv_at t = Gone) ts))"

definition still :: "thread_at \<Rightarrow> bool" where
  "still p \<longleftrightarrow> p \<in> {NotRun, Gone}"

text \<open>How many receive threads the caller of \<^verbatim>\<open>stopThreads\<close> has joined.\<close>

fun joined :: "nat \<Rightarrow> halt_at \<Rightarrow> nat" where
  "joined n (JoinRecv k) = k"
| "joined n JoinGc = n"
| "joined n Halted = n"
| "joined n _ = 0"

definition halt_threads :: "reas_life \<Rightarrow> bool" where
  "halt_threads s \<longleftrightarrow>
     rl_threadsStop s = (rl_halt s \<noteq> Up) \<and> (\<not> rl_useCP s \<longrightarrow> rl_report s = NotRun) \<and>
     (\<not> rl_threadsStop s \<longrightarrow> rl_report s \<noteq> Gone \<and> rl_gc s \<noteq> Gone) \<and>
     (rl_halt s \<notin> {Up, JoinReport} \<longrightarrow> still (rl_report s)) \<and> (rl_halt s = Halted \<longrightarrow> still (rl_gc s))"

definition halt_recvs :: "reas_life \<Rightarrow> bool" where
  "halt_recvs s \<longleftrightarrow>
     joined (length (rl_recv s)) (rl_halt s) \<le> length (rl_recv s) \<and>
     (\<forall>i<joined (length (rl_recv s)) (rl_halt s). still (rv_at (rl_recv s ! i))) \<and>
     (\<forall>i<length (rl_recv s). rv_at (rl_recv s ! i) = Gone \<longrightarrow> rl_threadsStop s)"

definition halt_socks :: "reas_life \<Rightarrow> bool" where
  "halt_socks s \<longleftrightarrow> distinct (life_fds_of (rl_recv s)) \<and> uses_open recv_uses recv_closes [] (rl_log s) \<and>
     mset (closed_by recv_closes (rl_log s)) = mset (gone_fds (rl_recv s))"

lemma set_recv_simps [simp]:
  "rl_recv (set_recv i p s) = (rl_recv s)[i := (rl_recv s ! i)\<lparr>rv_at := p\<rparr>]" "rl_report (set_recv i p s) = rl_report s"
  "rl_gc (set_recv i p s) = rl_gc s" "rl_halt (set_recv i p s) = rl_halt s"
  "rl_threadsStop (set_recv i p s) = rl_threadsStop s" "rl_useCP (set_recv i p s) = rl_useCP s"
  "rl_registered (set_recv i p s) = rl_registered s" "rl_log (set_recv i p s) = rl_log s"
  by (simp_all add: set_recv_def)

lemma still_simps [simp]: "still NotRun" "still Gone" "\<not> still Test" "\<not> still Turn"
  by (simp_all add: still_def)

lemma map_sockets_update: "map rv_sockets (ts[i := (ts ! i)\<lparr>rv_at := p\<rparr>]) = map rv_sockets ts"
  by (cases "i < length ts") (simp_all add: map_update list_update_beyond list_update_same_conv)

lemma gone_update:
  assumes "i < length ts" and "rv_at (ts ! i) \<noteq> Gone"
  shows "mset (gone_fds (ts[i := (ts ! i)\<lparr>rv_at := p\<rparr>])) = mset (gone_fds ts) + (if p = Gone then mset (rv_sockets (ts ! i)) else {#})"
  using assms
proof (induction ts arbitrary: i)
  case (Cons t ts)
  then show ?case by (cases i) (auto simp: gone_fds_def)
qed simp

lemma gone_subset: "set (gone_fds ts) \<subseteq> set (life_fds_of ts)"
  by (auto simp: gone_fds_def life_fds_of_def)

lemma other_sockets:
  assumes "distinct (life_fds_of ts)" and "i < length ts" and "rv_at (ts ! i) \<noteq> Gone"
  shows "set (rv_sockets (ts ! i)) \<inter> set (gone_fds ts) = {} \<and> distinct (rv_sockets (ts ! i))"
  using assms
proof (induction ts arbitrary: i)
  case (Cons t ts)
  show ?case
  proof (cases i)
    case 0
    then show ?thesis using Cons.prems gone_subset[of ts] by (auto simp: life_fds_of_def gone_fds_def)
  next
    case (Suc j)
    then have j: "j < length ts" "rv_at (ts ! j) \<noteq> Gone" using Cons.prems by simp_all
    have "set (rv_sockets (ts ! j)) \<subseteq> set (life_fds_of ts)" using j nth_mem by (force simp: life_fds_of_def)
    moreover have "set (rv_sockets t) \<inter> set (life_fds_of ts) = {}" "distinct (life_fds_of ts)"
      using Cons.prems(1) by (simp_all add: life_fds_of_def)
    moreover have "set (gone_fds (t # ts)) \<subseteq> set (rv_sockets t) \<union> set (gone_fds ts)" by (simp add: gone_fds_def)
    ultimately show ?thesis using Cons.IH[OF _ j] Suc by auto
  qed
qed simp

lemma halt_step_threads:
  assumes "reas_life_step s s'" and "halt_threads s"
  shows "halt_threads s' \<and> map rv_sockets (rl_recv s') = map rv_sockets (rl_recv s)"
  using assms
  by (induction rule: reas_life_step.induct) (auto simp: halt_threads_def map_sockets_update still_def)

lemma set_recv_halt_recvs:
  assumes "halt_recvs s" and "\<not> still (rv_at (rl_recv s ! i))" and "i < length (rl_recv s)" and "p = Gone \<longrightarrow> rl_threadsStop s"
  shows "halt_recvs (set_recv i p s)"
proof -
  have "i \<noteq> k" if "k < joined (length (rl_recv s)) (rl_halt s)" for k using assms(1,2) that by (auto simp: halt_recvs_def)
  then show ?thesis using assms(1,3,4) by (auto simp: halt_recvs_def nth_list_update split: if_splits)
qed

lemma halt_recvs_log [simp]: "halt_recvs (s\<lparr>rl_log := us\<rparr>) = halt_recvs s"
  by (simp add: halt_recvs_def)

lemma halt_step_recvs:
  assumes "reas_life_step s s'" and "halt_recvs s"
  shows "halt_recvs s'"
  using assms
proof (induction rule: reas_life_step.induct)
  case (recv_look i s)
  then show ?case using set_recv_halt_recvs[of s i Turn] by simp
next
  case (recv_turns i s isset)
  then show ?case using set_recv_halt_recvs[of s i Test] by simp
next
  case (recv_close i s)
  then show ?case using set_recv_halt_recvs[of s i Gone] by simp
next
  case (halt_recv s k)
  then show ?case by (auto simp: halt_recvs_def still_def less_Suc_eq)
qed (auto simp: halt_recvs_def)

lemma halt_step_socks:
  assumes "reas_life_step s s'" and "halt_socks s"
  shows "halt_socks s'"
  using assms
proof (induction rule: reas_life_step.induct)
  case (recv_look i s)
  then show ?case by (simp add: halt_socks_def life_fds_of_def map_sockets_update gone_update)
next
  case (recv_turns i s isset)
  let ?fds = "filter isset (rv_sockets (rl_recv s ! i))"
  have "set (rv_sockets (rl_recv s ! i)) \<inter> set (gone_fds (rl_recv s)) = {}"
    using other_sockets[of "rl_recv s" i] recv_turns by (simp add: halt_socks_def)
  moreover have "set (closed_by recv_closes (rl_log s)) = set (gone_fds (rl_recv s))"
    using recv_turns(3) by (metis halt_socks_def mset_eq_setD)
  ultimately have "uses_open recv_uses recv_closes (closed_by recv_closes (rl_log s)) (map Received ?fds)"
    by (intro uses_open_plain) auto
  moreover have "closed_by recv_closes (map Received ?fds) = []" by (rule closed_by_none) auto
  ultimately show ?case using recv_turns by (simp add: halt_socks_def life_fds_of_def map_sockets_update gone_update)
next
  case (recv_close i s)
  have "set (rv_sockets (rl_recv s ! i)) \<inter> set (gone_fds (rl_recv s)) = {} \<and> distinct (rv_sockets (rl_recv s ! i))"
    using other_sockets[of "rl_recv s" i] recv_close by (simp add: halt_socks_def)
  moreover have "set (closed_by recv_closes (rl_log s)) = set (gone_fds (rl_recv s))"
    using recv_close(4) by (metis halt_socks_def mset_eq_setD)
  ultimately have "uses_open recv_uses recv_closes (closed_by recv_closes (rl_log s)) (map RecvClosed (rv_sockets (rl_recv s ! i)))"
    by (subst uses_open_closes) auto
  then show ?case
    using recv_close by (simp add: halt_socks_def life_fds_of_def map_sockets_update gone_update closed_by_map)
qed (auto simp: halt_socks_def)

definition reas_life_inv :: "reas_life \<Rightarrow> bool" where
  "reas_life_inv s \<longleftrightarrow> halt_threads s \<and> halt_recvs s \<and> halt_socks s"

lemma reas_life_step_inv: "reas_life_step s s' \<Longrightarrow> reas_life_inv s \<Longrightarrow> reas_life_inv s'"
  using halt_step_threads halt_step_recvs halt_step_socks by (simp add: reas_life_inv_def)

lemma reas_life_reachable:
  assumes "reas_life_step\<^sup>*\<^sup>* s s'" and "reas_life_inv s"
  shows "reas_life_inv s' \<and> map rv_sockets (rl_recv s') = map rv_sockets (rl_recv s)"
  using assms
proof (induction rule: rtranclp_induct)
  case (step s1 s2)
  then show ?case using reas_life_step_inv[OF step.hyps(2)] halt_step_threads[OF step.hyps(2)]
    by (simp add: reas_life_inv_def)
qed simp

section \<open>Stopping\<close>

fun halt_left :: "nat \<Rightarrow> halt_at \<Rightarrow> nat" where
  "halt_left n Up = n + 4"
| "halt_left n JoinReport = n + 3"
| "halt_left n (JoinRecv k) = n - k + 2"
| "halt_left n JoinGc = 1"
| "halt_left n Halted = 0"

definition busy :: "thread_at \<Rightarrow> nat" where
  "busy p = (if still p then 0 else 1)"

definition reas_life_left :: "reas_life \<Rightarrow> nat" where
  "reas_life_left s = halt_left (length (rl_recv s)) (rl_halt s) + busy (rl_report s) + busy (rl_gc s) +
     sum_list (map (busy \<circ> rv_at) (rl_recv s))"

lemma busy_simps [simp]: "busy NotRun = 0" "busy Gone = 0" "busy Test = 1" "busy Turn = 1"
  by (simp_all add: busy_def)

lemma busy_update:
  "i < length ts \<Longrightarrow> sum_list (map (busy \<circ> rv_at) (ts[i := (ts ! i)\<lparr>rv_at := p\<rparr>])) + busy (rv_at (ts ! i)) =
     sum_list (map (busy \<circ> rv_at) ts) + busy p"
proof (induction ts arbitrary: i)
  case (Cons t ts)
  then show ?case by (cases i) (auto simp: add.assoc)
qed simp

definition halting_inv :: "reas_life \<Rightarrow> bool" where
  "halting_inv s \<longleftrightarrow> reas_life_inv s \<and> rl_halt s \<noteq> Up"

lemma halting_step:
  assumes "reas_life_step s s'" and "halting_inv s"
  shows "halting_inv s' \<and> reas_life_left s' \<le> reas_life_left s"
proof -
  have "reas_life_inv s'" using assms reas_life_step_inv by (simp add: halting_inv_def)
  moreover have "rl_halt s' \<noteq> Up \<and> reas_life_left s' \<le> reas_life_left s"
    using assms
  proof (induction rule: reas_life_step.induct)
    case (recv_look i s)
    then show ?case using busy_update[of i "rl_recv s" Turn] by (simp add: halting_inv_def reas_life_left_def)
  next
    case (recv_turns i s isset)
    then show ?case using busy_update[of i "rl_recv s" Test] by (simp add: halting_inv_def reas_life_left_def)
  next
    case (recv_close i s)
    then show ?case using busy_update[of i "rl_recv s" Gone] by (simp add: halting_inv_def reas_life_left_def)
  qed (auto simp: halting_inv_def reas_life_left_def)
  ultimately show ?thesis by (simp add: halting_inv_def)
qed

text \<open>A thread that still runs can finish its turn and see the flag.\<close>

lemma recv_can_end:
  assumes "i < length (rl_recv s)" and "\<not> still (rv_at (rl_recv s ! i))" and "rl_threadsStop s"
  shows "\<exists>s'. reas_life_step\<^sup>*\<^sup>* s s' \<and> reas_life_left s' < reas_life_left s"
proof -
  have close: "\<exists>s'. reas_life_step u s' \<and> reas_life_left s' < reas_life_left u"
    if "i < length (rl_recv u)" "rv_at (rl_recv u ! i) = Test" "rl_threadsStop u" for u
    using recv_close[OF that] busy_update[OF that(1), of Gone] that(2)
    by (intro exI[of _ "(set_recv i Gone u)\<lparr>rl_log := rl_log u @ map RecvClosed (rv_sockets (rl_recv u ! i))\<rparr>"])
      (simp add: reas_life_left_def)
  consider (test) "rv_at (rl_recv s ! i) = Test" | (turn) "rv_at (rl_recv s ! i) = Turn"
    using assms(2) by (cases "rv_at (rl_recv s ! i)") auto
  then show ?thesis
  proof cases
    case test
    then show ?thesis using close[OF assms(1) test assms(3)] by blast
  next
    case turn
    let ?u = "(set_recv i Test s)\<lparr>rl_log := rl_log s @ map Received (filter (\<lambda>_. False) (rv_sockets (rl_recv s ! i)))\<rparr>"
    have "reas_life_step s ?u" by (rule recv_turns[OF assms(1) turn])
    moreover have "reas_life_left ?u = reas_life_left s"
      using busy_update[OF assms(1), of Test] turn by (simp add: reas_life_left_def)
    moreover obtain s' where "reas_life_step ?u s'" "reas_life_left s' < reas_life_left ?u"
      using close[of ?u] assms by auto
    ultimately show ?thesis by (metis converse_rtranclp_into_rtranclp r_into_rtranclp)
  qed
qed

lemma report_can_end:
  assumes "\<not> still (rl_report s)" and "rl_threadsStop s"
  shows "\<exists>s'. reas_life_step\<^sup>*\<^sup>* s s' \<and> reas_life_left s' < reas_life_left s"
proof (cases "rl_report s")
  case Test
  have "reas_life_left (s\<lparr>rl_report := Gone\<rparr>) < reas_life_left s" by (simp add: reas_life_left_def Test)
  then show ?thesis using report_end[OF Test assms(2)] by blast
next
  case Turn
  let ?u = "s\<lparr>rl_report := Test, rl_log := rl_log s @ [Reported]\<rparr>"
  have "reas_life_step ?u (?u\<lparr>rl_report := Gone\<rparr>)" by (rule report_end) (simp_all add: assms(2))
  moreover have "reas_life_left (?u\<lparr>rl_report := Gone\<rparr>) < reas_life_left s" by (simp add: reas_life_left_def Turn)
  ultimately show ?thesis using report_turn[OF Turn] by (meson converse_rtranclp_into_rtranclp r_into_rtranclp)
qed (use assms in simp_all)

lemma gc_can_end:
  assumes "\<not> still (rl_gc s)" and "rl_threadsStop s"
  shows "\<exists>s'. reas_life_step\<^sup>*\<^sup>* s s' \<and> reas_life_left s' < reas_life_left s"
proof (cases "rl_gc s")
  case Test
  have "reas_life_left (s\<lparr>rl_gc := Gone\<rparr>) < reas_life_left s" by (simp add: reas_life_left_def Test)
  then show ?thesis using gc_end[OF Test assms(2)] by blast
next
  case Turn
  let ?u = "s\<lparr>rl_gc := Test\<rparr>"
  have "reas_life_step ?u (?u\<lparr>rl_gc := Gone\<rparr>)" by (rule gc_end) (simp_all add: assms(2))
  moreover have "reas_life_left (?u\<lparr>rl_gc := Gone\<rparr>) < reas_life_left s" by (simp add: reas_life_left_def Turn)
  ultimately show ?thesis using gc_turn[OF Turn] by (meson converse_rtranclp_into_rtranclp r_into_rtranclp)
qed (use assms in simp_all)

interpretation reas_halting: settling reas_life_step halting_inv reas_life_left "\<lambda>s. rl_halt s = Halted"
proof
  fix s
  assume inv: "halting_inv s" and "rl_halt s \<noteq> Halted"
  then have stop: "rl_threadsStop s" by (simp add: halting_inv_def reas_life_inv_def halt_threads_def)
  have now: "\<exists>s'. reas_life_step\<^sup>*\<^sup>* s s' \<and> reas_life_left s' < reas_life_left s"
    if "reas_life_step s u" "reas_life_left u < reas_life_left s" for u
    using that by blast
  consider (report) "rl_halt s = JoinReport" | (recv) k where "rl_halt s = JoinRecv k" | (gc) "rl_halt s = JoinGc"
    using inv \<open>rl_halt s \<noteq> Halted\<close> by (cases "rl_halt s") (auto simp: halting_inv_def)
  then show "\<exists>s'. reas_life_step\<^sup>*\<^sup>* s s' \<and> reas_life_left s' < reas_life_left s"
  proof cases
    case report
    show ?thesis
    proof (cases "still (rl_report s)")
      case True
      show ?thesis by (rule now[OF halt_report[OF report]]) (use True in \<open>auto simp: still_def reas_life_left_def report\<close>)
    qed (rule report_can_end[OF _ stop])
  next
    case recv
    then have "k \<le> length (rl_recv s)" using inv by (auto simp: halting_inv_def reas_life_inv_def halt_recvs_def)
    then consider "k = length (rl_recv s)" | "k < length (rl_recv s)" "still (rv_at (rl_recv s ! k))"
      | "k < length (rl_recv s)" "\<not> still (rv_at (rl_recv s ! k))" by linarith
    then show ?thesis
    proof cases
      case 1
      show ?thesis by (rule now[OF halt_drain[OF recv 1]]) (simp add: reas_life_left_def recv)
    next
      case 2
      show ?thesis
        by (rule now[OF halt_recv[OF recv 2(1)]]) (use 2 in \<open>auto simp: still_def reas_life_left_def recv\<close>)
    next
      case 3
      then show ?thesis using recv_can_end stop by blast
    qed
  next
    case gc
    show ?thesis
    proof (cases "still (rl_gc s)")
      case True
      show ?thesis by (rule now[OF halt_gc[OF gc]]) (use True in \<open>auto simp: still_def reas_life_left_def gc\<close>)
    qed (rule gc_can_end[OF _ stop])
  qed
qed (use halting_step in auto)

text \<open>The start, and what is left to happen at the end.\<close>

lemma life_fds_start: "map rv_sockets (rl_recv (reas_life_of r started ts)) = map rt_sockets ts"
  by (simp add: reas_life_of_def Let_def comp_def)

lemma reas_life_start_inv:
  assumes "distinct (concat (map rt_sockets ts))"
  shows "reas_life_inv (reas_life_of r started ts)"
proof -
  have "gone_fds (rl_recv (reas_life_of r started ts)) = []"
    by (auto simp: gone_fds_def reas_life_of_def Let_def filter_empty_conv)
  then have "halt_socks (reas_life_of r started ts)"
    using assms life_fds_start[of r started ts] by (simp add: halt_socks_def life_fds_of_def) (simp add: reas_life_of_def Let_def)
  then show ?thesis
    by (auto simp: reas_life_inv_def halt_threads_def halt_recvs_def reas_life_of_def Let_def still_def)
qed

lemma started_stays:
  assumes "reas_life_step\<^sup>*\<^sup>* s s'"
  shows "map (\<lambda>t. rv_at t = NotRun) (rl_recv s') = map (\<lambda>t. rv_at t = NotRun) (rl_recv s)"
  using assms
proof (induction rule: rtranclp_induct)
  case (step s1 s2)
  have upd: "map (\<lambda>t. rv_at t = NotRun) (ts[i := (ts ! i)\<lparr>rv_at := p\<rparr>]) = map (\<lambda>t. rv_at t = NotRun) ts"
    if "i < length ts" "rv_at (ts ! i) \<noteq> NotRun" "p \<noteq> NotRun" for ts :: "recv_life list" and i p
    using that by (intro nth_equalityI) (auto simp: nth_list_update)
  have "map (\<lambda>t. rv_at t = NotRun) (rl_recv s2) = map (\<lambda>t. rv_at t = NotRun) (rl_recv s1)"
    using step.hyps(2) by (cases rule: reas_life_step.cases) (simp_all add: upd)
  then show ?case using step.IH by simp
qed simp

lemma halted_closed:
  assumes "reas_life_step\<^sup>*\<^sup>* (reas_life_of r started ts) s" and "distinct (concat (map rt_sockets ts))" and "rl_halt s = Halted"
  shows "mset (closed_by recv_closes (rl_log s)) = (if started then mset (concat (map rt_sockets ts)) else {#})"
proof -
  note start = reas_life_start_inv[OF assms(2), of r started]
  have inv: "reas_life_inv s" and same: "map rv_sockets (rl_recv s) = map rt_sockets ts"
    using reas_life_reachable[OF assms(1) start] life_fds_start[of r started ts] by auto
  have "map (\<lambda>t. rv_at t = NotRun) (rl_recv s) = map (\<lambda>_. \<not> started) ts"
    using started_stays[OF assms(1)] by (simp add: reas_life_of_def Let_def comp_def)
  then have n: "rv_at t = NotRun \<longleftrightarrow> \<not> started" if "t \<in> set (rl_recv s)" for t
    using that by (metis (mono_tags, lifting) ex_map_conv image_eqI list.set_map)
  have "\<forall>t\<in>set (rl_recv s). still (rv_at t)"
    using inv assms(3) by (auto simp: reas_life_inv_def halt_recvs_def in_set_conv_nth)
  then have "filter (\<lambda>t. rv_at t = Gone) (rl_recv s) = (if started then rl_recv s else [])"
    using n by (auto simp: still_def filter_id_conv filter_empty_conv)
  then have "gone_fds (rl_recv s) = (if started then concat (map rt_sockets ts) else [])"
    by (simp add: gone_fds_def same)
  then show ?thesis using inv by (simp add: reas_life_inv_def halt_socks_def)
qed

lemma halted_quiet:
  assumes "reas_life_step\<^sup>*\<^sup>* s s'" and "reas_life_inv s" and "rl_halt s = Halted"
  shows "rl_halt s' = Halted \<and> (\<exists>us. rl_log s' = rl_log s @ us \<and> set us \<subseteq> {Registered, Deregistered})"
  using assms
proof (induction rule: rtranclp_induct)
  case (step s1 s2)
  then obtain us where us: "rl_log s1 = rl_log s @ us" "set us \<subseteq> {Registered, Deregistered}" "rl_halt s1 = Halted" by blast
  have inv: "reas_life_inv s1" using reas_life_reachable[OF step.hyps(1) step.prems(1)] by simp
  have recv: "rv_at (rl_recv s1 ! i) \<noteq> Test \<and> rv_at (rl_recv s1 ! i) \<noteq> Turn" if "i < length (rl_recv s1)" for i
    using inv us(3) that by (force simp: reas_life_inv_def halt_recvs_def still_def)
  have rest: "rl_report s1 \<noteq> Test" "rl_report s1 \<noteq> Turn" "rl_gc s1 \<noteq> Test" "rl_gc s1 \<noteq> Turn"
    using inv us(3) by (auto simp: reas_life_inv_def halt_threads_def still_def)
  have "rl_halt s2 = Halted \<and> (\<exists>vs. rl_log s2 = rl_log s1 @ vs \<and> set vs \<subseteq> {Registered, Deregistered})"
    using step.hyps(2) by (cases rule: reas_life_step.cases) (use recv rest us(3) in auto)
  then show ?case using us by fastforce
qed simp

text \<open>A worker deregistered before the threads stop may report itself once more.\<close>

lemma report_after_deregistration:
  assumes "rf_useCP (ra_flags r)" and "ra_registeredWorker r"
  shows "\<exists>s. reas_life_step\<^sup>*\<^sup>* (reas_life_of r True ts) s \<and> rl_log s = [Deregistered, Reported]"
proof -
  let ?s0 = "reas_life_of r True ts"
  let ?s1 = "?s0\<lparr>rl_report := Turn\<rparr>"
  let ?s2 = "?s1\<lparr>rl_registered := False, rl_log := rl_log ?s1 @ [Deregistered]\<rparr>"
  let ?s3 = "?s2\<lparr>rl_report := Test, rl_log := rl_log ?s2 @ [Reported]\<rparr>"
  note d = reas_life_of_def Let_def assms
  have "reas_life_step ?s0 ?s1" by (rule report_look) (simp_all add: d)
  moreover have "reas_life_step ?s1 ?s2" by (rule do_deregister) (simp add: d)
  moreover have "reas_life_step ?s2 ?s3" by (rule report_turn) simp
  ultimately have "reas_life_step\<^sup>*\<^sup>* ?s0 ?s3" by (meson converse_rtranclp_into_rtranclp rtranclp.rtrancl_refl)
  moreover have "rl_log ?s3 = [Deregistered, Reported]" by (simp add: d)
  ultimately show ?thesis by blast
qed

lemma reas_openAndStart_started:
  "reas_openAndStart ops r g w = (res, started, ts, g', w') \<Longrightarrow> started = (res = Ok 0)"
  by (auto simp: reas_openAndStart_def split: sum.splits prod.splits)

end
