(* ===== verification/E2SAR_Ring.thy ===== *)
theory E2SAR_Ring
  imports E2SAR_Segmenter E2SAR_Progress "HOL-Library.Multiset"
begin

text \<open>
  The memory of datagrams handed to io_uring (\<^verbatim>\<open>SendThreadState::_send\<close>, \<^verbatim>\<open>_reap\<close> and the end of
  \<^verbatim>\<open>_threadBody\<close> in \<^verbatim>\<open>src/e2sarDPSegmenter.cpp\<close>).  Each submission allocates a header, an iovec, a message header and
  the user data; they are freed when its completion is reaped, which also calls the callback of the event that
  came with the last datagram.  The kernel sends in between, from the buffer of the event, which the callback
  gives back to its owner.  What the datagrams contain is left out.
\<close>

section \<open>State\<close>

datatype block = HdrBlock | IovBlock | MsgBlock | UserBlock

text \<open>A submission: its number on the ring, the event it belongs to, and whether it is the event's last.\<close>

record sqe =
  sq_num :: nat
  sq_event :: nat
  sq_last :: bool

text \<open>
  A ring is used under its mutex: \<open>Sending n k\<close> after \<open>k\<close> of the \<open>n\<close> submissions of an event, \<open>Reaping\<close> after
  them.  The events of a ring that have datagrams are numbered in their order.  \<open>ring_flight\<close> are the submissions the
  kernel has, \<open>ring_done\<close> the completions it has posted, \<open>ring_released\<close> the events whose callback was called.
  \<open>ring_fault\<close> is a free of a block that is not allocated, \<open>ring_late\<close> a datagram sent from a buffer
  that was given back.
\<close>

datatype ring_at = RingIdle | Sending nat nat | Reaping

record uring =
  ring_at :: ring_at
  ring_events :: nat
  ring_next :: nat
  ring_flight :: "sqe list"
  ring_done :: "sqe list"
  ring_live :: "(nat \<times> block) set"
  ring_released :: "nat list"
  ring_fault :: bool
  ring_late :: bool

record ring_state =
  rg_rings :: "uring list"
  rg_outstandingSends :: u32
  rg_draining :: bool

definition ring_new :: uring where
  "ring_new = \<lparr>ring_at = RingIdle, ring_events = 0, ring_next = 0, ring_flight = [], ring_done = [], ring_live = {},
     ring_released = [], ring_fault = False, ring_late = False\<rparr>"

definition ring_initial :: "nat \<Rightarrow> ring_state" where
  "ring_initial n = \<lparr>rg_rings = replicate n ring_new, rg_outstandingSends = 0, rg_draining = False\<rparr>"

section \<open>Operations on one ring\<close>

definition cqeBatchSize :: nat where
  "cqeBatchSize = 100"

definition sqe_blocks :: "nat \<Rightarrow> (nat \<times> block) set" where
  "sqe_blocks i = {(i, HdrBlock), (i, IovBlock), (i, MsgBlock), (i, UserBlock)}"

definition ring_begin :: "nat \<Rightarrow> uring \<Rightarrow> uring" where
  "ring_begin n u = u\<lparr>ring_at := Sending n 0, ring_events := (if n = 0 then ring_events u else Suc (ring_events u))\<rparr>"

text \<open>One pass of the loop of \<^verbatim>\<open>_send\<close>: allocate, fill in, submit.\<close>

definition ring_submit :: "nat \<Rightarrow> nat \<Rightarrow> uring \<Rightarrow> uring" where
  "ring_submit n k u =
     u\<lparr>ring_at := Sending n (Suc k), ring_next := Suc (ring_next u),
       ring_flight := ring_flight u @ [\<lparr>sq_num = ring_next u, sq_event = ring_events u - 1, sq_last = (Suc k = n)\<rparr>],
       ring_live := ring_live u \<union> sqe_blocks (ring_next u)\<rparr>"

text \<open>The kernel sends a datagram; it must not read the buffer of an event that was given back.\<close>

definition ring_complete :: "sqe list \<Rightarrow> sqe \<Rightarrow> sqe list \<Rightarrow> uring \<Rightarrow> uring" where
  "ring_complete xs x ys u =
     u\<lparr>ring_flight := xs @ ys, ring_done := ring_done u @ [x],
       ring_late := (ring_late u \<or> sq_event x \<in> set (ring_released u))\<rparr>"

definition free_block :: "nat \<times> block \<Rightarrow> uring \<Rightarrow> uring" where
  "free_block b u = (if b \<in> ring_live u then u\<lparr>ring_live := ring_live u - {b}\<rparr> else u\<lparr>ring_fault := True\<rparr>)"

text \<open>A completion: the blocks of the submission are freed, then the callback that came with it is called.\<close>

definition reap_sqe :: "sqe \<Rightarrow> uring \<Rightarrow> uring" where
  "reap_sqe x u =
     (let i = sq_num x; u1 = fold free_block [(i, HdrBlock), (i, IovBlock), (i, MsgBlock), (i, UserBlock)] u
      in if sq_last x then u1\<lparr>ring_released := ring_released u1 @ [sq_event x]\<rparr> else u1)"

definition ring_reap :: "sqe list \<Rightarrow> sqe list \<Rightarrow> uring \<Rightarrow> uring" where
  "ring_reap xs ys u = (fold reap_sqe xs u)\<lparr>ring_done := ys\<rparr>"

section \<open>Steps\<close>

definition set_ring :: "nat \<Rightarrow> uring \<Rightarrow> ring_state \<Rightarrow> ring_state" where
  "set_ring r u s = s\<lparr>rg_rings := (rg_rings s)[r := u]\<rparr>"

text \<open>
  The threads of the pool use the rings, one thread a ring at a time; the send thread reaps from all rings when its pool
  has ended (\<open>rg_draining\<close>).  With \<open>inorder\<close> the kernel completes the submissions of a ring in their order,
  which it need not do.
\<close>

inductive ring_step :: "bool \<Rightarrow> ring_state \<Rightarrow> ring_state \<Rightarrow> bool" for inorder :: bool where
  rs_begin: "r < length (rg_rings s) \<Longrightarrow> ring_at (rg_rings s ! r) = RingIdle \<Longrightarrow> \<not> rg_draining s \<Longrightarrow>
    ring_step inorder s (set_ring r (ring_begin n (rg_rings s ! r)) s)"
| rs_submit: "r < length (rg_rings s) \<Longrightarrow> ring_at (rg_rings s ! r) = Sending n k \<Longrightarrow> k < n \<Longrightarrow>
    ring_step inorder s (set_ring r (ring_submit n k (rg_rings s ! r)) s)"
| rs_sent: "r < length (rg_rings s) \<Longrightarrow> ring_at (rg_rings s ! r) = Sending n k \<Longrightarrow> k = n \<Longrightarrow>
    ring_step inorder s ((set_ring r ((rg_rings s ! r)\<lparr>ring_at := Reaping\<rparr>) s)
      \<lparr>rg_outstandingSends := rg_outstandingSends s + word_of_nat n\<rparr>)"
| rs_complete: "r < length (rg_rings s) \<Longrightarrow> ring_flight (rg_rings s ! r) = xs @ x # ys \<Longrightarrow> inorder \<longrightarrow> xs = [] \<Longrightarrow>
    ring_step inorder s (set_ring r (ring_complete xs x ys (rg_rings s ! r)) s)"
| rs_reap: "r < length (rg_rings s) \<Longrightarrow> ring_at (rg_rings s ! r) = Reaping \<or> rg_draining s \<and> 0 < rg_outstandingSends s \<Longrightarrow>
    ring_done (rg_rings s ! r) = xs @ ys \<Longrightarrow> xs \<noteq> [] \<Longrightarrow> length xs \<le> cqeBatchSize \<Longrightarrow>
    ring_step inorder s ((set_ring r (ring_reap xs ys (rg_rings s ! r)) s)
      \<lparr>rg_outstandingSends := rg_outstandingSends s - word_of_nat (length xs)\<rparr>)"
| rs_leave: "r < length (rg_rings s) \<Longrightarrow> ring_at (rg_rings s ! r) = Reaping \<Longrightarrow> ring_done (rg_rings s ! r) = [] \<Longrightarrow>
    ring_step inorder s (set_ring r ((rg_rings s ! r)\<lparr>ring_at := RingIdle\<rparr>) s)"
| rs_drain: "\<not> rg_draining s \<Longrightarrow> \<forall>u\<in>set (rg_rings s). ring_at u = RingIdle \<Longrightarrow>
    ring_step inorder s (s\<lparr>rg_draining := True\<rparr>)"

inductive_cases ring_stepE: "ring_step inorder s s'"

section \<open>Invariants of a ring\<close>

definition ring_entries :: "uring \<Rightarrow> sqe list" where
  "ring_entries u = ring_done u @ ring_flight u"

text \<open>The blocks allocated are those of the submissions that were not reaped yet.\<close>

definition ring_mem :: "uring \<Rightarrow> bool" where
  "ring_mem u \<longleftrightarrow> \<not> ring_fault u \<and> distinct (map sq_num (ring_entries u)) \<and>
     (\<forall>x\<in>set (ring_entries u). sq_num x < ring_next u) \<and> ring_live u = (\<Union>x\<in>set (ring_entries u). sqe_blocks (sq_num x))"

text \<open>With completions in order, the last datagram of an event is the last that is looked at.\<close>

fun lasts_last :: "sqe list \<Rightarrow> bool" where
  "lasts_last [] = True"
| "lasts_last (x # xs) = ((sq_last x \<longrightarrow> (\<forall>y\<in>set xs. sq_event y \<noteq> sq_event x)) \<and> lasts_last xs)"

definition ring_ordered :: "uring \<Rightarrow> bool" where
  "ring_ordered u \<longleftrightarrow> \<not> ring_late u \<and> lasts_last (ring_entries u) \<and>
     (\<forall>x\<in>set (ring_entries u). sq_event x < ring_events u \<and> sq_event x \<notin> set (ring_released u)) \<and>
     (\<forall>e\<in>set (ring_released u). e < ring_events u) \<and>
     (\<forall>n k. ring_at u = Sending n k \<and> k < n \<longrightarrow> 0 < ring_events u \<and> ring_events u - 1 \<notin> set (ring_released u) \<and>
        (\<forall>x\<in>set (ring_entries u). sq_last x \<longrightarrow> sq_event x \<noteq> ring_events u - 1))"

text \<open>The events that were submitted completely: their callbacks are called, or come with a submission.\<close>

definition ring_sent :: "uring \<Rightarrow> nat" where
  "ring_sent u = (case ring_at u of Sending n k \<Rightarrow> if k < n then ring_events u - 1 else ring_events u | _ \<Rightarrow> ring_events u)"

definition ring_callbacks :: "uring \<Rightarrow> bool" where
  "ring_callbacks u \<longleftrightarrow> mset (ring_released u @ map sq_event (filter sq_last (ring_entries u))) = mset [0..<ring_sent u] \<and>
     (\<forall>n k. ring_at u = Sending n k \<and> k < n \<longrightarrow> 0 < ring_events u)"

lemma lasts_last_append:
  "lasts_last (xs @ ys) \<longleftrightarrow> lasts_last xs \<and> lasts_last ys \<and> (\<forall>x\<in>set xs. sq_last x \<longrightarrow> (\<forall>y\<in>set ys. sq_event y \<noteq> sq_event x))"
  by (induction xs) auto

lemma sqe_blocks_disjoint: "sqe_blocks i \<inter> sqe_blocks j = (if i = j then sqe_blocks i else {})"
  by (auto simp: sqe_blocks_def)

lemma reap_sqe_live:
  assumes "sqe_blocks (sq_num x) \<subseteq> ring_live u"
  shows "reap_sqe x u = u\<lparr>ring_live := ring_live u - sqe_blocks (sq_num x),
    ring_released := (if sq_last x then ring_released u @ [sq_event x] else ring_released u)\<rparr>"
proof -
  let ?i = "sq_num x"
  have "ring_live u - {(?i, HdrBlock)} - {(?i, IovBlock)} - {(?i, MsgBlock)} - {(?i, UserBlock)} = ring_live u - sqe_blocks ?i"
    by (auto simp: sqe_blocks_def)
  then show ?thesis
    using assms by (simp add: reap_sqe_def free_block_def sqe_blocks_def Let_def)
qed

lemma fold_reap:
  assumes "distinct (map sq_num xs)" and "(\<Union>x\<in>set xs. sqe_blocks (sq_num x)) \<subseteq> ring_live u"
  shows "fold reap_sqe xs u = u\<lparr>ring_live := ring_live u - (\<Union>x\<in>set xs. sqe_blocks (sq_num x)),
    ring_released := ring_released u @ map sq_event (filter sq_last xs)\<rparr>"
  using assms
proof (induction xs arbitrary: u)
  case Nil
  then show ?case by simp
next
  case (Cons x xs)
  have "sq_num y \<noteq> sq_num x" if "y \<in> set xs" for y
    using Cons.prems(1) that by (metis distinct.simps(2) image_eqI list.map(2) list.set_map)
  then have sep: "sqe_blocks (sq_num y) \<inter> sqe_blocks (sq_num x) = {}" if "y \<in> set xs" for y
    using that by (simp add: sqe_blocks_disjoint)
  have x: "sqe_blocks (sq_num x) \<subseteq> ring_live u" and xs: "(\<Union>y\<in>set xs. sqe_blocks (sq_num y)) \<subseteq> ring_live u"
    using Cons.prems(2) by auto
  have "(\<Union>y\<in>set xs. sqe_blocks (sq_num y)) \<subseteq> ring_live u - sqe_blocks (sq_num x)"
    using xs sep by blast
  then have *: "fold reap_sqe xs (reap_sqe x u) = (reap_sqe x u)
      \<lparr>ring_live := ring_live (reap_sqe x u) - (\<Union>y\<in>set xs. sqe_blocks (sq_num y)),
       ring_released := ring_released (reap_sqe x u) @ map sq_event (filter sq_last xs)\<rparr>"
    using Cons.prems(1) by (intro Cons.IH) (simp_all add: reap_sqe_live [OF x])
  have live: "ring_live u - sqe_blocks (sq_num x) - (\<Union>y\<in>set xs. sqe_blocks (sq_num y))
      = ring_live u - (\<Union>y\<in>set (x # xs). sqe_blocks (sq_num y))" by auto
  have "fold reap_sqe (x # xs) u = u
      \<lparr>ring_live := ring_live u - sqe_blocks (sq_num x) - (\<Union>y\<in>set xs. sqe_blocks (sq_num y)),
       ring_released := ring_released u @ map sq_event (filter sq_last (x # xs))\<rparr>"
    unfolding fold.simps o_apply * by (simp add: reap_sqe_live [OF x])
  then show ?case unfolding live .
qed

lemma ring_at_free [simp]: "ring_at (free_block b u) = ring_at u"
  by (simp add: free_block_def)

lemma ring_at_reap_sqe [simp]: "ring_at (reap_sqe x u) = ring_at u"
  by (simp add: reap_sqe_def Let_def)

lemma ring_at_fold_reap: "ring_at (fold reap_sqe xs u) = ring_at u"
  by (induction xs arbitrary: u) simp_all

lemma ring_at_simps [simp]:
  "ring_at (ring_begin n u) = Sending n 0" "ring_at (ring_submit n k u) = Sending n (Suc k)"
  "ring_at (ring_complete xs x ys u) = ring_at u" "ring_at (ring_reap xs ys u) = ring_at u"
  by (simp_all add: ring_begin_def ring_submit_def ring_complete_def ring_reap_def ring_at_fold_reap)

lemma ring_flight_fold_reap: "ring_flight (fold reap_sqe xs u) = ring_flight u"
  by (induction xs arbitrary: u) (simp_all add: reap_sqe_def free_block_def Let_def)

lemma ring_reap_lists [simp]:
  "ring_flight (ring_reap xs ys u) = ring_flight u" "ring_done (ring_reap xs ys u) = ys"
  by (simp_all add: ring_reap_def ring_flight_fold_reap)

section \<open>What every ring keeps\<close>

text \<open>
  What the operations on a ring promise: each keeps \<open>P\<close>.  A ring that is reaped is not being
  submitted to.
\<close>

locale ring_kept =
  fixes P :: "uring \<Rightarrow> bool" and inorder :: bool
  assumes kept_new: "P ring_new"
    and kept_at: "P u \<Longrightarrow> ring_at u \<in> {Sending n n, Reaping} \<Longrightarrow> a \<in> {RingIdle, Reaping} \<Longrightarrow> P (u\<lparr>ring_at := a\<rparr>)"
    and kept_begin: "P u \<Longrightarrow> ring_at u = RingIdle \<Longrightarrow> P (ring_begin n u)"
    and kept_submit: "P u \<Longrightarrow> ring_at u = Sending n k \<Longrightarrow> k < n \<Longrightarrow> P (ring_submit n k u)"
    and kept_complete: "P u \<Longrightarrow> ring_flight u = xs @ x # ys \<Longrightarrow> (inorder \<longrightarrow> xs = []) \<Longrightarrow> P (ring_complete xs x ys u)"
    and kept_reap: "P u \<Longrightarrow> ring_at u \<in> {RingIdle, Reaping} \<Longrightarrow> ring_done u = xs @ ys \<Longrightarrow> P (ring_reap xs ys u)"
begin

definition all_kept :: "ring_state \<Rightarrow> bool" where
  "all_kept s \<longleftrightarrow> (\<forall>u\<in>set (rg_rings s). P u) \<and> (rg_draining s \<longrightarrow> (\<forall>u\<in>set (rg_rings s). ring_at u = RingIdle))"

lemma all_kept_set_ring:
  assumes "all_kept s" and "P u" and "rg_draining s \<longrightarrow> ring_at u = RingIdle"
  shows "all_kept (set_ring r u s)"
  using assms set_update_subset_insert[of "rg_rings s" r u] by (auto simp: all_kept_def set_ring_def)

lemma all_kept_sends [simp]: "all_kept (s\<lparr>rg_outstandingSends := w\<rparr>) = all_kept s"
  by (simp add: all_kept_def)

lemma all_kept_step:
  assumes "ring_step inorder s s'" and "all_kept s"
  shows "all_kept s'"
proof -
  have P: "P (rg_rings s ! r)" "rg_draining s \<Longrightarrow> ring_at (rg_rings s ! r) = RingIdle" if "r < length (rg_rings s)" for r
    using assms(2) that by (auto simp: all_kept_def)
  from assms(1) show ?thesis
  proof cases
    case (rs_begin r n)
    with P[of r] assms(2) show ?thesis by (auto intro!: all_kept_set_ring kept_begin)
  next
    case (rs_submit r n k)
    with P[of r] assms(2) show ?thesis by (auto intro!: all_kept_set_ring kept_submit)
  next
    case (rs_sent r n k)
    with P[of r] assms(2) show ?thesis by (auto intro!: all_kept_set_ring kept_at)
  next
    case (rs_complete r xs x ys)
    with P[of r] assms(2) show ?thesis by (auto intro!: all_kept_set_ring kept_complete)
  next
    case (rs_reap r xs ys)
    with P[of r] assms(2) show ?thesis by (auto intro!: all_kept_set_ring kept_reap)
  next
    case (rs_leave r)
    with P[of r] assms(2) show ?thesis by (auto intro!: all_kept_set_ring kept_at)
  next
    case rs_drain
    with assms(2) show ?thesis by (auto simp: all_kept_def)
  qed
qed

lemma reachable_kept:
  assumes "(ring_step inorder)\<^sup>*\<^sup>* (ring_initial n) s"
  shows "all_kept s"
  using assms
proof (induction rule: rtranclp_induct)
  case base
  show ?case by (simp add: all_kept_def ring_initial_def kept_new)
qed (rule all_kept_step)

end

lemma ring_mem_reap:
  assumes "ring_mem u" and "ring_done u = xs @ ys"
  shows "ring_reap xs ys u = u\<lparr>ring_live := (\<Union>x\<in>set (ys @ ring_flight u). sqe_blocks (sq_num x)),
    ring_released := ring_released u @ map sq_event (filter sq_last xs), ring_done := ys\<rparr>"
proof -
  have d: "distinct (map sq_num (xs @ ys @ ring_flight u))"
    and live: "ring_live u = (\<Union>x\<in>set (xs @ ys @ ring_flight u). sqe_blocks (sq_num x))"
    using assms by (simp_all add: ring_mem_def ring_entries_def)
  have "sqe_blocks (sq_num x) \<inter> sqe_blocks (sq_num y) = {}" if "x \<in> set xs" "y \<in> set (ys @ ring_flight u)" for x y
    using d that by (force simp: sqe_blocks_disjoint)
  then have "ring_live u - (\<Union>x\<in>set xs. sqe_blocks (sq_num x)) = (\<Union>x\<in>set (ys @ ring_flight u). sqe_blocks (sq_num x))"
    unfolding live by fastforce
  moreover have "fold reap_sqe xs u = u\<lparr>ring_live := ring_live u - (\<Union>x\<in>set xs. sqe_blocks (sq_num x)),
      ring_released := ring_released u @ map sq_event (filter sq_last xs)\<rparr>"
    using d live by (intro fold_reap) auto
  ultimately show ?thesis by (simp add: ring_reap_def)
qed

lemma ring_entries_simps [simp]:
  "ring_entries (u\<lparr>ring_at := a\<rparr>) = ring_entries u" "ring_entries (ring_begin n u) = ring_entries u"
  "ring_entries (ring_submit n k u) =
     ring_entries u @ [\<lparr>sq_num = ring_next u, sq_event = ring_events u - 1, sq_last = (Suc k = n)\<rparr>]"
  by (simp_all add: ring_entries_def ring_begin_def ring_submit_def)

lemma ring_mem_begin: "ring_mem u \<Longrightarrow> ring_mem (ring_begin n u)"
  by (simp add: ring_mem_def ring_entries_def ring_begin_def)

lemma ring_mem_submit:
  assumes "ring_mem u"
  shows "ring_mem (ring_submit n k u)"
proof -
  have less: "sq_num x < ring_next u" if "x \<in> set (ring_entries u)" for x
    using assms that by (simp add: ring_mem_def)
  then have "ring_next u \<notin> sq_num ` set (ring_entries u)" by (auto dest: less)
  moreover have "ring_live (ring_submit n k u) = (\<Union>x\<in>set (ring_entries u). sqe_blocks (sq_num x)) \<union> sqe_blocks (ring_next u)"
    "ring_next (ring_submit n k u) = Suc (ring_next u)" "\<not> ring_fault (ring_submit n k u)"
    using assms by (simp_all add: ring_mem_def ring_submit_def)
  ultimately show ?thesis
    using assms less by (simp add: ring_mem_def less_SucI Un_commute)
qed

lemma ring_ordered_begin:
  assumes "ring_ordered u"
  shows "ring_ordered (ring_begin n u)"
proof -
  have "\<not> ring_late u" "lasts_last (ring_entries u)" and r: "\<forall>e\<in>set (ring_released u). e < ring_events u"
    and x: "\<forall>x\<in>set (ring_entries u). sq_event x < ring_events u \<and> sq_event x \<notin> set (ring_released u)"
    using assms unfolding ring_ordered_def by blast+
  moreover have "ring_events u \<notin> set (ring_released u)" using r by auto
  moreover have "\<forall>x\<in>set (ring_entries u). sq_event x \<noteq> ring_events u" using x by auto
  moreover have "ring_events (ring_begin n u) = (if n = 0 then ring_events u else Suc (ring_events u))"
    "ring_released (ring_begin n u) = ring_released u" "ring_late (ring_begin n u) = ring_late u"
    by (simp_all add: ring_begin_def)
  ultimately show ?thesis by (simp add: ring_ordered_def less_SucI)
qed

lemma ring_ordered_submit:
  assumes "ring_ordered u" and "ring_at u = Sending n k" and "k < n"
  shows "ring_ordered (ring_submit n k u)"
proof -
  let ?e = "ring_events u - 1"
  have cur: "0 < ring_events u" "?e \<notin> set (ring_released u)" "\<forall>x\<in>set (ring_entries u). sq_last x \<longrightarrow> sq_event x \<noteq> ?e"
    using assms unfolding ring_ordered_def by blast+
  have "\<not> ring_late u" "lasts_last (ring_entries u)" "\<forall>e\<in>set (ring_released u). e < ring_events u"
    "\<forall>x\<in>set (ring_entries u). sq_event x < ring_events u \<and> sq_event x \<notin> set (ring_released u)"
    using assms(1) unfolding ring_ordered_def by blast+
  moreover have "lasts_last (ring_entries (ring_submit n k u))"
    using calculation(2) cur(3) by (fastforce simp: lasts_last_append)
  moreover have "ring_events (ring_submit n k u) = ring_events u" "ring_released (ring_submit n k u) = ring_released u"
    "ring_late (ring_submit n k u) = ring_late u"
    by (simp_all add: ring_submit_def)
  ultimately show ?thesis using cur assms(3) by (simp add: ring_ordered_def)
qed

interpretation ring_memory_kept: ring_kept ring_mem inorder for inorder
proof
  show "ring_mem ring_new" by (simp add: ring_mem_def ring_new_def ring_entries_def)
next
  fix u a
  assume "ring_mem u"
  then show "ring_mem (u\<lparr>ring_at := a\<rparr>)" by (simp add: ring_mem_def ring_entries_def)
next
  fix u n
  assume "ring_mem u"
  then show "ring_mem (ring_begin n u)" by (rule ring_mem_begin)
next
  fix u n k
  assume "ring_mem u"
  then show "ring_mem (ring_submit n k u)" by (rule ring_mem_submit)
next
  fix u xs x ys
  assume "ring_mem u" "ring_flight u = xs @ x # ys"
  then show "ring_mem (ring_complete xs x ys u)"
    by (auto simp: ring_mem_def ring_entries_def ring_complete_def)
next
  fix u xs ys
  assume "ring_mem u" "ring_done u = xs @ ys"
  then show "ring_mem (ring_reap xs ys u)"
    by (simp add: ring_mem_reap) (auto simp: ring_mem_def ring_entries_def)
qed

interpretation ring_order_kept: ring_kept "\<lambda>u. ring_mem u \<and> ring_ordered u" True
proof
  show "ring_mem ring_new \<and> ring_ordered ring_new"
    using ring_memory_kept.kept_new by (simp add: ring_ordered_def ring_new_def ring_entries_def)
next
  fix u a n
  assume "ring_mem u \<and> ring_ordered u" "ring_at u \<in> {Sending n n, Reaping}" "a \<in> {RingIdle, Reaping}"
  then show "ring_mem (u\<lparr>ring_at := a\<rparr>) \<and> ring_ordered (u\<lparr>ring_at := a\<rparr>)"
    using ring_memory_kept.kept_at[of u n a] by (auto simp: ring_ordered_def ring_entries_def)
next
  fix u n
  assume "ring_mem u \<and> ring_ordered u"
  then show "ring_mem (ring_begin n u) \<and> ring_ordered (ring_begin n u)"
    using ring_mem_begin ring_ordered_begin by blast
next
  fix u n k
  assume "ring_mem u \<and> ring_ordered u" "ring_at u = Sending n k" "k < n"
  then show "ring_mem (ring_submit n k u) \<and> ring_ordered (ring_submit n k u)"
    using ring_mem_submit ring_ordered_submit by blast
next
  fix u xs x ys
  assume "ring_mem u \<and> ring_ordered u" "ring_flight u = xs @ x # ys" "True \<longrightarrow> xs = []"
  then show "ring_mem (ring_complete xs x ys u) \<and> ring_ordered (ring_complete xs x ys u)"
    using ring_memory_kept.kept_complete[of u xs x ys False] by (simp add: ring_ordered_def ring_entries_def ring_complete_def)
next
  fix u xs ys
  assume *: "ring_mem u \<and> ring_ordered u" "ring_at u \<in> {RingIdle, Reaping}" "ring_done u = xs @ ys"
  then show "ring_mem (ring_reap xs ys u) \<and> ring_ordered (ring_reap xs ys u)"
    using ring_memory_kept.kept_reap[of u xs ys]
    by (auto simp: ring_mem_reap ring_ordered_def ring_entries_def lasts_last_append)
qed

lemma ring_complete_same:
  "ring_flight u = xs @ x # ys \<Longrightarrow> mset (ring_entries (ring_complete xs x ys u)) = mset (ring_entries u)"
  "ring_released (ring_complete xs x ys u) = ring_released u" "ring_events (ring_complete xs x ys u) = ring_events u"
  "ring_flight (ring_complete xs x ys u) = xs @ ys" "ring_done (ring_complete xs x ys u) = ring_done u @ [x]"
  by (simp_all add: ring_complete_def ring_entries_def)

lemma ring_sent_complete: "ring_sent (ring_complete xs x ys u) = ring_sent u"
  by (cases "ring_at u") (simp_all add: ring_sent_def ring_complete_same)

interpretation ring_callback_kept: ring_kept "\<lambda>u. ring_mem u \<and> ring_callbacks u" inorder for inorder
proof
  show "ring_mem ring_new \<and> ring_callbacks ring_new"
    using ring_memory_kept.kept_new by (simp add: ring_callbacks_def ring_sent_def ring_new_def ring_entries_def)
next
  fix u a n
  assume "ring_mem u \<and> ring_callbacks u" "ring_at u \<in> {Sending n n, Reaping}" "a \<in> {RingIdle, Reaping}"
  then show "ring_mem (u\<lparr>ring_at := a\<rparr>) \<and> ring_callbacks (u\<lparr>ring_at := a\<rparr>)"
    using ring_memory_kept.kept_at[of u n a] by (auto simp: ring_callbacks_def ring_sent_def)
next
  fix u xs x ys
  assume "ring_mem u \<and> ring_callbacks u" "ring_flight u = xs @ x # ys"
  then show "ring_mem (ring_complete xs x ys u) \<and> ring_callbacks (ring_complete xs x ys u)"
    using ring_memory_kept.kept_complete[of u xs x ys False]
    by (simp add: ring_callbacks_def ring_complete_same ring_sent_complete)
next
  fix u xs ys
  assume *: "ring_mem u \<and> ring_callbacks u" "ring_at u \<in> {RingIdle, Reaping}" "ring_done u = xs @ ys"
  then have "ring_mem (ring_reap xs ys u)" using ring_memory_kept.kept_reap by blast
  moreover have "ring_callbacks (ring_reap xs ys u)"
    using * by (auto simp: ring_mem_reap ring_callbacks_def ring_sent_def ring_entries_def)
  ultimately show "ring_mem (ring_reap xs ys u) \<and> ring_callbacks (ring_reap xs ys u)" ..
next
  fix u n
  assume "ring_mem u \<and> ring_callbacks u" "ring_at u = RingIdle"
  then show "ring_mem (ring_begin n u) \<and> ring_callbacks (ring_begin n u)"
    using ring_mem_begin[of u n] by (simp add: ring_callbacks_def ring_sent_def) (simp add: ring_begin_def)
next
  fix u n k
  assume *: "ring_mem u \<and> ring_callbacks u" "ring_at u = Sending n k" "k < n"
  then have "0 < ring_events u" by (simp add: ring_callbacks_def)
  then obtain e where e: "ring_events u = Suc e" by (cases "ring_events u") auto
  have "ring_released (ring_submit n k u) = ring_released u" "ring_events (ring_submit n k u) = ring_events u"
    by (simp_all add: ring_submit_def)
  then have "ring_callbacks (ring_submit n k u)"
    using * e by (cases "Suc k = n") (simp_all add: ring_callbacks_def ring_sent_def atLeast0_lessThan_Suc)
  then show "ring_mem (ring_submit n k u) \<and> ring_callbacks (ring_submit n k u)"
    using ring_mem_submit * by blast
qed

section \<open>The number of outstanding submissions\<close>

text \<open>\<^verbatim>\<open>outstandingSends\<close> counts the submissions of an event after the last of them was submitted.\<close>

definition ring_counted :: "uring \<Rightarrow> u32" where
  "ring_counted u = word_of_nat (length (ring_entries u)) - (case ring_at u of Sending n k \<Rightarrow> word_of_nat k | _ \<Rightarrow> 0)"

definition sends_counted :: "ring_state \<Rightarrow> bool" where
  "sends_counted s \<longleftrightarrow> rg_outstandingSends s = sum_list (map ring_counted (rg_rings s))"

lemma set_ring_outstandingSends [simp]: "rg_outstandingSends (set_ring r u s) = rg_outstandingSends s"
  by (simp add: set_ring_def)

lemma sum_list_set_ring:
  "r < length (rg_rings s) \<Longrightarrow>
     sum_list (map ring_counted (rg_rings (set_ring r u s))) = sum_list (map ring_counted (rg_rings s)) + (ring_counted u - ring_counted (rg_rings s ! r))"
  for u :: uring
proof -
  have "sum_list (map f (xs[r := u])) = sum_list (map f xs) + (f u - f (xs ! r))" if "r < length xs" for f :: "uring \<Rightarrow> u32" and xs
    using that by (induction xs arbitrary: r) (auto split: nat.splits)
  then show "r < length (rg_rings s) \<Longrightarrow> ?thesis" by (simp add: set_ring_def)
qed

lemma sends_counted_step:
  assumes "ring_step inorder s s'" and "sends_counted s"
  shows "sends_counted s'"
  using assms
proof cases
  case (rs_begin r n)
  then show ?thesis using assms(2) by (simp add: sends_counted_def sum_list_set_ring ring_counted_def)
next
  case (rs_submit r n k)
  then show ?thesis using assms(2) by (simp add: sends_counted_def sum_list_set_ring ring_counted_def)
next
  case (rs_sent r n k)
  then show ?thesis using assms(2) by (simp add: sends_counted_def sum_list_set_ring ring_counted_def)
next
  case (rs_complete r xs x ys)
  then show ?thesis using assms(2)
    by (simp add: sends_counted_def sum_list_set_ring ring_counted_def mset_eq_length [OF ring_complete_same(1)])
next
  case (rs_reap r xs ys)
  then show ?thesis using assms(2)
    by (simp add: sends_counted_def sum_list_set_ring ring_counted_def ring_entries_def)
next
  case (rs_leave r)
  then show ?thesis using assms(2) by (simp add: sends_counted_def sum_list_set_ring ring_counted_def)
next
  case rs_drain
  then show ?thesis using assms(2) by (simp add: sends_counted_def)
qed

lemma reachable_sends_counted:
  assumes "(ring_step inorder)\<^sup>*\<^sup>* (ring_initial n) s"
  shows "sends_counted s"
  using assms
proof (induction rule: rtranclp_induct)
  case base
  show ?case by (simp add: sends_counted_def ring_initial_def sum_list_replicate ring_counted_def ring_new_def ring_entries_def)
qed (rule sends_counted_step)

section \<open>The end: what is outstanding is reaped\<close>

definition ring_total :: "ring_state \<Rightarrow> nat" where
  "ring_total s = sum_list (map (\<lambda>u. length (ring_entries u)) (rg_rings s))"

definition ring_left :: "ring_state \<Rightarrow> nat" where
  "ring_left s = sum_list (map (\<lambda>u. 2 * length (ring_flight u) + length (ring_done u)) (rg_rings s))"

definition draining_inv :: "ring_state \<Rightarrow> bool" where
  "draining_inv s \<longleftrightarrow> rg_draining s \<and> (\<forall>u\<in>set (rg_rings s). ring_at u = RingIdle) \<and> sends_counted s \<and> ring_total s < 2 ^ 32"

lemma draining_outstandingSends:
  assumes "draining_inv s"
  shows "unat (rg_outstandingSends s) = ring_total s"
proof -
  have "sum_list (map ring_counted us) = word_of_nat (sum_list (map (\<lambda>u. length (ring_entries u)) us))"
    if "\<forall>u\<in>set us. ring_at u = RingIdle" for us
    using that by (induction us) (simp_all add: ring_counted_def)
  then show ?thesis
    using assms by (simp add: draining_inv_def sends_counted_def ring_total_def unsigned_of_nat take_bit_nat_eq_self)
qed

lemma sum_list_set_less:
  fixes f :: "uring \<Rightarrow> nat"
  assumes "r < length us" and "f u < f (us ! r)"
  shows "sum_list (map f (us[r := u])) < sum_list (map f us)"
  using assms by (induction us arbitrary: r) (auto split: nat.splits)

lemma sum_list_set_le:
  fixes f :: "uring \<Rightarrow> nat"
  assumes "r < length us" and "f u \<le> f (us ! r)"
  shows "sum_list (map f (us[r := u])) \<le> sum_list (map f us)"
  using assms by (induction us arbitrary: r) (auto split: nat.splits)

lemma draining_step:
  assumes "ring_step inorder s s'" and "draining_inv s"
  shows "draining_inv s' \<and> ring_left s' < ring_left s"
proof -
  have counted: "sends_counted s'" using assms sends_counted_step by (simp add: draining_inv_def)
  have idle: "ring_at (rg_rings s ! r) = RingIdle" if "r < length (rg_rings s)" for r
    using assms(2) that by (simp add: draining_inv_def)
  have *: ?thesis if "s' = s\<lparr>rg_rings := (rg_rings s)[r := u], rg_outstandingSends := w\<rparr>" "r < length (rg_rings s)"
    "ring_at u = RingIdle" "length (ring_entries u) \<le> length (ring_entries (rg_rings s ! r))"
    "2 * length (ring_flight u) + length (ring_done u) < 2 * length (ring_flight (rg_rings s ! r)) + length (ring_done (rg_rings s ! r))"
    for r u w
  proof -
    have "ring_total s' \<le> ring_total s" "ring_left s' < ring_left s"
      using that by (simp_all add: ring_total_def ring_left_def sum_list_set_le sum_list_set_less)
    moreover have "\<forall>v\<in>set (rg_rings s'). ring_at v = RingIdle"
      using assms(2) that set_update_subset_insert[of "rg_rings s" r u] by (auto simp: draining_inv_def)
    ultimately show ?thesis using assms(2) counted that(1) by (simp add: draining_inv_def)
  qed
  from assms(1) show ?thesis
  proof cases
    case (rs_complete r xs x ys)
    then show ?thesis
      by (intro *[where r = r and u = "ring_complete xs x ys (rg_rings s ! r)" and w = "rg_outstandingSends s"])
        (simp_all add: set_ring_def idle mset_eq_length [OF ring_complete_same(1)] ring_complete_same)
  next
    case (rs_reap r xs ys)
    then show ?thesis
      by (intro *[where r = r and u = "ring_reap xs ys (rg_rings s ! r)" and w = "rg_outstandingSends s - word_of_nat (length xs)"])
        (simp_all add: set_ring_def idle ring_entries_def)
  qed (use assms(2) idle in \<open>auto simp: draining_inv_def\<close>)
qed

lemma draining_not_stuck:
  assumes "draining_inv s" and "rg_outstandingSends s \<noteq> 0"
  shows "\<exists>s'. ring_step inorder s s'"
proof -
  have "ring_total s \<noteq> 0" using draining_outstandingSends[OF assms(1)] assms(2) by (metis unat_eq_zero)
  then obtain u where "u \<in> set (rg_rings s)" and u: "ring_entries u \<noteq> []"
    by (auto simp: ring_total_def)
  then obtain r where r: "r < length (rg_rings s)" "rg_rings s ! r = u" by (auto simp: in_set_conv_nth)
  show ?thesis
  proof (cases "ring_flight u")
    case (Cons x ys)
    then show ?thesis using rs_complete[of r s "[]" x ys inorder] r by auto
  next
    case Nil
    then obtain x ys where "ring_done u = [x] @ ys" using u by (cases "ring_done u") (auto simp: ring_entries_def)
    moreover have "rg_draining s \<and> 0 < rg_outstandingSends s"
      using assms by (simp add: draining_inv_def word_gt_0)
    ultimately show ?thesis using rs_reap[of r s "[x]" ys inorder] r by (auto simp: cqeBatchSize_def)
  qed
qed

interpretation ring_draining: running_down "ring_step inorder" draining_inv ring_left "\<lambda>s. rg_outstandingSends s = 0" for inorder
  by unfold_locales (use draining_step draining_not_stuck in blast)+

lemma drained:
  assumes "draining_inv s" and "rg_outstandingSends s = 0" and "u \<in> set (rg_rings s)"
  shows "ring_entries u = []"
  using draining_outstandingSends[OF assms(1)] assms(2,3) by (auto simp: ring_total_def)

section \<open>Every reachable state\<close>

lemma ring_state_sound:
  assumes "(ring_step inorder)\<^sup>*\<^sup>* (ring_initial n) s" and "u \<in> set (rg_rings s)"
  shows "\<not> ring_fault u" and "ring_live u = (\<Union>x\<in>set (ring_entries u). sqe_blocks (sq_num x))"
    and "mset (ring_released u @ map sq_event (filter sq_last (ring_entries u))) = mset [0..<ring_sent u]"
    and "inorder \<Longrightarrow> \<not> ring_late u"
    and "rg_draining s \<Longrightarrow> ring_at u = RingIdle"
proof -
  note kept = ring_callback_kept.reachable_kept[OF assms(1), unfolded ring_callback_kept.all_kept_def]
  then show "\<not> ring_fault u" "ring_live u = (\<Union>x\<in>set (ring_entries u). sqe_blocks (sq_num x))"
    "mset (ring_released u @ map sq_event (filter sq_last (ring_entries u))) = mset [0..<ring_sent u]"
    "rg_draining s \<Longrightarrow> ring_at u = RingIdle"
    using assms(2) unfolding ring_mem_def ring_callbacks_def by blast+
  show "\<not> ring_late u" if inorder
    using ring_order_kept.reachable_kept[of n s, unfolded ring_order_kept.all_kept_def] assms that
    by (auto simp: ring_ordered_def)
qed

lemma reachable_draining:
  assumes "(ring_step inorder)\<^sup>*\<^sup>* (ring_initial n) s" and "rg_draining s" and "ring_total s < 2 ^ 32"
  shows "draining_inv s"
  using assms ring_state_sound(5)[OF assms(1)] reachable_sends_counted[OF assms(1)] by (simp add: draining_inv_def)

text \<open>Without that order, a buffer is given back while a datagram of it is still to be sent.\<close>

definition demo_sqe :: "nat \<Rightarrow> bool \<Rightarrow> sqe" where
  "demo_sqe i l = \<lparr>sq_num = i, sq_event = 0, sq_last = l\<rparr>"

lemmas ring_eval = ring_initial_def ring_new_def set_ring_def ring_begin_def ring_submit_def ring_complete_def ring_reap_def
  reap_sqe_def free_block_def cqeBatchSize_def sqe_blocks_def demo_sqe_def Let_def

lemmas ring_go = converse_rtranclp_into_rtranclp[where r = "ring_step inorder" for inorder]

lemma late_buffer_reachable: "\<exists>s. (ring_step False)\<^sup>*\<^sup>* (ring_initial 1) s \<and> ring_late (rg_rings s ! 0)"
  apply (rule exI, rule conjI)
   apply (rule ring_go, rule rs_begin[where r = 0 and n = 2], (simp add: ring_eval)+)
   apply (rule ring_go, rule rs_submit[where r = 0 and n = 2 and k = 0], (simp add: ring_eval)+)
   apply (rule ring_go, rule rs_submit[where r = 0 and n = 2 and k = 1], (simp add: ring_eval)+)
   apply (rule ring_go, rule rs_sent[where r = 0 and n = 2 and k = 2], (simp add: ring_eval)+)
   apply (rule ring_go, rule rs_complete[where r = 0 and xs = "[demo_sqe 0 False]" and x = "demo_sqe 1 True" and ys = "[]"],
      (simp add: ring_eval)+)
   apply (rule ring_go, rule rs_reap[where r = 0 and xs = "[demo_sqe 1 True]" and ys = "[]"], (simp add: ring_eval)+)
   apply (rule ring_go, rule rs_complete[where r = 0 and xs = "[]" and x = "demo_sqe 0 False" and ys = "[]"], (simp add: ring_eval)+)
   apply (rule rtranclp.rtrancl_refl)
  apply simp
  done

text \<open>A state where the send thread waits for a submission.\<close>

definition demo_draining :: ring_state where
  "demo_draining = \<lparr>rg_rings = [\<lparr>ring_at = RingIdle, ring_events = 1, ring_next = 1, ring_flight = [demo_sqe 0 True],
     ring_done = [], ring_live = sqe_blocks 0, ring_released = [], ring_fault = False, ring_late = False\<rparr>],
     rg_outstandingSends = 1, rg_draining = True\<rparr>"

lemma demo_draining_reachable: "(ring_step False)\<^sup>*\<^sup>* (ring_initial 1) demo_draining"
  unfolding demo_draining_def
  apply (rule ring_go, rule rs_begin[where r = 0 and n = 1], (simp add: ring_eval)+)
  apply (rule ring_go, rule rs_submit[where r = 0 and n = 1 and k = 0], (simp add: ring_eval)+)
  apply (rule ring_go, rule rs_sent[where r = 0 and n = 1 and k = 1], (simp add: ring_eval)+)
  apply (rule ring_go, rule rs_leave[where r = 0], (simp add: ring_eval)+)
  apply (rule ring_go, rule rs_drain, (simp add: ring_eval)+)
  done

end
