(* ===== verification/Spec2Isabelle.thy ===== *)
theory Spec2Isabelle
  imports E2SAR_DataPlane E2SAR_Sending E2SAR_Faults E2SAR_ReassemblerSetup E2SAR_Relay E2SAR_Optimizations E2SAR_Transfer E2SAR_Monitor E2SAR_Perf E2SAR_Pacing E2SAR_PerfSending E2SAR_PythonModule E2SAR_Memory E2SAR_Entropy E2SAR_RelayStop E2SAR_Waiting E2SAR_Lifecycle E2SAR_ReceiverLife E2SAR_Ring
begin

text \<open>
  E2SAR: segmentation and reassembly of event data sent through an EJFAT load balancer.

  \<^bold>\<open>The program and its parts.\<close>  A \<^emph>\<open>segmenter\<close> (\<^verbatim>\<open>src/src/e2sarDPSegmenter.cpp\<close>) cuts an event into
  UDP datagrams, each with a load balancer header and a reassembly header, and tells the control plane
  about its event rate in sync packets.  A \<^emph>\<open>reassembler\<close> (\<^verbatim>\<open>src/src/e2sarDPReassembler.cpp\<close>) has
  receive threads that put fragments together, a garbage collector, a queue of finished events for its
  user, and a thread that reports its state.  An \<^emph>\<open>LB manager\<close> (\<^verbatim>\<open>src/src/e2sarCP.cpp\<close>) makes the gRPC
  calls to the control plane with the addresses and tokens of an \<^emph>\<open>EJFAT URI\<close>
  (\<^verbatim>\<open>src/src/e2sarUtil.cpp\<close>).  Programs under \<^verbatim>\<open>src/bin\<close> use the library; the UDP relay of sync packets,
  the file transfer, the performance and the administration programs and the monitor are modelled here.

  \<^bold>\<open>Which theory models what.\<close>
  \<^item> \<open>E2SAR_Prelude\<close>: integer widths, byte images of integers on hosts of either byte order, slices and
    copies of buffers; the locale \<open>wire_header\<close> (a packed header and its cast) with framing lemmas.
  \<^item> \<open>E2SAR_Errors\<close> (\<^verbatim>\<open>e2sarError.hpp\<close>): \<open>E2SARErrorc\<close>, \<open>result\<close> as a sum, \<open>Inl\<close> the error.
  \<^item> \<open>E2SAR_Headers\<close> (\<^verbatim>\<open>e2sarHeaders.hpp\<close>): the RE, LB v2, LB v3 and sync headers as records of the values
    in memory, with their packed images; \<open>wire_header\<close> is interpreted by each.
  \<^item> \<open>E2SAR_Optimizations\<close>: \<^verbatim>\<open>class Optimizations\<close>, the selection as the 16 bit word of the singleton.
  \<^item> \<open>E2SAR_Queues\<close>: the locale \<open>event_fifo\<close> (push, pop) that the send queue and the event queue
    interpret, and circular buffers.
  \<^item> \<open>E2SAR_Net\<close>, \<open>E2SAR_URI\<close>, \<open>E2SAR_Host\<close>: parsers of addresses and ports, \<open>EjfatURI\<close>, the host
    queries of \<^verbatim>\<open>e2sarNetUtil.cpp\<close> and the CPU affinity of \<^verbatim>\<open>e2sarAffinity.cpp\<close>.
  \<^item> \<open>E2SAR_ControlPlane\<close>: one definition per \<open>LBManager\<close> call; the locale \<open>authorised_call\<close> states what a
    missing token means and is interpreted by all calls (\<open>lb_exec\<close>).
  \<^item> \<open>E2SAR_Segmenter\<close>, \<open>E2SAR_Sending\<close>: \<open>seg_send\<close> is \<open>_send\<close> on its three transmission paths,
    \<open>seg_thread_step\<close> one turn of the send thread, \<open>sync_tick\<close> of the sync thread; the lemmas relate the
    loops to \<open>seg_frames\<close>, the list of datagrams.  \<open>E2SAR_SegmenterSetup\<close>: flags, constructor, sockets.
    \<open>E2SAR_Lifecycle\<close>: its threads and sockets as a step relation up to the end of \<^verbatim>\<open>stopThreads\<close>.
    \<open>E2SAR_Entropy\<close>: the test of the clock, with reals for floats and \<open>None\<close> for NaN.
    \<open>E2SAR_Pacing\<close>: the rate limiter over the readings of a clock.  \<open>E2SAR_Ring\<close>: the memory and callbacks of
    io_uring submissions; the locale \<open>ring_kept\<close> lifts what the operations on one ring keep to all steps.
  \<^item> \<open>E2SAR_Reassembler\<close>, \<open>E2SAR_Reassembly\<close>, \<open>E2SAR_Faults\<close>: \<open>recv_one\<close> handles one datagram,
    \<open>gc_thread\<close> is a scan of the collector, \<open>getEvent\<close>, \<open>recvEvent\<close> and \<open>get_LostEvent\<close> the user's calls;
    \<open>reas_step\<close> interleaves them and \<open>reas_reachable\<close> is what can happen.  \<open>E2SAR_ReassemblerSetup\<close>:
    flags, constructors, ports, registration, PID controller and state reports.
    \<open>E2SAR_Memory\<close>: who owns the buffer of an event, in steps as fine as the critical sections of
    the threads; \<open>E2SAR_Waiting\<close>: the time-out of \<^verbatim>\<open>select\<close> over the turns of a receive thread;
    \<open>E2SAR_ReceiverLife\<close>: threads, sockets and reports up to the end of \<^verbatim>\<open>stopThreads\<close>.
  \<^item> \<open>E2SAR_Progress\<close>: the locales \<open>running_down\<close> (a measure and no deadlock) and \<open>settling\<close> (with steps that
    only pass the time; every system that runs down settles) for what runs and stops, and logs of resources.
  \<^item> \<open>E2SAR_DataPlane\<close>: the composition; \<open>holds\<close> abstracts an item to the set of fragments copied.
  \<^item> \<open>E2SAR_Relay\<close> (\<^verbatim>\<open>src/bin/e2sar_udp_relay.cpp\<close>); \<open>E2SAR_RelayStop\<close>: its start, and its end as steps of
    the loop, the statistics thread and the signal handler.
  \<^item> \<open>E2SAR_Options\<close> (the option checks the programs share), \<open>E2SAR_Admin\<close> (\<^verbatim>\<open>src/bin/lbadm.cpp\<close>): one
    definition per command, the permissions, selectors and the time series file, \<open>lbadm_main\<close>.
  \<^item> \<open>E2SAR_FileTransfer\<close>, \<open>E2SAR_FileSaving\<close> (\<^verbatim>\<open>src/bin/e2sar_ft.cpp\<close>): \<open>ft_step\<close> interleaves the reading
    threads with the send thread, \<open>recvFiles\<close> writes events to files; the locale \<open>file_store\<close> is what saving
    relies on, interpreted by files in memory.  \<open>E2SAR_Transfer\<close>: the invariant \<open>pool_inv\<close> of the
    sender, and the way from the files to the wire, the event queue and the files of the receiver.
  \<^item> \<open>E2SAR_Perf\<close> (\<^verbatim>\<open>src/bin/e2sar_perf.cpp\<close>), \<open>E2SAR_Monitor\<close> (\<^verbatim>\<open>src/bin/lbmonitor.cpp\<close>; the loop
    has fuel for its turns, as only a failing call ends it, and \<open>monitor_loop_sends\<close> holds for any fuel).
  \<^item> \<open>E2SAR_Transmission\<close>: the send thread under the three transmission paths beside each other;
    \<open>E2SAR_PerfSending\<close>: the sender of the performance program with turns of the send thread between its looks.
  \<^item> \<open>E2SAR_Python\<close> (\<^verbatim>\<open>src/pybind/py_e2sarDP.cpp\<close>): sending and receiving from Python, callbacks with the
    references they hold (\<open>py_inv\<close>), \<open>stop_step\<close>, the threads beside a caller of \<^verbatim>\<open>stopThreads\<close>; it
    and the relay interpret \<open>running_down\<close>, the two lifecycles \<open>settling\<close>.  \<open>E2SAR_PythonModule\<close>
    (\<^verbatim>\<open>py_e2sar.cpp\<close>, \<^verbatim>\<open>py_e2sarCP.cpp\<close>, \<^verbatim>\<open>py_e2sarUtil.cpp\<close>): results, exceptions, control plane calls.

  \<^bold>\<open>What the properties show.\<close>  C1 to C3: what a segmenter sends arrives byte for byte in any
  order and interleaving, as long as fragment 0 is first, and is lost otherwise.  C4 to C8: the
  receiver's invariant over all interleavings, the ownership of its buffers, and what duplicates, overlong
  fragments and the collector do.  C9 to C13: the datagrams of an event, refused datagrams, draining of the
  queue, the equivalence of the three transmission paths, the memory of io_uring.  C14, C15: what a
  successful construction guarantees.  C16, C17: the threads and sockets of a segmenter and of a reassembler
  up to the end of \<^verbatim>\<open>stopThreads\<close>.  C18 to C21: headers, sync packets and the relay, with its end.
  C22 to C25: selection of code paths, URIs and the confinement of tokens.  C26, C27: queue and
  waiting.  C28, C29: state reports and polling.  C30, C31: file transfer from end to end, and which
  files.  C32, C33: the administration program.  C34: the sending performance program ends.  C35, C36: the
  rate limit and the clock test.  C37 to C40: Python programs: arrays, callbacks, the interpreter lock,
  received data.

  \<^bold>\<open>Parameters.\<close>  System calls, the resolver, Boost's parsers, clocks, random numbers and the gRPC stub
  are arguments (\<open>net_ops\<close>, \<open>host_ops\<close>, \<open>sock_ops\<close>, \<open>lb_stub\<close>, \<open>in_files\<close>, \<open>out_files\<close> and others), the state behind them an
  abstract world.  \<open>wire_net\<close> and \<open>recording\<close> are the instances that append to a list, \<open>memory_files\<close> keeps files in a map.

  \<^bold>\<open>Bounds.\<close>  Counters have the width of the source; sizes are natural numbers with the narrowing written
  out where the code narrows.  The send loop is a \<open>partial_function\<close>: \<open>None\<close> is not returning, and the
  delivery theorems prove \<open>Some\<close>.  \<open>assign_loop\<close> has fuel: the number of ports, enough as every round
  deals at least one.  \<open>recvEvent\<close> and \<open>seg_drain\<close> take the schedule they wait on as a list; \<open>None\<close> is
  still waiting.  A write outside a buffer is \<open>None\<close>.  Floating point numbers are rationals, or reals in the clock test.

  \<^bold>\<open>Not modelled.\<close>  Sleeping between turns of the service threads, pinning of single send threads, logging and printing,
  memory ordering of atomics (each access is a step), creation of gRPC channels, pybind11 itself
  (conversion of arguments, functions bound by their pointer), tests and packaging.  The programs' output is modelled where it is their
  result (the administration program); the signal handlers of the file transfer and performance
  programs are the value of a flag in a schedule.
\<close>

section \<open>Events from sender to receiver\<close>

text \<open>A small configuration for the witnesses: payloads of four bytes and an event of ten.\<close>

definition demo_cfg :: seg_cfg where
  "demo_cfg = \<lparr>sg_dataId = 5, sg_eventSrcId = 9, sg_numSendSockets = 2, sg_lbHdrVersion = 2,
     sg_ticksAsREEventNum = False, sg_addEntropy = True, sg_useV6 = False, sg_maxPldLen = 4,
     sg_syncPeriods = 2\<rparr>"

definition demo_event :: "u8 list" where
  "demo_event = [10, 11, 12, 13, 14, 15, 16, 17, 18, 19]"

definition demo_frames :: "u8 list list" where
  "demo_frames = map (sent_frame LittleEndian demo_cfg 777 3 0x1234 demo_event 7 5 0) [0..<3]"

definition demo_thread :: recv_thread where
  "demo_thread = recv_thread_new [19522]"

definition demo_shared :: reas_shared where
  "demo_shared = reas_shared_new\<lparr>rs_fragmentsPerFd := [0], rs_portPerFd := [19522]\<rparr>"

definition demo_inputs :: "nat list \<Rightarrow> recv_input list" where
  "demo_inputs is = map (\<lambda>i. input_of (lb_forward False (demo_frames ! i))) is"

lemma demo_length: "length demo_event = 10"
  by (simp add: demo_event_def)

lemma demo_numBuffers: "numBuffers (sg_maxPldLen demo_cfg) (length demo_event) = 3"
  by (simp add: numBuffers_def demo_cfg_def demo_event_def)

lemma demo_cfg_ok:
  "0 < sg_maxPldLen demo_cfg" "sg_numSendSockets demo_cfg \<noteq> 0" "demo_event \<noteq> []"
  "length demo_event < 2 ^ 32" "sizeof_LBHdr + sizeof_REHdr + sg_maxPldLen demo_cfg \<le> RECV_BUFFER_SIZE"
  by (simp_all add: demo_cfg_def demo_event_def sizeof_LBHdr_def sizeof_REHdr_def RECV_BUFFER_SIZE_def)

lemma demo_sent:
  "\<exists>s'. seg_sendEvent wire_net LittleEndian (\<lambda>_. False) demo_cfg 777 3 0x1234 demo_event (length demo_event) 7 0 0
     seg_state_new [] = Some (Ok 0, s', demo_frames)"
  using seg_sendEvent_wire[OF demo_cfg_ok(1,2), where h = LittleEndian and isSel = "\<lambda>_. False" and now = 777 and lsb = 3
      and rnd = "0x1234" and ev = demo_event and ?eventNum0.0 = 7 and ?dataId0.0 = 0 and entropy = 0
      and s = seg_state_new and w = "[]"]
  by (simp add: demo_numBuffers demo_frames_def) (simp add: demo_cfg_def)

lemma demo_arrives:
  "set is \<subseteq> {..<3} \<Longrightarrow> arrives False demo_frames (Suc 0) is (demo_inputs is)"
  unfolding demo_inputs_def by (rule arrives_inputs) (simp add: demo_frames_def)

lemma demo_fresh: "fresh_receiver (Suc 0) (demo_thread, demo_shared)"
  by (simp add: fresh_receiver_def demo_thread_def demo_shared_def recv_thread_new_def reas_shared_new_def)

text \<open>
  C1. An event handed to \<open>sendEvent\<close> on a host of byte order \<open>h1\<close> comes out of the reassembler on a
  host of byte order \<open>h2\<close> byte for byte, with its length, number and data id, whichever
  transmission path is selected and in whatever order the datagrams arrive as long as the one with
  offset 0 is first: \<open>sendEvent\<close> returns 0, no write leaves the event buffer, and \<open>getEvent\<close> then
  returns 0 with the event.
\<close>

theorem end_to_end_delivery:
  assumes "0 < sg_maxPldLen c" and "sg_numSendSockets c \<noteq> 0" and "ev \<noteq> []" and "length ev < 2 ^ 32"
    and "sizeof_LBHdr + sizeof_REHdr + sg_maxPldLen c \<le> RECV_BUFFER_SIZE"
    and "seg_sendEvent wire_net h1 isSel c now lsb rnd ev (length ev) eventNum0 dataId0 entropy s [] =
      Some (r, s', frames)"
    and "distinct is" and "set is = {..<length frames}" and "hd is = 0"
    and "arrives lb frames nfd is xs" and "fresh_receiver nfd (t, g)"
  shows "r = Ok 0 \<and> (\<exists>t' g' g''. recv_run h2 lb xs (t, g) = Some (t', g') \<and>
    getEvent g' = (Ok 0, Some (map Some ev, length ev, sendEvent_key c now lsb eventNum0 dataId0 s), g''))"
proof -
  have f: "frames = map (sent_frame h1 c now lsb rnd ev (if eventNum0 \<noteq> 0 then eventNum0 else sg_userEventNum s)
      (if dataId0 = 0 then sg_dataId c else dataId0) entropy) [0..<numBuffers (sg_maxPldLen c) (length ev)]"
    and r: "r = Ok 0"
    using seg_sendEvent_wire[OF assms(1,2), where h = h1 and isSel = isSel and now = now and lsb = lsb
        and rnd = rnd and ev = ev and ?eventNum0.0 = eventNum0 and ?dataId0.0 = dataId0 and entropy = entropy
        and s = s and w = "[]"] assms(6) by auto
  show ?thesis
    using r single_event_delivered[OF assms(1,3,4,5) f assms(10,7,8,9,11), of h2]
    unfolding sendEvent_key_def by blast
qed

lemma end_to_end_delivery_witness:
  "\<exists>t' g' g''. recv_run BigEndian False (demo_inputs [0, 2, 1]) (demo_thread, demo_shared) = Some (t', g') \<and>
     getEvent g' = (Ok 0, Some (map Some demo_event, 10, 7, 5), g'')"
proof -
  obtain s' where s': "seg_sendEvent wire_net LittleEndian (\<lambda>_. False) demo_cfg 777 3 0x1234 demo_event
      (length demo_event) 7 0 0 seg_state_new [] = Some (Ok 0, s', demo_frames)"
    using demo_sent by blast
  have len: "{..<length demo_frames} = set [0, 2, 1]" by (auto simp: demo_frames_def)
  have d: "distinct ([0, 2, 1] :: nat list)" and hd: "hd [0, 2, 1] = (0::nat)" by simp_all
  have arr: "arrives False demo_frames (Suc 0) [0, 2, 1] (demo_inputs [0, 2, 1])"
    by (rule demo_arrives) auto
  have key: "sendEvent_key demo_cfg 777 3 7 0 seg_state_new = (7, 5)"
    by (simp add: sendEvent_key_def sent_eventNum_def demo_cfg_def)
  from end_to_end_delivery[OF demo_cfg_ok s' d len[symmetric] hd arr demo_fresh, of BigEndian]
  show ?thesis unfolding key demo_length by blast
qed

text \<open>
  C2. Delivery does not depend on the traffic in between: on a receive thread that starts with no
  event in progress, any interleaving of the datagrams of any number of events is processed without
  a write outside a buffer, and every event all of whose fragments arrived exactly once, fragment 0
  first, is in the queue, complete and equal to what was sent.
\<close>

theorem interleaved_delivery:
  assumes "0 < m" and "trace_ok h lb m E nfd xs" and "fresh_receiver nfd (t, g)"
  shows "\<exists>t' g'. recv_run h lb (map fst xs) (t, g) = Some (t', g') \<and>
    (\<forall>k. frags_of k xs \<noteq> [] \<and> hd (frags_of k xs) = 0 \<and>
         set (frags_of k xs) = {..<numBuffers m (length (E k))} \<longrightarrow>
       (\<exists>item. queued k g' = [item] \<and> item_out item = (map Some (E k), length (E k), fst k, snd k)))"
proof -
  have F: "length (rs_fragmentsPerFd g) = nfd" "\<And>k. map_of (rt_eventsInProgress t) k = None"
    "\<And>k. queued k g = []"
    using assms(3) by (auto simp: fresh_receiver_def queued_def)
  obtain t' g' where run: "recv_run h lb (map fst xs) (t, g) = Some (t', g')"
    and st: "\<And>k. E k \<noteq> [] \<Longrightarrow> stage m (E k) k [] (assembled (frags_of k xs)) (t', g')"
    using recv_run_stages[OF assms(1) assms(2)[folded F(1)] fresh_receiver_ok[OF assms(3)] F(2)]
    unfolding F(3) by fastforce
  have "\<exists>item. queued k g' = [item] \<and> item_out item = (map Some (E k), length (E k), fst k, snd k)"
    if k: "frags_of k xs \<noteq> []" "hd (frags_of k xs) = 0"
      "set (frags_of k xs) = {..<numBuffers m (length (E k))}" for k
  proof -
    obtain x i where "(x, k, i) \<in> set xs" using k(1) by (auto simp: frags_of_def filter_empty_conv)
    then have d: "distinct (frags_of k xs)" using assms(2) by (auto simp: trace_ok_def list_all_iff)
    have "E k \<noteq> []"
    proof
      assume "E k = []"
      then have "set (frags_of k xs) = {}" unfolding k(3) using assms(1) by simp
      then show False using k(1) by simp
    qed
    then have "delivered (E k) k [] (t', g')"
      using st[of k] assembled_first[OF d k(1,2)] k(3) by (simp add: stage_def all_frags_def)
    then show ?thesis by (simp add: delivered_def)
  qed
  then show ?thesis using run by blast
qed

definition demo_trace :: "nat list \<Rightarrow> labelled list" where
  "demo_trace is = map (\<lambda>i. (input_of (lb_forward False (demo_frames ! i)), (7, 5), i)) is"

lemma demo_frames_nth: "i < 3 \<Longrightarrow> demo_frames ! i = sent_frame LittleEndian demo_cfg 777 3 0x1234 demo_event 7 5 0 i"
  by (simp add: demo_frames_def)

lemma demo_trace_ok:
  assumes "set is \<subseteq> {..<3}" and "distinct is"
  shows "trace_ok BigEndian False 4 (\<lambda>_. demo_event) (Suc 0) (demo_trace is)"
proof -
  have key: "sent_eventNum demo_cfg 777 3 7 = 7" by (simp add: sent_eventNum_def demo_cfg_def)
  have m: "sg_maxPldLen demo_cfg = 4" by (simp add: demo_cfg_def)
  have "carries BigEndian False 4 demo_event (7, 5) (input_of (lb_forward False (demo_frames ! i))) i"
    if "i < 3" for i
    using sent_frame_carries[OF demo_cfg_ok(1), of i demo_event "input_of (lb_forward False (demo_frames ! i))"
        False LittleEndian 777 3 "0x1234" 7 5 0 BigEndian] demo_cfg_ok(4,5) that
    unfolding demo_numBuffers by (simp add: demo_frames_nth key m input_of_def)
  moreover have "frags_of k (demo_trace is) = (if k = (7, 5) then is else [])" for k
    by (induction "is") (auto simp: demo_trace_def frags_of_def)
  ultimately show ?thesis using assms demo_numBuffers m
    by (auto simp: trace_ok_def demo_trace_def list_all_iff input_of_def)
qed

lemma interleaved_delivery_witness:
  "\<exists>t' g' item. recv_run BigEndian False (map fst (demo_trace [0, 2, 1])) (demo_thread, demo_shared) = Some (t', g') \<and>
     queued (7, 5) g' = [item] \<and> item_out item = (map Some demo_event, 10, 7, 5)"
proof -
  have T: "trace_ok BigEndian False 4 (\<lambda>_. demo_event) (Suc 0) (demo_trace [0, 2, 1])"
    by (rule demo_trace_ok) auto
  have f: "frags_of (7, 5) (demo_trace [0, 2, 1]) = [0, 2, 1]"
    by (simp add: frags_of_def demo_trace_def)
  have n: "numBuffers 4 (length demo_event) = 3" by (simp add: numBuffers_def demo_event_def)
  have s: "set [0, 2, 1] = {..<3::nat}" by auto
  from interleaved_delivery[OF _ T demo_fresh] obtain t' g' where
    run: "recv_run BigEndian False (map fst (demo_trace [0, 2, 1])) (demo_thread, demo_shared) = Some (t', g')"
    and all: "\<And>k. frags_of k (demo_trace [0, 2, 1]) \<noteq> [] \<Longrightarrow> hd (frags_of k (demo_trace [0, 2, 1])) = 0 \<Longrightarrow>
      set (frags_of k (demo_trace [0, 2, 1])) = {..<numBuffers 4 (length demo_event)} \<Longrightarrow>
      \<exists>item. queued k g' = [item] \<and> item_out item = (map Some demo_event, length demo_event, fst k, snd k)"
    by auto
  from all[of "(7, 5)", unfolded f n s] show ?thesis using run by (auto simp: demo_length)
qed

text \<open>
  C3. The exception C1 leaves is real: when any other datagram of the event overtakes the one with
  offset 0, that one replaces the item started before it, so the event is never delivered although
  all its datagrams arrived; it stays in progress with bytes missing until garbage collection.
\<close>

theorem late_first_fragment_loses_event:
  assumes "0 < sg_maxPldLen c" and "sg_numSendSockets c \<noteq> 0" and "ev \<noteq> []" and "length ev < 2 ^ 32"
    and "sizeof_LBHdr + sizeof_REHdr + sg_maxPldLen c \<le> RECV_BUFFER_SIZE"
    and "seg_sendEvent wire_net h1 isSel c now lsb rnd ev (length ev) eventNum0 dataId0 entropy s [] =
      Some (r, s', frames)"
    and "distinct is" and "set is = {..<length frames}" and "hd is \<noteq> 0"
    and "arrives lb frames nfd is xs" and "fresh_receiver nfd (t, g)"
  shows "\<exists>t' g' item. recv_run h2 lb xs (t, g) = Some (t', g') \<and> getEvent g' = (Ok (-1), None, g') \<and>
    map_of (rt_eventsInProgress t') (sendEvent_key c now lsb eventNum0 dataId0 s) = Some item \<and>
    ri_curBytes item < ri_bytes item"
proof -
  have f: "frames = map (sent_frame h1 c now lsb rnd ev (if eventNum0 \<noteq> 0 then eventNum0 else sg_userEventNum s)
      (if dataId0 = 0 then sg_dataId c else dataId0) entropy) [0..<numBuffers (sg_maxPldLen c) (length ev)]"
    using seg_sendEvent_wire[OF assms(1,2), where h = h1 and isSel = isSel and now = now and lsb = lsb
        and rnd = rnd and ev = ev and ?eventNum0.0 = eventNum0 and ?dataId0.0 = dataId0 and entropy = entropy
        and s = s and w = "[]"] assms(6) by auto
  have "getEvent g' = (Ok (-1), None, g')" if "rs_eventQueue g' = []" for g'
    using that by (simp add: getEvent_def reas_dequeue_def)
  then show ?thesis
    using single_event_lost[OF assms(1,3,4,5) f assms(10,7,8,9,11), of h2]
    unfolding sendEvent_key_def by blast
qed

lemma late_first_fragment_loses_event_witness:
  "\<exists>t' g' item. recv_run LittleEndian False (demo_inputs [1, 0, 2]) (demo_thread, demo_shared) = Some (t', g') \<and>
     getEvent g' = (Ok (-1), None, g') \<and> map_of (rt_eventsInProgress t') (7, 5) = Some item \<and>
     ri_curBytes item < ri_bytes item"
proof -
  obtain s' where s': "seg_sendEvent wire_net LittleEndian (\<lambda>_. False) demo_cfg 777 3 0x1234 demo_event
      (length demo_event) 7 0 0 seg_state_new [] = Some (Ok 0, s', demo_frames)"
    using demo_sent by blast
  have len: "{..<length demo_frames} = set [1, 0, 2]" by (auto simp: demo_frames_def)
  have d: "distinct ([1, 0, 2] :: nat list)" and hd: "hd [1, 0, 2] \<noteq> (0::nat)" by simp_all
  have arr: "arrives False demo_frames (Suc 0) [1, 0, 2] (demo_inputs [1, 0, 2])"
    by (rule demo_arrives) auto
  have key: "sendEvent_key demo_cfg 777 3 7 0 seg_state_new = (7, 5)"
    by (simp add: sendEvent_key_def sent_eventNum_def demo_cfg_def)
  from late_first_fragment_loses_event[OF demo_cfg_ok s' d len[symmetric] hd arr demo_fresh, of LittleEndian]
  show ?thesis unfolding key by blast
qed

section \<open>The receiver\<close>

lemma demo_cfg_simps [simp]:
  "sg_maxPldLen demo_cfg = 4" "sg_dataId demo_cfg = 5" "sg_numSendSockets demo_cfg = 2"
  "sg_ticksAsREEventNum demo_cfg = False" "sg_addEntropy demo_cfg = True" "sg_useV6 demo_cfg = False"
  "sg_lbHdrVersion demo_cfg = 2" "sg_eventSrcId demo_cfg = 9"
  by (simp_all add: demo_cfg_def)






text \<open>
  C6. Duplicates are not told apart: when the second datagram of an event of three full ones arrives
  twice and the third never, the byte count is reached, and \<open>getEvent\<close> hands out the event with its
  last third never written.
\<close>

theorem duplicate_fragment_corrupts_event:
  assumes "0 < sg_maxPldLen c" and "sg_numSendSockets c \<noteq> 0" and "length ev = 3 * sg_maxPldLen c"
    and "length ev < 2 ^ 32" and "sizeof_LBHdr + sizeof_REHdr + sg_maxPldLen c \<le> RECV_BUFFER_SIZE"
    and "seg_sendEvent wire_net h1 isSel c now lsb rnd ev (length ev) eventNum0 dataId0 entropy s [] =
      Some (r, s', frames)"
    and "arrives lb frames nfd [0, 1, 1] xs" and "fresh_receiver nfd (t, g)"
  shows "\<exists>t' g' b g''. recv_run h2 lb xs (t, g) = Some (t', g') \<and>
    getEvent g' = (Ok 0, Some (b, length ev, sendEvent_key c now lsb eventNum0 dataId0 s), g'') \<and>
    (\<forall>j<length ev. b ! j = (if j < 2 * sg_maxPldLen c then Some (ev ! j) else None))"
proof -
  have f: "frames = map (sent_frame h1 c now lsb rnd ev (if eventNum0 \<noteq> 0 then eventNum0 else sg_userEventNum s)
      (if dataId0 = 0 then sg_dataId c else dataId0) entropy) [0..<numBuffers (sg_maxPldLen c) (length ev)]"
    using seg_sendEvent_wire[OF assms(1,2), where h = h1 and isSel = isSel and now = now and lsb = lsb
        and rnd = rnd and ev = ev and ?eventNum0.0 = eventNum0 and ?dataId0.0 = dataId0 and entropy = entropy
        and s = s and w = "[]"] assms(6) by auto
  show ?thesis unfolding sendEvent_key_def
    by (rule duplicate_delivers[OF assms(1,3,4,5) f assms(7,8)])
qed

definition demo_event12 :: "u8 list" where
  "demo_event12 = [10, 11, 12, 13, 14, 15, 16, 17, 18, 19, 20, 21]"

lemma duplicate_fragment_corrupts_event_witness:
  "\<exists>xs t' g' b g''. recv_run LittleEndian False xs (demo_thread, demo_shared) = Some (t', g') \<and>
     getEvent g' = (Ok 0, Some (b, 12, 7, 5), g'') \<and> b ! 7 = Some 17 \<and> b ! 8 = None"
proof -
  let ?frames = "map (sent_frame LittleEndian demo_cfg 777 3 0x1234 demo_event12 7 5 0) [0..<3]"
  let ?xs = "map (\<lambda>i. input_of (lb_forward False (?frames ! i))) [0, 1, 1]"
  have l: "length demo_event12 = 12" by (simp add: demo_event12_def)
  have n: "numBuffers (sg_maxPldLen demo_cfg) (length demo_event12) = 3"
    by (simp add: l numBuffers_def demo_cfg_def)
  have c: "length demo_event12 = 3 * sg_maxPldLen demo_cfg" "length demo_event12 < 2 ^ 32"
    by (simp_all add: l demo_cfg_def)
  obtain s' where s': "seg_sendEvent wire_net LittleEndian (\<lambda>_. False) demo_cfg 777 3 0x1234 demo_event12
      (length demo_event12) 7 0 0 seg_state_new [] = Some (Ok 0, s', ?frames)"
    using seg_sendEvent_wire[OF demo_cfg_ok(1,2), where h = LittleEndian and isSel = "\<lambda>_. False" and now = 777
        and lsb = 3 and rnd = "0x1234" and ev = demo_event12 and ?eventNum0.0 = 7 and ?dataId0.0 = 0
        and entropy = 0 and s = seg_state_new and w = "[]"]
    by (auto simp: n[simplified])
  have arr: "arrives False ?frames (Suc 0) [0, 1, 1] ?xs"
    by (rule arrives_inputs) auto
  have key: "sendEvent_key demo_cfg 777 3 7 0 seg_state_new = (7, 5)"
    by (simp add: sendEvent_key_def sent_eventNum_def demo_cfg_def)
  from duplicate_fragment_corrupts_event[OF demo_cfg_ok(1,2) c demo_cfg_ok(5) s' arr demo_fresh, of LittleEndian]
  obtain t' g' b g'' where "recv_run LittleEndian False ?xs (demo_thread, demo_shared) = Some (t', g')"
    "getEvent g' = (Ok 0, Some (b, 12, 7, 5), g'')"
    "\<forall>j<12. b ! j = (if j < 2 * sg_maxPldLen demo_cfg then Some (demo_event12 ! j) else None)"
    unfolding key l by blast
  then show ?thesis by (intro exI[of _ ?xs] exI[of _ t'] exI[of _ g'] exI[of _ b] exI[of _ g''])
      (simp add: demo_cfg_def demo_event12_def)
qed

text \<open>
  C7. The range of a fragment is not checked against the buffer of its event: a valid first datagram
  that carries more bytes than the event length it announces is copied past the end of the buffer
  (no outcome in the model), on hosts of any byte order.
\<close>

theorem overlong_fragment_overflows_buffer:
  assumes "in_outcome x = RecvData (re_bytes h1 (re_set h1 dataId 0 len eventNum REHdr_new) @ payload)"
    and "in_fd x < length (rs_fragmentsPerFd g)" and "unat len < length payload"
    and "sizeof_REHdr + length payload \<le> RECV_BUFFER_SIZE"
  shows "recv_one h2 False x (t, g) = None"
  by (rule overlong_first_fragment[OF assms])

lemma overlong_fragment_overflows_buffer_witness:
  "recv_one LittleEndian False
     (input_of (re_bytes BigEndian (re_set BigEndian 5 0 2 7 REHdr_new) @ [1, 2, 3])) (demo_thread, demo_shared) = None"
proof -
  have "in_outcome (input_of (re_bytes BigEndian (re_set BigEndian 5 0 2 7 REHdr_new) @ [1, 2, 3])) =
      RecvData (re_bytes BigEndian (re_set BigEndian 5 0 2 7 REHdr_new) @ [1, 2, 3])"
    by (simp add: input_of_def)
  then show ?thesis
    by (rule overlong_fragment_overflows_buffer)
      (simp_all add: input_of_def demo_shared_def sizeof_REHdr_def RECV_BUFFER_SIZE_def)
qed

text \<open>
  C8. One pass of the garbage collector over the table of a receive thread removes exactly the
  events whose first segment is older than the timeout, keeps the others untouched and in order,
  and reports each removed event that was not reported before exactly once, in table order, with the
  fragments it had: the loss queue and the reassembly loss counter grow by exactly these.
\<close>

theorem garbage_collection_exact:
  assumes "reas_reachable h lb tmo (ts, g)" and "t \<in> set ts" and "gc_thread nowT tmo (t, g) = (t', g')"
  shows "rt_eventsInProgress t' =
      filter (\<lambda>(k, i). \<not> cpp_div (nowT - ri_firstSegment i) 1000000 > tmo) (rt_eventsInProgress t) \<and>
    (\<exists>gone. gone = filter (\<lambda>(k, i). cpp_div (nowT - ri_firstSegment i) 1000000 > tmo \<and> k \<notin> rt_lostEvents t)
        (rt_eventsInProgress t) \<and>
      rs_lostEventsQueue g' = rs_lostEventsQueue g @ map (\<lambda>(k, i). (ri_eventNum i, ri_dataId i, ri_numFragments i)) gone \<and>
      rs_reassemblyLoss g' = rs_reassemblyLoss g + word_of_nat (length gone) \<and>
      rt_lostEvents t' = rt_lostEvents t \<union> fst ` set gone) \<and>
    rs_eventQueue g' = rs_eventQueue g \<and> rs_eventSuccess g' = rs_eventSuccess g"
proof -
  have ok: "thread_ok t" using reachable_ok[OF assms(1)] assms(2) by (simp add: system_ok_def)
  then have d: "distinct (map fst (rt_eventsInProgress t))" and k: "\<forall>e\<in>set (rt_eventsInProgress t). fst e = item_key (snd e)"
    and fin: "finite (rt_lostEvents t)" by (auto simp: thread_ok_def item_ok_def)
  obtain prog lost g1 where s: "gc_scan nowT tmo (rt_eventsInProgress t) (rt_lostEvents t) g = (prog, lost, g1)"
    by (metis prod_cases3)
  have t': "t' = t\<lparr>rt_eventsInProgress := prog, rt_lostEvents := lost\<rparr>" "g' = g1"
    using assms(3) s by (simp_all add: gc_thread_def)
  note L = gc_scan_logs[OF s d k] gc_scan_table[OF s] gc_scan_lost[OF s] gc_scan_shared[OF s fin]
  let ?gone = "filter (\<lambda>(k, i). cpp_div (nowT - ri_firstSegment i) 1000000 > tmo \<and> k \<notin> rt_lostEvents t)
    (rt_eventsInProgress t)"
  have gone: "newly_lost nowT tmo (rt_lostEvents t) (rt_eventsInProgress t) = map snd ?gone"
    by (simp add: newly_lost_def expired_def split_def)
  have "rt_lostEvents t \<union> item_key ` snd ` set (filter (\<lambda>e. expired nowT tmo (snd e)) (rt_eventsInProgress t))
      = rt_lostEvents t \<union> fst ` set ?gone"
    using k by (force simp: expired_def)
  then show ?thesis using L unfolding gone
    by (intro conjI exI[of _ ?gone]) (simp_all add: t' expired_def split_def lost_entry_def comp_def)
qed

lemma garbage_collection_exact_witness:
  "\<exists>t g t' g'. recv_one BigEndian False (input_of (re_bytes LittleEndian (re_set LittleEndian 5 1 3 7 REHdr_new) @ [9]))
       (demo_thread, demo_shared) = Some (t, g) \<and> length (rt_eventsInProgress t) = 1 \<and>
     gc_thread 501000000 500 (t, g) = (t', g') \<and> rt_eventsInProgress t' = [] \<and>
     rs_lostEventsQueue g' = [(7, 5, 1)] \<and> rs_reassemblyLoss g' = 1"
proof -
  let ?x = "input_of (re_bytes LittleEndian (re_set LittleEndian 5 1 3 7 REHdr_new) @ [9])"
  obtain b where "length b = unat (3 :: u32)" and r: "recv_one BigEndian False ?x (demo_thread, demo_shared) = Some
      (demo_thread\<lparr>rt_eventsInProgress := [((7, 5), \<lparr>ri_firstSegment = in_now ?x, ri_numFragments = 1,
          ri_bytes = unat (3 :: u32), ri_curBytes = length [9 :: u8], ri_eventNum = 7, ri_event = b, ri_dataId = 5\<rparr>)]\<rparr>,
       count_packet (in_fd ?x) (re_bytes LittleEndian (re_set LittleEndian 5 1 3 7 REHdr_new) @ [9]) demo_shared)"
    using recv_starts_event[of ?x LittleEndian 5 1 3 7 "[9]" demo_shared demo_thread BigEndian]
    by (auto simp: input_of_def demo_shared_def demo_thread_def recv_thread_new_def sizeof_REHdr_def RECV_BUFFER_SIZE_def)
  define t where "t = demo_thread\<lparr>rt_eventsInProgress := [((7, 5), \<lparr>ri_firstSegment = in_now ?x, ri_numFragments = 1,
          ri_bytes = unat (3 :: u32), ri_curBytes = length [9 :: u8], ri_eventNum = 7, ri_event = b, ri_dataId = 5\<rparr>)]\<rparr>"
  define g where "g = count_packet (in_fd ?x) (re_bytes LittleEndian (re_set LittleEndian 5 1 3 7 REHdr_new) @ [9]) demo_shared"
  note r = r[folded t_def g_def]
  have "reas_reachable BigEndian False 500 ([demo_thread], demo_shared)"
    using reach_init[of BigEndian False 500 "[0]" "[19522]" "[demo_thread]"]
    by (simp add: reas_initial_def demo_thread_def demo_shared_def recv_thread_new_def)
  moreover have "reas_step BigEndian False 500 ([demo_thread], demo_shared) ([demo_thread][0 := t], g)"
    by (rule step_recv[where x = ?x]) (simp_all add: r)
  ultimately have reach: "reas_reachable BigEndian False 500 ([t], g)" by (auto intro: reach_step)
  obtain t' g' where gc: "gc_thread 501000000 500 (t, g) = (t', g')" by fastforce
  have now: "in_now ?x = 0" by (simp add: input_of_def)
  have clean: "rt_lostEvents t = {}" "rs_lostEventsQueue g = []" "rs_reassemblyLoss g = 0"
    by (simp_all add: t_def g_def demo_thread_def recv_thread_new_def count_packet_def demo_shared_def reas_shared_new_def)
  have tab: "length (rt_eventsInProgress t) = 1" by (simp add: t_def)
  have "rt_eventsInProgress t' = [] \<and> rs_lostEventsQueue g' = [(7, 5, 1)] \<and> rs_reassemblyLoss g' = 1"
    using garbage_collection_exact[OF reach _ gc] by (simp add: clean) (simp add: t_def now cpp_div_def)
  then show ?thesis using r gc tab by blast
qed

section \<open>The sender\<close>

text \<open>
  C9. On each of the three transmission paths an event of \<open>bytes\<close> bytes goes out as
  \<open>ceil (bytes / maxPldLen)\<close> datagrams: the payloads concatenated are the event, no datagram is empty or
  longer than headers and \<open>maxPldLen\<close>, and whatever the byte orders of sender and reader, datagram \<open>i\<close>
  reads as data id, offset \<open>i * maxPldLen\<close>, event length and event number in its RE header, and as the
  entropy and the tick number of the event in the LB header of the configured version.
\<close>

theorem fragmentation:
  assumes "0 < sg_maxPldLen c" and "bytes \<le> length event"
    and "seg_send wire_net h isSel c now lsb rnd event bytes eventNum dataId entropy rri cb arg s w = Some (r, s', w')"
  shows "\<exists>frames. r = Ok 0 \<and> w' = w @ frames \<and>
    length frames = (bytes + sg_maxPldLen c - 1) div sg_maxPldLen c \<and>
    concat (map (drop (sizeof_LBHdr + sizeof_REHdr)) frames) = take bytes event \<and>
    (\<forall>f\<in>set frames. sizeof_LBHdr + sizeof_REHdr < length f \<and> length f \<le> sizeof_LBHdr + sizeof_REHdr + sg_maxPldLen c) \<and>
    (\<forall>i<length frames.
      re_get_Fields h2 (re_cast h2 (drop sizeof_LBHdr (frames ! i))) =
        (dataId, word_of_nat (i * sg_maxPldLen c), word_of_nat bytes, sent_eventNum c now lsb eventNum) \<and>
      (sg_lbHdrVersion c = 2 \<longrightarrow> lb2_get_Fields h2 (lb2_cast h2 (frames ! i)) =
        (lbhdrVersion2, rehdrVersion, if entropy = 0 then rnd else entropy, seg_lbEventNum c now lsb)) \<and>
      (sg_lbHdrVersion c = 3 \<longrightarrow> lb3_get_Fields h2 (lb3_cast h2 (frames ! i)) =
        (lbhdrVersion3, rehdrVersion, ucast (seg_lbEventNum c now lsb AND 0xFFFF),
         if entropy = 0 then rnd else entropy, seg_lbEventNum c now lsb)))"
proof -
  let ?hdr = "seg_event_headers h c now lsb rnd bytes eventNum dataId entropy" and ?m = "sg_maxPldLen c"
  let ?fs = "seg_frames ?hdr ?m bytes event"
  have out: "r = Ok 0" "w' = w @ ?fs"
    using seg_send_wire[OF assms(1), of h isSel now lsb rnd event bytes eventNum dataId entropy rri cb arg s w] assms(3)
    by auto
  have n: "length ?fs = (bytes + ?m - 1) div ?m" by (simp add: numBuffers_def)
  note L = sent_headers_length[of h c now lsb rnd bytes eventNum dataId entropy]
  have read: "re_get_Fields h2 (re_cast h2 (drop sizeof_LBHdr (?fs ! i))) =
        (dataId, word_of_nat (i * ?m), word_of_nat bytes, sent_eventNum c now lsb eventNum)"
    "sg_lbHdrVersion c = 2 \<Longrightarrow> lb2_get_Fields h2 (lb2_cast h2 (?fs ! i)) =
        (lbhdrVersion2, rehdrVersion, if entropy = 0 then rnd else entropy, seg_lbEventNum c now lsb)"
    "sg_lbHdrVersion c = 3 \<Longrightarrow> lb3_get_Fields h2 (lb3_cast h2 (?fs ! i)) =
        (lbhdrVersion3, rehdrVersion, ucast (seg_lbEventNum c now lsb AND 0xFFFF),
         if entropy = 0 then rnd else entropy, seg_lbEventNum c now lsb)" if "i < length ?fs" for i
    using that by (simp_all only: length_seg_frames seg_frames_nth sent_headers_re sent_headers_lb2 sent_headers_lb3)
  have pay: "concat (map (drop (sizeof_LBHdr + sizeof_REHdr)) ?fs) = take bytes event"
    by (rule seg_frames_payloads[OF assms(1,2)]) (rule L)
  have size: "sizeof_LBHdr + sizeof_REHdr < length f \<and> length f \<le> sizeof_LBHdr + sizeof_REHdr + ?m" if "f \<in> set ?fs" for f
    using seg_frames_size[where hdr = ?hdr, OF assms(1,2) L that] by blast
  show ?thesis
    by (intro exI[of _ ?fs] conjI ballI allI impI out n pay read) (use size in blast)+
qed

lemma fragmentation_witness:
  "\<exists>s' frames. seg_send wire_net BigEndian (\<lambda>_. False) demo_cfg 777 3 0x1234 demo_event 10 7 5 0 1 None 0 seg_state_new [] =
      Some (Ok 0, s', frames) \<and> length frames = 3 \<and> concat (map (drop 36) frames) = demo_event"
proof -
  obtain s' frames where r: "seg_send wire_net BigEndian (\<lambda>_. False) demo_cfg 777 3 0x1234 demo_event 10 7 5 0 1 None 0
      seg_state_new [] = Some (Ok 0, s', frames)"
    using seg_send_wire[OF demo_cfg_ok(1)] by blast
  have "10 \<le> length demo_event" by (simp add: demo_length)
  from fragmentation[OF demo_cfg_ok(1) this r] show ?thesis
    using r demo_length by (simp add: sizeof_LBHdr_def sizeof_REHdr_def)
qed

text \<open>
  C10. With plain \<open>sendmsg\<close>, the first datagram the kernel refuses ends the event: exactly the
  datagrams before it have left, in order, the error carries the code for socket errors, the refused
  datagram is counted as one error (and, as every attempt, as one message), its \<open>errno\<close> is kept, and
  the event does not count for the event rate.
\<close>

theorem first_refused_datagram_ends_event:
  assumes "0 < sg_maxPldLen c" and "\<not> isSel sendmmsg" and "\<not> isSel liburing_send"
    and "seg_send wire_net h isSel c now lsb rnd event bytes eventNum dataId entropy rri cb arg s [] = Some (r, s0, frames)"
    and "k < length frames"
  shows "\<exists>s' e. seg_send (faulty_net k errno) h isSel c now lsb rnd event bytes eventNum dataId entropy rri cb arg s [] =
      Some (Inl e, s', take k frames) \<and> ec e = SocketError \<and>
    st_msgCnt (sg_sendStats s') = st_msgCnt (sg_sendStats s) + word_of_nat k + 1 \<and>
    st_errCnt (sg_sendStats s') = st_errCnt (sg_sendStats s) + 1 \<and> st_lastErrno (sg_sendStats s') = errno \<and>
    sg_eventsInCurrentSync s' = sg_eventsInCurrentSync s"
proof -
  let ?fs = "seg_frames (seg_event_headers h c now lsb rnd bytes eventNum dataId entropy) (sg_maxPldLen c) bytes event"
  have f: "frames = ?fs"
    using seg_send_wire[OF assms(1), of h isSel now lsb rnd event bytes eventNum dataId entropy rri cb arg s "[]"] assms(4)
    by auto
  have k: "length ([] :: u8 list list) \<le> k" "k < length ([] :: u8 list list) + length ?fs" using assms(5) f by simp_all
  show ?thesis
    unfolding seg_send_plain[where isSel = isSel, OF assms(1,2,3)] emit_all_faulty[OF k] f
    by (simp add: on_sendStats_def stats_failed_def stats_sent_def)
qed

lemma first_refused_datagram_ends_event_witness:
  "\<exists>s' e f. seg_send (faulty_net 1 105) LittleEndian (\<lambda>_. False) demo_cfg 777 3 0x1234 demo_event 10 7 5 0 1 None 0
      seg_state_new [] = Some (Inl e, s', [f]) \<and> st_errCnt (sg_sendStats s') = 1 \<and> st_lastErrno (sg_sendStats s') = 105"
proof -
  obtain s0 frames where r: "seg_send wire_net LittleEndian (\<lambda>_. False) demo_cfg 777 3 0x1234 demo_event 10 7 5 0 1 None 0
      seg_state_new [] = Some (Ok 0, s0, frames)" and n: "length frames = 3"
    using seg_send_wire[OF demo_cfg_ok(1), of LittleEndian "\<lambda>_. False" 777 3 "0x1234" demo_event 10 7 5 0 1 None 0 seg_state_new "[]"]
    by (auto simp: numBuffers_def)
  have k: "1 < length frames" using n by simp
  obtain f where "take 1 frames = [f]" using n by (cases frames) auto
  then show ?thesis
    using first_refused_datagram_ends_event[where isSel = "\<lambda>_. False", OF demo_cfg_ok(1) _ _ r k, of 105]
    by (auto simp: seg_state_new_def seg_stats_new_def)
qed







section \<open>Construction\<close>

text \<open>A host, and a URI with a data address, for the witnesses.\<close>

definition demo_host :: host_ops where
  "demo_host = \<lparr>make_address = (\<lambda>s. if s = ''10.0.0.1'' then Some (V4 0x0A000001) else None),
     addr_str = (\<lambda>a. ''10.0.0.1''), resolve = (\<lambda>n. None), getenv = (\<lambda>n. None)\<rparr>"

definition demo_route :: route_ops where
  "demo_route = \<lparr>ro_socket = None, ro_sendto = None, ro_recv = (\<lambda>a. Inr [NlRoute [(4, 2)]]),
     ro_ifname = (\<lambda>i. ''eth0''), ro_mtu = (\<lambda>n. Some 1500), ro_ifaddrs = Inr [], ro_strerror = (\<lambda>e. [])\<rparr>"

definition demo_seg_host :: seg_host where
  "demo_seg_host = \<lparr>sh_netlink = True, sh_route = demo_route, sh_uring_probe = None, sh_uring_init = (\<lambda>i. None),
     sh_setaffinity = (\<lambda>m. None), sh_strerror = (\<lambda>e. []), sh_entropy_low = True\<rparr>"

definition demo_socks :: "nat sock_ops" where
  "demo_socks = \<lparr>so_socket = (\<lambda>v6 w. (Inr w, w + 1)), so_bind = (\<lambda>fd p w. (None, w)), so_setbuf = (\<lambda>fd n w. (None, w)),
     so_connect = (\<lambda>fd a w. (None, w)), so_close = (\<lambda>fd w. w), so_randomPort = (\<lambda>w. (10000, w)),
     so_register = (\<lambda>r fds w. (None, w)), so_strerror = (\<lambda>e. [])\<rparr>"

definition demo_uri :: EjfatURI where
  "demo_uri = (uri_init 0 ''ejfat://10.0.0.1:18347/'' False)\<lparr>uri_cpPort := 18347, uri_cpAddr := V4 0x0A000001,
     uri_haveDatav4 := True, uri_dataAddrv4 := V4 0x0A000001, uri_dataPort := DATAPLANE_PORT\<rparr>"

lemma demo_reassembler: "\<exists>r. Reassembler_new demo_host None demo_uri (V4 0x0A000001) 19522 [] 3 ReassemblerFlags_new = Some (Inr r)"
proof -
  have "get_PortRange 3 \<le> 14" by (rule get_PortRange_le)
  moreover have "2 ^ nat (int (get_PortRange 3) - 1) \<le> (2 ^ 13 :: nat)"
    using calculation by (intro power_increasing) auto
  ultimately show ?thesis
    by (simp add: Reassembler_new_def LBManager_new_def ReassemblerFlags_new_def demo_uri_def uri_init_def
      get_cpHost_def get_cpAddr_def reas_finish_def reas_build_def reas_sanityChecks_def has_dataAddr_def
      reas_portRange_def reas_numRecvPorts_def assignPortsToThreads_dealt Let_def)
qed



text \<open>
  C15. A reassembler that was constructed has at least one thread and at most 128, at most 2^14
  ports, and its ports, \<open>get_recvPorts\<close>, are dealt out completely: every port of the range belongs to
  exactly one thread, no thread has a port twice or outside the range, and the numbers of ports of two
  threads differ by at most one.
\<close>

theorem constructed_reassembler_ports:
  assumes "Reassembler_new h affinity uri ip port cores threads f = Some (Inr r)"
  shows "0 < threads \<and> threads \<le> 128 \<and> length (ra_threadsToPorts r) = threads \<and>
    (\<forall>p. fst (get_recvPorts r) \<le> p \<and> p \<le> snd (get_recvPorts r) \<longleftrightarrow>
       (\<exists>!j. j < threads \<and> p \<in> set (ra_threadsToPorts r ! j))) \<and>
    (\<forall>j<threads. distinct (ra_threadsToPorts r ! j) \<and>
       set (ra_threadsToPorts r ! j) \<subseteq> {fst (get_recvPorts r)..snd (get_recvPorts r)} \<and>
       length (ra_threadsToPorts r ! j) - ra_numRecvPorts r div threads \<le> 1 \<and>
       ra_numRecvPorts r div threads \<le> length (ra_threadsToPorts r ! j)) \<and>
    ra_numRecvPorts r \<le> 2 ^ 14"
proof -
  note P = Reassembler_new_ports[OF assms]
  then have t: "0 < threads" and ttp: "ra_threadsToPorts r = map (dealt (unat port) threads (ra_numRecvPorts r)) [0..<threads]"
    and c: "ra_numRecvThreads r = threads" "ra_dataPort r = port" by simp_all
  have san: "threads \<le> 128" "ra_numRecvPorts r \<le> 2 ^ 14"
    using reas_sanityChecks_ok[of r] P c by simp_all
  let ?n = "ra_numRecvPorts r" and ?d = "unat port"
  have range: "get_recvPorts r = (int ?d, int ?d + int ?n - 1)" by (simp add: get_recvPorts_def c)
  have mem: "p \<in> set (ra_threadsToPorts r ! j) \<longleftrightarrow> (\<exists>k. p = int (?d + k) \<and> k < ?n \<and> k mod threads = j)" if "j < threads" for p j
    using that unfolding ttp by (auto simp: dealt_set)
  have uniq: "fst (get_recvPorts r) \<le> p \<and> p \<le> snd (get_recvPorts r) \<longleftrightarrow>
      (\<exists>!j. j < threads \<and> p \<in> set (ra_threadsToPorts r ! j))" for p
  proof
    assume p: "fst (get_recvPorts r) \<le> p \<and> p \<le> snd (get_recvPorts r)"
    define k where "k = nat (p - int ?d)"
    have k: "p = int (?d + k)" "k < ?n" using p unfolding range k_def by auto
    show "\<exists>!j. j < threads \<and> p \<in> set (ra_threadsToPorts r ! j)"
    proof (rule ex1I[of _ "k mod threads"])
      show "k mod threads < threads \<and> p \<in> set (ra_threadsToPorts r ! (k mod threads))"
        using k t mem by auto
    next
      fix j assume "j < threads \<and> p \<in> set (ra_threadsToPorts r ! j)"
      then show "j = k mod threads" using mem[of j p] k by auto
    qed
  next
    assume "\<exists>!j. j < threads \<and> p \<in> set (ra_threadsToPorts r ! j)"
    then obtain j where "j < threads" "p \<in> set (ra_threadsToPorts r ! j)" by blast
    then show "fst (get_recvPorts r) \<le> p \<and> p \<le> snd (get_recvPorts r)" unfolding range using mem by auto
  qed
  have "distinct (ra_threadsToPorts r ! j) \<and> set (ra_threadsToPorts r ! j) \<subseteq> {fst (get_recvPorts r)..snd (get_recvPorts r)} \<and>
       length (ra_threadsToPorts r ! j) - ?n div threads \<le> 1 \<and> ?n div threads \<le> length (ra_threadsToPorts r ! j)"
    if j: "j < threads" for j
    using j mem[OF j] unfolding range by (auto simp: ttp dealt_distinct length_dealt[OF t j])
  then show ?thesis using t san uniq by (auto simp: ttp)
qed

lemma constructed_reassembler_ports_witness:
  "\<exists>r. Reassembler_new demo_host None demo_uri (V4 0x0A000001) 19522 [] 3 ReassemblerFlags_new = Some (Inr r) \<and>
     length (ra_threadsToPorts r) = 3 \<and> ra_numRecvPorts r \<le> 2 ^ 14"
proof -
  obtain r where r: "Reassembler_new demo_host None demo_uri (V4 0x0A000001) 19522 [] 3 ReassemblerFlags_new = Some (Inr r)"
    using demo_reassembler by blast
  from constructed_reassembler_ports[OF this] r show ?thesis by blast
qed

section \<open>Running and stopping\<close>

text \<open>
  C16. \<^verbatim>\<open>stopThreads\<close> of a segmenter that was opened.  As long as nobody queues or sends once it has been called,
  it can always go on to its end; no socket is used or closed again after it was closed; and when it has
  returned, every event the queue accepted has gone out once, and the data sockets and then the sync
  socket have been closed, each once.  An event queued by another thread after the queue was found
  empty is accepted and never sent.  Without a send thread, with an event queued, it never returns.
\<close>

theorem segmenter_stops:
  assumes "seg_openAndStart ops isSel sg s w = (Ok 0, run, s', w')" and "sf_numSendSockets (sg_flags sg) \<noteq> 0"
    and "distinct (running_fds run)" and "(seg_life_step True)\<^sup>*\<^sup>* (seg_life_of run q) l"
  shows "open_socks_only (lf_log l) \<and>
    (lf_stop l \<noteq> Working \<longrightarrow> (\<exists>l'. (seg_life_step True)\<^sup>*\<^sup>* l l' \<and> lf_stop l' = AllStopped)) \<and>
    (lf_stop l = AllStopped \<longrightarrow>
       mset (events_out (lf_log l)) = mset (lf_accepted l) \<and> closed_socks (lf_log l) = running_fds run) \<and>
    (\<exists>l'. (seg_life_step False)\<^sup>*\<^sup>* (seg_life_of run []) l' \<and> lf_stop l' = AllStopped \<and> lf_queue l' = [i]) \<and>
    (q \<noteq> [] \<and> (seg_life_step quiet)\<^sup>*\<^sup>* (seg_life_of (run\<lparr>sr_send := None\<rparr>) q) l2 \<longrightarrow> lf_stop l2 \<noteq> AllStopped)"
proof -
  obtain socks where send: "sr_send run = Some socks" and "length socks = sf_numSendSockets (sg_flags sg)"
    using seg_openAndStart_running[OF assms(1)] by blast
  then have socks: "sr_send run = Some socks" "socks \<noteq> []" using assms(2) by auto
  have start: "life_inv (seg_life_of run q)" by (rule life_start_inv) (use assms(3) socks in auto)
  have inv: "life_inv l" by (rule life_reachable_inv[OF assms(4) start])
  have fds: "life_fds l = running_fds run" "lf_send l \<noteq> NoSend"
    using life_reachable_fds[OF assms(4) start] socks by (auto simp: life_start_fds) (simp add: seg_life_of_def)
  have "\<exists>l'. (seg_life_step True)\<^sup>*\<^sup>* l l' \<and> lf_stop l' = AllStopped" if "lf_stop l \<noteq> Working"
    using seg_stopping.settles[of l] inv that fds(2) by (simp add: stopping_inv_def)
  moreover have "lf_stop l2 \<noteq> AllStopped"
    if "q \<noteq> []" "(seg_life_step quiet)\<^sup>*\<^sup>* (seg_life_of (run\<lparr>sr_send := None\<rparr>) q) l2"
    using life_waits_forever[OF that(2)] that(1) by (simp add: seg_life_of_def) auto
  ultimately show ?thesis
    using inv life_stopped[OF inv _ fds(2)] fds(1) life_loses_late_event[OF socks, of i]
    by (auto simp: life_inv_def life_quiet_def)
qed

lemma segmenter_stops_witness:
  "\<exists>sg run w1 l. seg_openAndStart demo_socks (\<lambda>_. False) sg seg_state_new 3 = (Ok 0, run, seg_state_new, w1) \<and>
     running_fds run = [3, 4, 5, 6] \<and> (seg_life_step True)\<^sup>*\<^sup>* (seg_life_of run []) l \<and> lf_stop l = AllStopped \<and>
     closed_socks (lf_log l) = [3, 4, 5, 6]"
proof -
  let ?f = "SegmenterFlags_new\<lparr>sf_useCP := False\<rparr>"
  let ?sg = "\<lparr>sg_uri = demo_uri, sg_flags = ?f, sg_cfg = seg_cfg_of demo_seg_host 5 9 ?f 1500, sg_mtu = 1500,
    sg_iface = ''eth0'', sg_cores = []\<rparr>"
  let ?run = "\<lparr>sr_sync = None, sr_send = Some (map (\<lambda>fd. (fd, 10000, DATAPLANE_PORT)) [3, 4, 5, 6])\<rparr>"
  have opened: "seg_openAndStart demo_socks (\<lambda>_. False) ?sg seg_state_new 3 = (Ok 0, ?run, seg_state_new, 7)"
    by (simp add: seg_openAndStart_def send_open_def get_dataAddrv4_def demo_uri_def uri_init_def SegmenterFlags_new_def
        demo_socks_def eval_nat_numeral send_open_one_def Let_def)
  have n: "sf_numSendSockets (sg_flags ?sg) \<noteq> 0" by (simp add: SegmenterFlags_new_def)
  have fds: "running_fds ?run = [3, 4, 5, 6]" by (simp add: running_fds_def)
  let ?s = "(seg_life_of ?run [])\<lparr>lf_stop := WaitQueue\<rparr>"
  have call: "seg_life_step True (seg_life_of ?run []) ?s" by (rule stop_call) (simp_all add: seg_life_of_def)
  have d: "distinct (running_fds ?run)" unfolding fds by simp
  have "\<exists>l. (seg_life_step True)\<^sup>*\<^sup>* ?s l \<and> lf_stop l = AllStopped"
    using segmenter_stops[OF opened n d, of "[]" ?s] call by auto
  then obtain l where "(seg_life_step True)\<^sup>*\<^sup>* ?s l" and l: "lf_stop l = AllStopped" by blast
  then have run: "(seg_life_step True)\<^sup>*\<^sup>* (seg_life_of ?run []) l" using call by (meson converse_rtranclp_into_rtranclp)
  have "closed_socks (lf_log l) = [3, 4, 5, 6]" using segmenter_stops[OF opened n d run] l fds by auto
  then show ?thesis using opened fds run l by blast
qed

text \<open>
  C17. \<^verbatim>\<open>stopThreads\<close> of a reassembler that was opened.  The threads run if and only if all sockets could be
  opened.  Once it has been called it can always go on to its end; no socket is used or closed again
  after it was closed; when it has returned, every socket is closed, once, and nothing is received or
  reported any more.  If opening failed, the sockets opened before the failure stay open.  A worker that is deregistered
  before the threads are stopped, as the destructor and the programs do, may be reported once more afterwards.
\<close>

theorem reassembler_stops:
  assumes "reas_openAndStart ops r g w = (res, started, ts, g', w')" and "distinct (concat (map rt_sockets ts))"
    and "reas_life_step\<^sup>*\<^sup>* (reas_life_of r started ts) s"
  shows "started = (res = Ok 0) \<and> uses_open recv_uses recv_closes [] (rl_log s) \<and>
    (rl_halt s \<noteq> Up \<longrightarrow> (\<exists>s'. reas_life_step\<^sup>*\<^sup>* s s' \<and> rl_halt s' = Halted)) \<and>
    (rl_halt s = Halted \<longrightarrow>
       mset (closed_by recv_closes (rl_log s)) = (if started then mset (concat (map rt_sockets ts)) else {#}) \<and>
       (\<forall>s'. reas_life_step\<^sup>*\<^sup>* s s' \<longrightarrow> (\<exists>us. rl_log s' = rl_log s @ us \<and> set us \<subseteq> {Registered, Deregistered}))) \<and>
    (started \<and> rf_useCP (ra_flags r) \<and> ra_registeredWorker r \<longrightarrow>
       (\<exists>s'. reas_life_step\<^sup>*\<^sup>* (reas_life_of r started ts) s' \<and> rl_log s' = [Deregistered, Reported]))"
proof -
  note start = reas_life_start_inv[OF assms(2), of r started]
  have inv: "reas_life_inv s" using reas_life_reachable[OF assms(3) start] by simp
  have "\<exists>s'. reas_life_step\<^sup>*\<^sup>* s s' \<and> rl_halt s' = Halted" if "rl_halt s \<noteq> Up"
    using reas_halting.settles[of s] inv that by (simp add: halting_inv_def)
  then show ?thesis
    using reas_openAndStart_started[OF assms(1)] inv halted_closed[OF assms(3,2)] halted_quiet[OF _ inv]
      report_after_deregistration[of r ts]
    by (auto simp: reas_life_inv_def halt_socks_def)
qed

lemma reassembler_stops_witness:
  "\<exists>r res ts g w1 s. reas_openAndStart demo_socks r reas_shared_new 3 = (res, True, ts, g, w1) \<and>
     reas_life_step\<^sup>*\<^sup>* (reas_life_of r True ts) s \<and> rl_halt s = Halted \<and> mset (closed_by recv_closes (rl_log s)) = {#3, 4#}"
proof -
  obtain r where "Reassembler_new demo_host None demo_uri (V4 0x0A000001) 19522 [] 3 ReassemblerFlags_new = Some (Inr r)"
    using demo_reassembler by blast
  let ?r = "r\<lparr>ra_threadsToPorts := [[19522], [19523]]\<rparr>"
  obtain res started ts g w1 where opened: "reas_openAndStart demo_socks ?r reas_shared_new 3 = (res, started, ts, g, w1)"
    by (metis prod_cases5)
  then have o: "started" "map rt_sockets ts = [[3], [4]]"
    by (auto simp: reas_openAndStart_def recv_open_def recv_open_one_def demo_socks_def recv_thread_new_def)
  have d: "distinct (concat (map rt_sockets ts))" unfolding o by simp
  let ?start = "reas_life_of ?r started ts"
  let ?called = "?start\<lparr>rl_threadsStop := True, rl_halt := (if rl_useCP ?start then JoinReport else JoinRecv 0)\<rparr>"
  have call: "reas_life_step ?start ?called" by (rule halt_call) (simp_all add: reas_life_of_def Let_def)
  note stops = reassembler_stops[OF opened d]
  have "rl_halt ?called \<noteq> Up" by simp
  then have "\<exists>l. reas_life_step\<^sup>*\<^sup>* ?called l \<and> rl_halt l = Halted"
    using stops[OF r_into_rtranclp[of reas_life_step, OF call]] by blast
  then obtain l where "reas_life_step\<^sup>*\<^sup>* ?called l" and l: "rl_halt l = Halted" by blast
  then have run: "reas_life_step\<^sup>*\<^sup>* ?start l" using call by (meson converse_rtranclp_into_rtranclp)
  have "mset (closed_by recv_closes (rl_log l)) = {#3, 4#}" using stops[of l] run l o by (simp add: add_mset_commute)
  moreover have "started = True" using o(1) by simp
  ultimately show ?thesis using opened run l by metis
qed

section \<open>Headers, sync messages and the relay\<close>

text \<open>
  C18. What a host of one byte order writes into a header, a host of either byte order reads back from
  the datagram: all fields of the RE header, of both versions of the load balancer header and of the
  sync header, whatever follows them.
\<close>

theorem header_roundtrips:
  "re_get_Fields h2 (re_cast h2 (re_bytes h1 (re_set h1 dataId off len ev REHdr_new) @ payload)) = (dataId, off, len, ev) \<and>
   re_validate (re_cast h2 (re_bytes h1 (re_set h1 dataId off len ev REHdr_new) @ payload)) \<and>
   lb2_get_Fields h2 (lb2_cast h2 (lb2_bytes h1 (lb2_set h1 entropy ev LBHdrV2_new) @ payload)) =
     (lbhdrVersion2, rehdrVersion, entropy, ev) \<and>
   lb3_get_Fields h2 (lb3_cast h2 (lb3_bytes h1 (lb3_set h1 slot port ticks LBHdrV3_new) @ payload)) =
     (lbhdrVersion3, rehdrVersion, slot, port, ticks) \<and>
   sync_get_Fields h2 (sync_cast h2 (sync_bytes h1 (sync_set h1 src ev rate ut SyncHdr_new))) = (src, ev, rate, ut)"
  by (intro conjI re_cross_fields re_cross_validate lb2_cross_fields lb3_cross_fields sync_cross_fields)

text \<open>The sync thread over the clock readings given.\<close>

definition sync_ticks ::
  "'w net_ops \<Rightarrow> byte_order \<Rightarrow> seg_cfg \<Rightarrow> nat \<Rightarrow> (u64 \<times> u64) list \<Rightarrow> seg_state \<times> 'w \<Rightarrow> seg_state \<times> 'w" where
  "sync_ticks net h c sock clock sw = fold (\<lambda>(nano, usec) (s, w). sync_tick net h c sock nano usec s w) clock sw"

lemma sync_tick_wire:
  "snd (sync_tick wire_net h c sock nano usec s w) = w @ [sync_bytes h (fillSyncHdr h c usec nano)]"
  by (simp add: sync_tick_def sync_send_def wire_net_def Let_def)

lemma sync_ticks_wire:
  "snd (sync_ticks wire_net h c sock clock (s, w)) =
     w @ map (\<lambda>(nano, usec). sync_bytes h (fillSyncHdr h c usec nano)) clock"
proof (induction clock arbitrary: s w)
  case Nil
  then show ?case by (simp add: sync_ticks_def)
next
  case (Cons t clock)
  obtain nano usec where t: "t = (nano, usec)" by fastforce
  obtain s1 w1 where st: "sync_tick wire_net h c sock nano usec s w = (s1, w1)" by fastforce
  then have "w1 = w @ [sync_bytes h (fillSyncHdr h c usec nano)]"
    using sync_tick_wire[of h c sock nano usec s w] by simp
  then show ?case using Cons.IH[of s1 w1] st t by (simp add: sync_ticks_def)
qed

text \<open>
  C19. The relay forwards exactly the valid sync packets among what it receives, unchanged and in
  order; every packet the sync thread of a segmenter sends is one of them, on hosts of any byte order,
  and the control plane behind the relay reads the segmenter's source id and clock from it.
\<close>

theorem relay_forwards_sync_packets:
  "snd (relayLoop h2 recording inputs (stats, sent)) = sent @ filter (validateSyncPacket h2) (packets_of inputs) \<and>
   snd (relayLoop h2 recording (map RecvPacket (snd (sync_ticks wire_net h1 c sock clock (s, [])))) (stats, sent)) =
     sent @ snd (sync_ticks wire_net h1 c sock clock (s, [])) \<and>
   map (\<lambda>p. sync_get_Fields h3 (sync_cast h3 p)) (snd (sync_ticks wire_net h1 c sock clock (s, []))) =
     map (\<lambda>(nano, usec). (sg_eventSrcId c, usec, 1000000, nano)) clock"
proof -
  have p: "packets_of (map RecvPacket ps) = ps" for ps :: "u8 list list" by (induction ps) simp_all
  have "filter (validateSyncPacket h2) (snd (sync_ticks wire_net h1 c sock clock (s, []))) =
      snd (sync_ticks wire_net h1 c sock clock (s, []))"
    by (auto simp: sync_ticks_wire validate_fillSyncHdr intro!: filter_True)
  then have "snd (relayLoop h2 recording (map RecvPacket (snd (sync_ticks wire_net h1 c sock clock (s, [])))) (stats, sent)) =
      sent @ snd (sync_ticks wire_net h1 c sock clock (s, []))"
    by (simp add: relayLoop_forwards p)
  moreover have "map (\<lambda>p. sync_get_Fields h3 (sync_cast h3 p)) (snd (sync_ticks wire_net h1 c sock clock (s, []))) =
      map (\<lambda>(nano, usec). (sg_eventSrcId c, usec, 1000000, nano)) clock"
    by (auto simp: sync_ticks_wire fillSyncHdr_def sync_cross_fields)
  ultimately show ?thesis by (simp add: relayLoop_forwards)
qed

text \<open>
  C20. The counters of the relay account for everything it receives: with any behaviour of \<open>send\<close>,
  errors and short writes included, the packets received equal those sent, discarded or counted as
  errors, less the errors of \<open>recvfrom\<close> (modulo 2^64).
\<close>

theorem relay_accounts_for_packets:
  "rl_packetsReceived (fst (relayLoop h send inputs (relay_stats_new, w))) + word_of_nat (recv_errors inputs) =
     rl_packetsSent (fst (relayLoop h send inputs (relay_stats_new, w))) +
     rl_packetsDiscarded (fst (relayLoop h send inputs (relay_stats_new, w))) +
     rl_sendErrors (fst (relayLoop h send inputs (relay_stats_new, w)))"
proof -
  obtain s' w' where r: "relayLoop h send inputs (relay_stats_new, w) = (s', w')" by fastforce
  have "relay_balance relay_stats_new = 0" by (simp add: relay_balance_def relay_stats_new_def)
  with relayLoop_balance[OF r] show ?thesis by (simp add: r relay_balance_def algebra_simps)
qed

text \<open>
  C21. How the relay ends.  After the first signal, whatever comes then, the process makes at most four more
  steps and can always make one until it has ended.  When the signal was delivered to the main thread it
  ends with code 0, the statistics thread has ended, and each socket opened so far has been closed once;
  delivered to the statistics thread, which the system may choose, it ends in \<^verbatim>\<open>std::terminate\<close>
  with the sockets still open.
\<close>

theorem relay_stops:
  assumes "relay_proc_step\<^sup>*\<^sup>* relay_proc_new p" and "rp_handler p = Some (thr, a)" and "(relay_proc_step ^^ n) p p'"
  shows "n \<le> 4 \<and> (rp_end p' = None \<longrightarrow> (\<exists>p''. relay_proc_step p' p'')) \<and>
    (rp_end p' \<noteq> None \<longrightarrow>
      (if thr = MainThread
       then rp_end p' = Some (Exited 0) \<and> rp_stats p' \<noteq> Running \<and> rp_closed p' = relay_socks p' \<and> distinct (rp_closed p')
       else rp_end p' = Some Terminated \<and> rp_closed p' = []))"
proof -
  have inv: "relay_inv p" by (rule relay_reachable[OF assms(1)])
  then have trig: "relay_inv p \<and> rp_handlerTriggered p" using assms(2) by (auto simp: relay_inv_def)
  note bound = relay_stopping.run_bounded[OF assms(3) trig]
  have "relay_left p \<le> 4" by (auto simp: relay_left_def split: option.split prod.split handler_at.split)
  then have n: "n \<le> 4" using bound by linarith
  have inv': "relay_inv p'" and h: "\<exists>a'. rp_handler p' = Some (thr, a')"
    using relay_handler_stays[OF relpowp_imp_rtranclp[OF assms(3)] inv assms(2)] by blast+
  have more: "rp_end p' = None \<longrightarrow> (\<exists>p''. relay_proc_step p' p'')" using relay_not_stuck bound by blast
  show ?thesis
  proof (cases thr)
    case MainThread
    then show ?thesis using n more inv' h
      by (cases "rp_end p'"; cases "the (rp_end p')") (auto simp: relay_inv_def relay_socks_def split: option.splits)
  next
    case StatsThread
    then show ?thesis using n more inv' h
      by (cases "rp_end p'"; cases "the (rp_end p')") (auto simp: relay_inv_def)
  qed
qed

lemma relay_stops_witness:
  "\<exists>p p'. relay_proc_step\<^sup>*\<^sup>* relay_proc_new p \<and> (relay_proc_step ^^ 2) p p' \<and> rp_end p' = Some (Exited 0) \<and> rp_closed p' = [3]"
proof -
  let ?p1 = "relay_proc_new\<lparr>rp_rxSocket := Some 3\<rparr>"
  let ?p2 = "?p1\<lparr>rp_handlerTriggered := True, rp_keepRunning := False, rp_handler := Some (MainThread, AtClose)\<rparr>"
  let ?p3 = "?p2\<lparr>rp_closed := [3], rp_handler := Some (MainThread, AtExit)\<rparr>" and ?p4 = "?p2\<lparr>rp_closed := [3],
    rp_handler := Some (MainThread, AtExit), rp_end := Some (Exited 0)\<rparr>"
  have 1: "relay_proc_step relay_proc_new ?p1" by (rule relay_proc_step.open_rx) (simp_all add: relay_proc_new_def)
  have 2: "relay_proc_step ?p1 ?p2"
    using relay_proc_step.signal_first[of ?p1 MainThread] by (simp add: relay_proc_new_def)
  have 3: "relay_proc_step ?p2 ?p3"
    using relay_proc_step.close_all[of ?p2 MainThread] by (simp add: relay_proc_new_def)
  have 4: "relay_proc_step ?p3 ?p4"
    using relay_proc_step.exit_handler[of ?p3 MainThread] by (simp add: relay_proc_new_def)
  have run: "relay_proc_step\<^sup>*\<^sup>* relay_proc_new ?p2" using 1 2 by (meson converse_rtranclp_into_rtranclp r_into_rtranclp)
  have two: "(relay_proc_step ^^ 2) ?p2 ?p4" using 3 4 unfolding numeral_2_eq_2 by (meson relpowp_1 relpowp_Suc_I relpowp_0_I)
  have h: "rp_handler ?p2 = Some (MainThread, AtClose)" by simp
  from relay_stops[OF run h two] show ?thesis using run two
    by (intro exI[of _ ?p2] exI[of _ ?p4]) (simp add: relay_proc_new_def)
qed

section \<open>Code paths, URIs and the control plane\<close>

text \<open>
  C22. After any sequence of calls of \<open>Optimizations::select\<close>, refused ones included, only code paths
  that were compiled in are selected, and never \<open>sendmmsg\<close> together with a ring: a segmenter has one
  transmission path.
\<close>

theorem selection_stays_consistent:
  "{c. opt_isSelected (fold (\<lambda>opts sel. snd (select_codes b opts sel)) requests opt_initial) c} \<subseteq> set (opt_available b) \<and>
   \<not> opt_conflict (fold (\<lambda>opts sel. snd (select_codes b opts sel)) requests opt_initial)"
proof -
  let ?ok = "\<lambda>sel. {c. opt_isSelected sel c} \<subseteq> set (opt_available b) \<and> \<not> opt_conflict sel"
  have none: "none \<in> set (opt_available b)" by (simp add: opt_available_def)
  have step: "?ok (snd (select_codes b opts sel))" if "?ok sel" for opts sel
  proof (cases "set opts \<subseteq> set (opt_available b)")
    case True
    then show ?thesis using that none select_codes_no_conflict[OF refl, of b opts sel]
      by (auto simp: select_codes_def select_loop_ok isSelected_foldl split: if_splits)
  next
    case False
    then obtain m where "select_codes b opts sel = (Err NotFound m, toWord none)"
      using select_codes_unavailable by blast
    then show ?thesis using none by (simp add: opt_conflict_def)
  qed
  have "?ok sel \<Longrightarrow> ?ok (fold (\<lambda>opts sel. snd (select_codes b opts sel)) requests sel)" for sel
    by (induction requests arbitrary: sel) (use step in auto)
  moreover have "?ok opt_initial" using none by (simp add: opt_initial_def opt_conflict_def)
  ultimately show ?thesis by blast
qed


definition demo_full_uri :: EjfatURI where
  "demo_full_uri = demo_uri\<lparr>uri_tokens := [[], ''admin'', ''inst'', ''sess''], uri_lbId := ''36'', uri_sessionId := ''7'',
     uri_haveSync := True, uri_syncAddr := V4 0x0A000001, uri_syncPort := 19020, uri_dataPort := 20000\<rparr>"


text \<open>
  C24. Tokens are confined: over any sequence of control plane calls by a manager none of which
  reserves a load balancer or registers a worker, the headers sent are, in the order of the calls, the
  bearer headers of the token each call is meant to use, as the manager held it at the start; no header
  carries an empty token, so a call whose token is missing sends nothing.
\<close>

theorem calls_send_only_their_token:
  assumes "uri_ok (lm_cpuri m)" and "list_all (\<lambda>op. op_grants op = None) ops"
  shows "\<exists>sent. snd (snd (lb_calls h (logging stub) ops (m, w, []))) = sent \<and>
    subseq sent (map (\<lambda>op. bearer (token_at (op_token op) (lm_cpuri m))) ops) \<and> bearer [] \<notin> set sent"
  using lb_calls_log[OF assms(2,1), of h stub w "[]"] by simp

text \<open>A control plane that never answers, and a manager for it.\<close>

definition demo_stub :: "(nat, unit) lb_stub" where
  "demo_stub = \<lparr>sb_reserve = (\<lambda>t q w. (Inl ''down'', Suc w)), sb_free = (\<lambda>t q w. (Inl ''down'', Suc w)),
     sb_get = (\<lambda>t q w. (Inl ''down'', Suc w)), sb_status = (\<lambda>t q w. (Inl ''down'', Suc w)),
     sb_overview = (\<lambda>t q w. (Inl ''down'', Suc w)), sb_register = (\<lambda>t q w. (Inl ''down'', Suc w)),
     sb_deregister = (\<lambda>t q w. (Inr (), Suc w)), sb_sendState = (\<lambda>t q w. (Inr (), Suc w)),
     sb_version = (\<lambda>t q w. (Inl ''down'', Suc w)), sb_addSenders = (\<lambda>t q w. (Inr (), Suc w)),
     sb_removeSenders = (\<lambda>t q w. (Inr (), Suc w)), sb_createToken = (\<lambda>t q w. (Inl ''down'', Suc w)),
     sb_listPerms = (\<lambda>t q w. (Inl ''down'', Suc w)), sb_listChildren = (\<lambda>t q w. (Inl ''down'', Suc w)),
     sb_revoke = (\<lambda>t q w. (Inr (), Suc w)), sb_timeseries = (\<lambda>t q w. (Inl ''down'', Suc w))\<rparr>"

definition demo_manager :: LBManager where
  "demo_manager = \<lparr>lm_cpuri = demo_full_uri, lm_addr_string = ''ipv4:///10.0.0.1:18347'', lm_channel = Insecure\<rparr>"

lemma calls_send_only_their_token_witness:
  "\<exists>sent. snd (snd (lb_calls demo_host (logging demo_stub) [OpFree ''36'', OpDeregister, OpVersion] (demo_manager, 0, []))) = sent \<and>
     subseq sent [''Bearer admin'', ''Bearer sess'', ''Bearer admin'']"
proof -
  have ok: "uri_ok (lm_cpuri demo_manager)" by code_simp
  have t: "token_at TT_admin (lm_cpuri demo_manager) = ''admin''" "token_at TT_session (lm_cpuri demo_manager) = ''sess''"
    by code_simp+
  show ?thesis
    using calls_send_only_their_token[OF ok, of "[OpFree ''36'', OpDeregister, OpVersion]" demo_host demo_stub 0]
    by (simp add: t bearer_def)
qed

text \<open>
  C25. No sequence of calls changes the administrator's token, only \<open>reserveLB\<close> can change the instance
  token and only \<open>registerWorker\<close> the session token.
\<close>

theorem calls_keep_tokens:
  assumes "uri_ok (lm_cpuri m)" and "list_all (\<lambda>op. op_grants op \<noteq> Some tt) ops"
  shows "token_at tt (lm_cpuri (fst (lb_calls h stub ops (m, w)))) = token_at tt (lm_cpuri m) \<and>
    token_at TT_admin (lm_cpuri (fst (lb_calls h stub ops' (m, w)))) = token_at TT_admin (lm_cpuri m)"
proof
  show "token_at tt (lm_cpuri (fst (lb_calls h stub ops (m, w)))) = token_at tt (lm_cpuri m)"
    by (rule lb_calls_keep_token[OF assms, THEN conjunct2])
  have "op_grants op \<noteq> Some TT_admin" for op by (cases op) simp_all
  then have "list_all (\<lambda>op. op_grants op \<noteq> Some TT_admin) ops'" by (simp add: list_all_iff)
  then show "token_at TT_admin (lm_cpuri (fst (lb_calls h stub ops' (m, w)))) = token_at TT_admin (lm_cpuri m)"
    by (rule lb_calls_keep_token[OF assms(1), THEN conjunct2])
qed

lemma calls_keep_tokens_witness:
  "token_at TT_instance (lm_cpuri (fst (lb_calls demo_host demo_stub [OpDeregister, OpVersion] (demo_manager, 0)))) = ''inst''"
proof -
  have ok: "uri_ok (lm_cpuri demo_manager)" by code_simp
  have t: "token_at TT_instance (lm_cpuri demo_manager) = ''inst''" by code_simp
  show ?thesis
    using calls_keep_tokens[OF ok, of TT_instance "[OpDeregister, OpVersion]" demo_host demo_stub 0 "[OpOverview]"] t by simp
qed

section \<open>Queues and waiting\<close>

text \<open>
  A caller that queues events one after the other without choosing event numbers: each element is the
  event with its length, data id, entropy, callback and argument.
\<close>

type_synonym send_request = "u8 list \<times> nat \<times> u16 \<times> u16 \<times> nat option \<times> nat"

fun queue_requests :: "seg_cfg \<Rightarrow> send_request list \<Rightarrow> seg_state \<Rightarrow> int result list \<times> seg_state" where
  "queue_requests c [] s = ([], s)"
| "queue_requests c ((event, bytes, did, entropy, cb, arg) # rs) s =
     (case seg_addToSendQueue c event bytes 0 did entropy cb arg s of
        (r, s1) \<Rightarrow> (case queue_requests c rs s1 of (rest, s2) \<Rightarrow> (r # rest, s2)))"

fun request_item :: "seg_cfg \<Rightarrow> u64 \<Rightarrow> send_request \<Rightarrow> seg_item" where
  "request_item c n (event, bytes, did, entropy, cb, arg) =
     \<lparr>qi_bytes = word_of_nat bytes, qi_eventNum = n, qi_dataId = (if did = 0 then sg_dataId c else did),
      qi_event = event, qi_entropy = entropy, qi_callback = cb, qi_cbArg = arg\<rparr>"

lemma add_request:
  "seg_addToSendQueue c event bytes 0 did entropy cb arg s =
     (if length (sg_queue s) < SEG_QSIZE
      then (Ok 0, s\<lparr>sg_userEventNum := sg_userEventNum s + 1,
              sg_queue := sg_queue s @ [request_item c (sg_userEventNum s) (event, bytes, did, entropy, cb, arg)]\<rparr>)
      else (Err MemoryError ''Send queue is temporarily full, try again later'',
            s\<lparr>sg_userEventNum := sg_userEventNum s + 1\<rparr>))"
  by (simp add: seg_addToSendQueue_def seg_push_def Let_def)

text \<open>
  C26. The send queue keeps the order of the calls and never exceeds its capacity: of events queued
  while the thread does not run, the first ones up to the capacity are accepted and queued behind what
  was there, with consecutive event numbers, the others are refused with \<open>MemoryError\<close>; every refused
  call uses up an event number.
\<close>

theorem send_queue_is_bounded_fifo:
  assumes "length (sg_queue s) \<le> SEG_QSIZE" and "k = min (length rs) (SEG_QSIZE - length (sg_queue s))"
    and "queue_requests c rs s = (results, s')"
  shows "sg_queue s' = sg_queue s @ map (\<lambda>i. request_item c (sg_userEventNum s + word_of_nat i) (rs ! i)) [0..<k] \<and>
    length (sg_queue s') \<le> SEG_QSIZE \<and> sg_userEventNum s' = sg_userEventNum s + word_of_nat (length rs) \<and>
    results = replicate k (Ok 0) @ replicate (length rs - k) (Err MemoryError ''Send queue is temporarily full, try again later'')"
  using assms
proof (induction rs arbitrary: s k results)
  case Nil
  then show ?case by simp
next
  case (Cons r rs)
  obtain event bytes did entropy cb arg where r: "r = (event, bytes, did, entropy, cb, arg)" by (metis prod.exhaust)
  let ?i = "request_item c (sg_userEventNum s) r"
  show ?case
  proof (cases "length (sg_queue s) < SEG_QSIZE")
    case True
    let ?s = "s\<lparr>sg_userEventNum := sg_userEventNum s + 1, sg_queue := sg_queue s @ [?i]\<rparr>"
    obtain rest where q: "queue_requests c rs ?s = (rest, s')" "results = Ok 0 # rest"
      using Cons.prems(3) True by (auto simp: r add_request split: prod.splits)
    define j where "j = min (length rs) (SEG_QSIZE - Suc (length (sg_queue s)))"
    have k: "k = Suc j" using Cons.prems(2) True by (simp add: j_def)
    show ?thesis using Cons.IH[of ?s j rest] q True
      by (simp add: k map_upt_Suc j_def algebra_simps del: upt_Suc)
  next
    case False
    let ?s = "s\<lparr>sg_userEventNum := sg_userEventNum s + 1\<rparr>"
    obtain rest where q: "queue_requests c rs ?s = (rest, s')"
      "results = Err MemoryError ''Send queue is temporarily full, try again later'' # rest"
      using Cons.prems(3) False by (auto simp: r add_request split: prod.splits)
    show ?thesis using Cons.IH[of ?s 0 rest] q False Cons.prems(1,2) by (simp add: algebra_simps)
  qed
qed

lemma send_queue_is_bounded_fifo_witness:
  "\<exists>results s'. queue_requests demo_cfg [(demo_event, 10, 0, 1, None, 0), ([7], 1, 3, 1, None, 0)] seg_state_new = (results, s') \<and>
     results = [Ok 0, Ok 0] \<and> map qi_eventNum (sg_queue s') = [0, 1]"
proof -
  let ?rs = "[(demo_event, 10, 0, 1, None, 0), ([7], 1, 3, 1, None, 0)] :: send_request list"
  obtain results s' where r: "queue_requests demo_cfg ?rs seg_state_new = (results, s')" by fastforce
  have q: "sg_queue seg_state_new = []" "sg_userEventNum seg_state_new = 0" by (simp_all add: seg_state_new_def)
  have "length (sg_queue seg_state_new) \<le> SEG_QSIZE" by (simp add: q)
  moreover have "2 = min (length ?rs) (SEG_QSIZE - length (sg_queue seg_state_new))" by (simp add: q SEG_QSIZE_def)
  ultimately show ?thesis
    using send_queue_is_bounded_fifo[of seg_state_new 2 ?rs demo_cfg results s'] r by (auto simp: q upt_rec numeral_2_eq_2)
qed

lemma recv_wait_returns:
  assumes "\<exists>(env, stop', t)\<in>set ws. stop' \<or> wait_ms \<noteq> 0 \<and> t - nowT > int wait_ms * 1000000"
  shows "\<exists>r. recv_wait nowT wait_ms ws stop over ev g = Some r"
  using assms
proof (induction ws arbitrary: stop over ev g)
  case Nil
  then show ?case by simp
next
  case (Cons w ws)
  obtain env stop' t where w: "w = (env, stop', t)" by (metis prod.exhaust)
  obtain g1 ev1 where d: "reas_dequeue (env g) = (g1, ev1)" by fastforce
  have stops: "\<exists>r. recv_wait nowT wait_ms ws st ov ev1 g1 = Some r" if "st \<or> ov" for st ov
    using that by (cases ev1) auto
  show ?case
  proof (cases ev)
    case None
    consider "stop \<or> over" | "stop' \<or> wait_ms \<noteq> 0 \<and> t - nowT > int wait_ms * 1000000"
      | "\<not> (stop \<or> over)" "\<exists>(env, stop', t)\<in>set ws. stop' \<or> wait_ms \<noteq> 0 \<and> t - nowT > int wait_ms * 1000000"
      using Cons.prems by (auto simp: w)
    then show ?thesis
    proof cases
      case 1
      then show ?thesis by (simp add: None)
    next
      case 2
      then show ?thesis using stops[OF 2] by (simp add: None w d)
    next
      case 3
      then show ?thesis using Cons.IH[OF 3(2)] by (simp add: None w d)
    qed
  qed simp
qed

text \<open>
  C27. \<open>recvEvent\<close> does not wait for ever: it returns when one of the times it wakes up is past the
  limit or finds the threads stopped.  It returns -1 exactly when it has no event to give, and an event
  that is queued when it is called is returned at once, whatever the limit and the stop flag say.
\<close>

theorem recvEvent_returns:
  assumes "\<exists>(env, stop', t)\<in>set ws. stop' \<or> wait_ms \<noteq> 0 \<and> t - nowT > int wait_ms * 1000000"
  shows "\<exists>r ev g'. recvEvent nowT wait_ms stop ws g = Some (r, ev, g') \<and>
      (ev = None \<and> r = Ok (-1) \<or> (\<exists>i. ev = Some (item_out i)) \<and> r = Ok 0) \<and>
      (rs_eventQueue g \<noteq> [] \<longrightarrow> ev = Some (item_out (hd (rs_eventQueue g))) \<and> rs_eventQueue g' = tl (rs_eventQueue g))"
proof (cases "rs_eventQueue g")
  case Nil
  obtain g1 ev1 where d: "reas_dequeue g = (g1, ev1)" by fastforce
  obtain ev2 g2 where "recv_wait nowT wait_ms ws stop False ev1 g1 = Some (ev2, g2)"
    using recv_wait_returns[OF assms] by fastforce
  then show ?thesis using Nil by (cases ev2) (auto simp: recvEvent_def d)
next
  case (Cons i q)
  then obtain g' where "reas_dequeue g = (g', Some i)" "rs_eventQueue g' = q"
    using reas_fifo.pop_head by blast
  then show ?thesis using Cons by (auto simp: recvEvent_def)
qed

lemma recvEvent_returns_witness:
  "\<exists>r ev g'. recvEvent 0 100 False [(\<lambda>g. g, False, 50000000), (\<lambda>g. g, False, 150000000)] demo_shared = Some (r, ev, g')"
  using recvEvent_returns[of "[(\<lambda>g. g, False, 50000000), (\<lambda>g. g, False, 150000000)]" 100 0 False demo_shared] by auto

section \<open>Ports, reports and configuration\<close>

text \<open>
  C28. The event queue is not limited to the 1000 entries that stand for "full" in the state reports:
  with more events queued, the report is refused by the client's own check of the fill level, nothing
  is sent, and an error is counted, so the load balancer hears nothing from an overloaded worker.
\<close>

theorem overfull_worker_cannot_report:
  assumes "buf \<noteq> []" and "REAS_QSIZE < rs_eventQueueDepth g"
    and "get_SessionToken (lm_cpuri (ra_lbman r)) = Inr tok" and "uri_lbId (lm_cpuri (ra_lbman r)) \<noteq> []"
  shows "\<exists>buf'. sendState_tick stub now nowSec buf r g w =
    Some (buf', r, g\<lparr>rs_grpcErrCnt := rs_grpcErrCnt g + 1, rs_lastE2SARError := ParameterError\<rparr>, w)"
  by (rule sendState_tick_overfull[OF assms])

definition demo_reas :: reassembler where
  "demo_reas = reas_build demo_host demo_full_uri (V4 0x0A000001) 19522 [] 3 ReassemblerFlags_new demo_manager"

lemma overfull_worker_cannot_report_witness:
  "\<exists>buf'. sendState_tick demo_stub 200000 0 [\<lparr>ps_sampleTime = 100000, ps_error = 0, ps_integral = 0\<rparr>] demo_reas
     (demo_shared\<lparr>rs_eventQueueDepth := 1001\<rparr>) 0 =
     Some (buf', demo_reas, demo_shared\<lparr>rs_eventQueueDepth := 1001, rs_grpcErrCnt := 1, rs_lastE2SARError := ParameterError\<rparr>, 0)"
proof -
  have s: "get_SessionToken (lm_cpuri (ra_lbman demo_reas)) = Inr ''sess''"
    by (simp add: demo_reas_def reas_build_def Let_def demo_manager_def) code_simp
  have i: "uri_lbId (lm_cpuri (ra_lbman demo_reas)) \<noteq> []"
    by (simp add: demo_reas_def reas_build_def Let_def demo_manager_def demo_full_uri_def)
  show ?thesis
    using overfull_worker_cannot_report[of "[\<lparr>ps_sampleTime = 100000, ps_error = 0, ps_integral = 0\<rparr>]"
        "demo_shared\<lparr>rs_eventQueueDepth := 1001\<rparr>" demo_reas "''sess''" demo_stub 200000 0 0] s i
    by (simp add: REAS_QSIZE_def demo_shared_def reas_shared_new_def)
qed

text \<open>
  C29. A receive thread does not sleep.  Its \<^verbatim>\<open>select\<close> waits for the time left in \<open>sleep_tv\<close>, which is set once to
  10 ms: on Linux, which leaves there the time not slept, all the waits of a thread together are at most
  10 ms, and an idle thread waits once and then polls; where \<^verbatim>\<open>select\<close> leaves the time-out alone
  an idle thread waits 10 ms at each turn.
\<close>

theorem receive_thread_polls:
  assumes "recv_loop h lb linux_left rs SLEEP_USEC s = Some (ws, tv, s')"
  shows "sum_list ws + tv = 10000 \<and>
    recv_loop h lb linux_left (replicate (Suc k) None) tv s' = Some (tv # replicate k 0, 0, s') \<and>
    recv_loop h lb posix_left (replicate k None) SLEEP_USEC s' = Some (replicate k 10000, 10000, s')"
  using recv_loop_waits[OF assms] recv_loop_idle[of h lb "Suc k" tv s'] recv_loop_idle_posix[of h lb k SLEEP_USEC s']
  by (simp add: SLEEP_USEC_def)

lemma receive_thread_polls_witness:
  "\<exists>ws tv. recv_loop BigEndian False linux_left [Some (4000, SelectFail 4), None] SLEEP_USEC (demo_thread, demo_shared) =
     Some (ws, tv, demo_thread, demo_shared\<lparr>rs_dataErrCnt := 1, rs_lastErrno := 4\<rparr>) \<and> sum_list ws + tv = 10000"
proof -
  have "recv_loop BigEndian False linux_left [Some (4000, SelectFail 4), None] SLEEP_USEC (demo_thread, demo_shared) =
     Some ([4000, 6000], 0, demo_thread, demo_shared\<lparr>rs_dataErrCnt := 1, rs_lastErrno := 4\<rparr>)"
    by (simp add: select_wait_def linux_left_def SLEEP_USEC_def recv_turn_def demo_shared_def demo_thread_def
        recv_thread_new_def reas_shared_new_def map_filter_def)
  from receive_thread_polls[OF this, of 0] show ?thesis
    using \<open>recv_loop _ _ _ _ _ _ = _\<close> by (intro exI[of _ "[4000, 6000]"] exI[of _ 0]) simp
qed

section \<open>File transfer\<close>

text \<open>
  C30. The file transfer program delivers: however the reading threads and the send thread interleave,
  once the sender is done and every datagram it sent has arrived, those with offset 0 first of their
  event, a thread that receives them and writes them out returns, and the output directory holds, in
  files of distinct names, the contents of exactly the files that could be mapped.  This is for
  files of 1 to \<open>2 ^ 32 - 1\<close> bytes and event numbers that are not taken from the clock.
\<close>

theorem files_transferred:
  assumes "good_cfg c" and "sg_numSendSockets c \<noteq> 0" and "stable_files files content"
    and "\<forall>p\<in>set paths. \<forall>d. content p = Some d \<longrightarrow> d \<noteq> [] \<and> length d < 2 ^ 32"
    and "(ft_step wire_net h1 isSel c files tpSize ^^ n) (ft_start paths v0 []) y" and "ft_done y" and "n \<le> 2 ^ 64"
    and "distinct js" and "set js = {..<length (fp_net y)}" and "first_leads h2 (map ((!) (fp_net y)) js)"
    and "arrives lb (fp_net y) nfd js xs" and "fresh_receiver nfd (t, g)"
    and "file_store out look intact dir" and "intact v"
  shows "\<exists>t' g' turns g'' v' names. recv_run h2 lb xs (t, g) = Some (t', g') \<and>
    recvFiles out dir pre e turns 0 g' v = Some (0, g'', v') \<and> distinct names \<and>
    mset (map (\<lambda>name. look v' (of_join out dir name)) names) =
      mset (map (\<lambda>d. Some (map Some d)) (List.map_filter content paths))"
proof -
  obtain sent where wire: "fp_net y = concat (map (item_frames h1 c) sent)"
    and mset: "mset (map (qi_event \<circ> snd) sent) = mset (List.map_filter content paths)"
    and items: "\<forall>i\<in>set (map snd sent). qi_bytes i = word_of_nat (length (qi_event i)) \<and> qi_dataId i = sg_dataId c"
    and nums: "distinct (map (qi_eventNum \<circ> snd) sent)"
    using ft_done_sent[OF _ assms(2,3,5-7)] assms(1) unfolding good_cfg_def by blast
  have arr: "whole_arrival h1 h2 lb c sent nfd js xs"
    by (rule sent_items_arrive[OF items nums mset assms(4,8) assms(9-11)[unfolded wire]])
  let ?name = "\<lambda>x. final_name pre e (qi_eventNum (snd x)) (qi_dataId (snd x))"
  obtain t' g' turns g'' v' where run: "recv_run h2 lb xs (t, g) = Some (t', g')"
    "recvFiles out dir pre e turns 0 g' v = Some (0, g'', v')"
    and saved: "\<forall>x\<in>set sent. look v' (of_join out dir (?name x)) = Some (map Some (qi_event (snd x)))"
    using transfer_saves[OF arr assms(1,12-14)] by blast
  have "distinct (map ?name sent)"
    using nums by (auto simp: distinct_map inj_on_def dest!: final_name_inj)
  moreover have "map (\<lambda>name. look v' (of_join out dir name)) (map ?name sent) =
      map (\<lambda>d. Some (map Some d)) (map (qi_event \<circ> snd) sent)"
    using saved by simp
  then have "mset (map (\<lambda>name. look v' (of_join out dir name)) (map ?name sent)) =
      mset (map (\<lambda>d. Some (map Some d)) (List.map_filter content paths))"
    by (simp only: mset_map[of "\<lambda>d. Some (map Some d)"] mset)
  ultimately show ?thesis using run by blast
qed

text \<open>Two paths, one of which cannot be opened, are sent, received out of order and saved in memory.\<close>

definition demo_in :: "nat in_files" where
  "demo_in = \<lparr>if_open = (\<lambda>p v. if p = ''a.dat'' then (Some v, v + 1) else (None, v)), if_fstat = (\<lambda>fd v. Some 10),
     if_mmap = (\<lambda>fd n v. (Some demo_event, v)), if_munmap = (\<lambda>fd v. v), if_close = (\<lambda>fd v. v)\<rparr>"

definition demo_content :: "string \<Rightarrow> u8 list option" where
  "demo_content p = (if p = ''a.dat'' then Some demo_event else None)"

lemma demo_stable: "stable_files demo_in demo_content"
  by (simp add: stable_files_def map_file_def demo_in_def demo_content_def demo_event_def)

lemma demo_good: "good_cfg demo_cfg"
  using demo_cfg_ok by (simp add: good_cfg_def demo_cfg_def)

definition demo_pool_frames :: "u8 list list" where
  "demo_pool_frames = map (sent_frame LittleEndian demo_cfg 777 3 0x1234 demo_event 0 5 0) [0..<3]"

lemma demo_pool_run:
  "\<exists>y. (ft_step wire_net LittleEndian (\<lambda>_. False) demo_cfg demo_in 1 ^^ 4) (ft_start [''b.dat'', ''a.dat''] 0 []) y \<and>
     ft_done y \<and> fp_net y = demo_pool_frames"
proof -
  let ?step = "ft_step wire_net LittleEndian (\<lambda>_. False) demo_cfg demo_in 1"
  let ?i = "\<lparr>qi_bytes = 10, qi_eventNum = 0, qi_dataId = 5, qi_event = demo_event, qi_entropy = 0,
    qi_callback = Some UNMAP_CALLBACK, qi_cbArg = 0\<rparr>"
  let ?x0 = "ft_start [''b.dat'', ''a.dat''] (0 :: nat) ([] :: u8 list list)"
  let ?x1 = "?x0\<lparr>fp_todo := [(''a.dat'', 1)], fp_files := 0\<rparr>"
  let ?x2 = "?x1\<lparr>fp_todo := [], fp_busy := [(0, 10, demo_event)], fp_files := 1\<rparr>"
  let ?s = "seg_state_new\<lparr>sg_userEventNum := 1, sg_queue := [?i]\<rparr>"
  let ?x3 = "?x2\<lparr>fp_busy := [], fp_seg := ?s\<rparr>"
  have f: "item_frames LittleEndian demo_cfg ((777, 3, 0x1234), ?i) = demo_pool_frames"
    by (subst whole_item_frames) (simp_all add: whole_item_def demo_length demo_pool_frames_def demo_event_def numBuffers_def demo_cfg_def)
  obtain s' where st: "seg_thread_step wire_net LittleEndian (\<lambda>_. False) demo_cfg 777 3 0x1234 [] ?s [] =
      Some (s', demo_pool_frames)" "sg_queue s' = []"
    using seg_thread_step_wire[OF demo_cfg_ok(1,2), of ?s ?i "[]" LittleEndian "\<lambda>_. False" 777 3 "0x1234" "[]"] by (auto simp: f)
  have 1: "?step ?x0 ?x1"
    by (rule ft_step.unreadable[where p = "''b.dat''" and num = 0]) (simp_all add: ft_start_def map_file_def demo_in_def)
  have "map_file demo_in ''a.dat'' 0 = (Inr (0, 10, demo_event), 1)" by (simp add: map_file_def demo_in_def)
  then have 2: "?step ?x1 ?x2"
    using ft_step.mapped[where x = ?x1 and p = "''a.dat''" and num = 1 and ts = "[]" and tpSize = 1 and files = demo_in
        and m = "(0, 10, demo_event)" and v = 1]
    by (simp add: ft_start_def)
  have "offer_file demo_cfg (0, 10, demo_event) seg_state_new = (Inr 0, ?s)"
    by (simp add: offer_file_cases Let_def seg_state_new_def SEG_QSIZE_def demo_cfg_def)
  then have 3: "?step ?x2 ?x3"
    using ft_step.offered[where x = ?x2 and m = "(0, 10, demo_event)" and r = 0 and s = ?s and c = demo_cfg
        and files = demo_in and net = wire_net and h = LittleEndian and isSel = "\<lambda>_. False" and tpSize = 1
        and ?ms1.0 = "[]" and ?ms2.0 = "[]"]
    by (simp add: ft_start_def)
  let ?x4 = "?x3\<lparr>fp_seg := s', fp_net := demo_pool_frames,
    fp_files := run_callbacks demo_in (drop (length (sg_callbacks (fp_seg ?x3))) (sg_callbacks s')) (fp_files ?x3)\<rparr>"
  have 4: "?step ?x3 ?x4"
    by (rule ft_step.sent[where now = 777 and lsb = 3 and rnd = "0x1234" and cqes = "[]"]) (simp add: ft_start_def st)
  have "(?step ^^ 4) ?x0 ?x4"
  proof -
    have "(?step ^^ 0) ?x0 ?x0" by simp
    then have "(?step ^^ Suc 0) ?x0 ?x1" using 1 by (rule relpowp_Suc_I)
    then have "(?step ^^ Suc (Suc 0)) ?x0 ?x2" using 2 by (rule relpowp_Suc_I)
    then have "(?step ^^ Suc (Suc (Suc 0))) ?x0 ?x3" using 3 by (rule relpowp_Suc_I)
    then have "(?step ^^ Suc (Suc (Suc (Suc 0)))) ?x0 ?x4" using 4 by (rule relpowp_Suc_I)
    moreover have "Suc (Suc (Suc (Suc 0))) = 4" by simp
    ultimately show ?thesis by metis
  qed
  moreover have "ft_done ?x4" "fp_net ?x4 = demo_pool_frames" by (simp_all add: ft_done_def st(2) ft_start_def)
  ultimately show ?thesis by blast
qed

lemma sent_frame_offset: "frame_offset h2 (sent_frame h c now lsb rnd ev num did ent i) = word_of_nat (i * sg_maxPldLen c)"
  using sent_headers_re by (simp add: sent_frame_def frag_frame_def frag_off_def frame_offset_def)

lemma files_transferred_witness:
  "\<exists>v' name. memory_look v' (of_join memory_files ''/data'' name) = Some (map Some demo_event)"
proof -
  obtain y where y: "(ft_step wire_net LittleEndian (\<lambda>_. False) demo_cfg demo_in 1 ^^ 4) (ft_start [''b.dat'', ''a.dat''] 0 []) y"
    "ft_done y" "fp_net y = demo_pool_frames"
    using demo_pool_run by blast
  have len: "length demo_pool_frames = 3" by (simp add: demo_pool_frames_def)
  have js: "distinct [0, 2, 1 :: nat]" "set [0, 2, 1] = {..<length (fp_net y)}" by (auto simp: y(3) len)
  have lead: "first_leads BigEndian (map ((!) (fp_net y)) [0, 2, 1])"
    unfolding first_leads_def
  proof (intro allI impI)
    fix b a :: nat
    assume "b < length (map ((!) (fp_net y)) [0, 2, 1])" "a < b"
    then have "b = 1 \<or> b = 2" by auto
    then show "frame_offset BigEndian (map ((!) (fp_net y)) [0, 2, 1] ! b) \<noteq> 0"
      by (elim disjE) (simp_all add: y(3) demo_pool_frames_def sent_frame_offset demo_cfg_def)
  qed
  have arr: "arrives False (fp_net y) (Suc 0) [0, 2, 1] (map (\<lambda>i. input_of (lb_forward False (fp_net y ! i))) [0, 2, 1])"
    by (rule arrives_inputs) (simp add: y(3) len)
  have small: "\<forall>p\<in>set [''b.dat'', ''a.dat'']. \<forall>d. demo_content p = Some d \<longrightarrow> d \<noteq> [] \<and> length d < 2 ^ 32"
    by (simp add: demo_content_def demo_event_def)
  have c: "List.map_filter demo_content [''b.dat'', ''a.dat''] = [demo_event]"
    by (simp add: List.map_filter_simps demo_content_def)
  have n: "(4::nat) \<le> 2 ^ 64" by simp
  from files_transferred[OF demo_good demo_cfg_ok(2) demo_stable small y(1,2) n js lead arr demo_fresh
      memory.file_store_axioms[of "''/data''"] memory_empty_intact, where pre = "''e2sar_out''" and e = "''.dat''", unfolded c]
  obtain v' names where "mset (map (\<lambda>name. memory_look v' (of_join memory_files ''/data'' name)) names) =
      {#Some (map Some demo_event)#}" by auto
  then have "Some (map Some demo_event) \<in># mset (map (\<lambda>name. memory_look v' (of_join memory_files ''/data'' name)) names)" by simp
  then show ?thesis by fastforce
qed

definition files_under :: "path_ops \<Rightarrow> string \<Rightarrow> bool \<Rightarrow> string \<Rightarrow> string list" where
  "files_under fs extension recurse p =
     (if \<not> po_exists fs p then [] else if checkPath fs extension p then [p]
      else if po_is_directory fs p then filter (checkPath fs extension) (po_entries fs recurse p) else [])"

lemma traverse_tasks:
  "map fst (fst (traverse_paths fs extension recurse ps t)) =
     map fst (fst t) @ concat (map (files_under fs extension recurse) (map snd (takeWhile fst ps)))"
proof (induction fs extension recurse ps t rule: traverse_paths.induct)
  case (2 fs extension recurse running p ps t)
  have "map fst (fst (postToThreadPool fs p t)) = map fst (fst t) @ [p]"
    by (auto simp: postToThreadPool_def split: prod.splits)
  then show ?case using 2 post_matching_tasks[of fs extension "po_entries fs recurse p" t]
    by (simp add: files_under_def)
qed simp

lemma traverse_bytes:
  "snd (snd t) = sum_list (map (po_file_size fs) (map fst (fst t))) \<Longrightarrow>
   snd (snd (traverse_paths fs extension recurse ps t)) =
     sum_list (map (po_file_size fs) (map fst (fst (traverse_paths fs extension recurse ps t))))"
proof (induction fs extension recurse ps t rule: traverse_paths.induct)
  case (2 fs extension recurse running p ps t)
  have one: "snd (snd u) = sum_list (map (po_file_size fs) (map fst (fst u))) \<Longrightarrow>
      snd (snd (postToThreadPool fs q u)) = sum_list (map (po_file_size fs) (map fst (fst (postToThreadPool fs q u))))" for q u
    by (auto simp: postToThreadPool_def split: prod.splits)
  have "snd (snd u) = sum_list (map (po_file_size fs) (map fst (fst u))) \<Longrightarrow>
      snd (snd (post_matching fs extension es u)) = sum_list (map (po_file_size fs) (map fst (fst (post_matching fs extension es u))))"
    for es u
    by (induction es arbitrary: u) (simp_all add: post_matching_def one)
  then show ?case using 2 one by (simp del: map_map)
qed simp

text \<open>
  C31. Which files are sent: for every path given up to the first at which the user has interrupted the
  program, the path itself when it is a matching regular file, else the matching entries of the
  directory, in order; each is one task with the next number, and the byte total is that of the tasks.
\<close>

theorem matching_files_sent:
  "let t = traverse_paths fs extension recurse ps ([], 0, 0);
       names = concat (map (files_under fs extension recurse) (map snd (takeWhile fst ps)))
   in fst t = zip names (map word_of_nat [0..<length names]) \<and> fst (snd t) = word_of_nat (length names) \<and>
      snd (snd t) = sum_list (map (po_file_size fs) names)"
proof -
  let ?t = "traverse_paths fs extension recurse ps ([], 0, 0)"
  let ?names = "concat (map (files_under fs extension recurse) (map snd (takeWhile fst ps)))"
  have f: "map fst (fst ?t) = ?names" by (subst traverse_tasks) simp
  have "numbered 0 ?t" by (rule numbered_traverse) (simp add: numbered_def)
  then have s: "map snd (fst ?t) = map word_of_nat [0..<length (fst ?t)]" "fst (snd ?t) = word_of_nat (length (fst ?t))"
    by (auto simp: numbered_def split: prod.splits)
  have l: "length (fst ?t) = length ?names" using f by (metis length_map)
  have "fst ?t = zip (map fst (fst ?t)) (map snd (fst ?t))" by (rule zip_map_fst_snd[symmetric])
  moreover have "snd (snd ?t) = sum_list (map (po_file_size fs) ?names)"
    using traverse_bytes[of "([], 0, 0)" fs extension recurse ps] unfolding f by simp
  ultimately show ?thesis unfolding Let_def f s l by simp
qed

section \<open>Administration\<close>

text \<open>
  C32. One run of the administration program makes at most one request, with the token the URI carries and
  no other: no combination of options sends a second request or a request without a token.
\<close>

theorem lbadm_sends_the_given_token:
  assumes "la_vm a = stored_options lbadm_defaults given"
    and "lbadm_main env (logging stub) a (w, []) = (end, out, csv, w', sent)"
  shows "sent = [] \<or> (\<exists>t u. lbadm_uri_text env a = Some t \<and> ad_parse_uri env t = Some u \<and>
    url_userinfo u \<noteq> [] \<and> sent = [bearer (url_userinfo u)])"
  by (rule lbadm_main_sends[OF assms])

definition demo_rendering :: "unit rendering" where
  "demo_rendering = \<lparr>rn_float = (\<lambda>x. ''1.5''), rn_duration = (\<lambda>d. ''1m''), rn_stamp = (\<lambda>t. ''now''), rn_worker = (\<lambda>w. [])\<rparr>"

definition demo_admin :: "unit admin_env" where
  "demo_admin = \<lparr>ad_host = demo_host, ad_route = demo_route, ad_rendering = demo_rendering,
     ad_parse_uri = (\<lambda>_. Some (uri_view demo_host ''admin'' demo_full_uri)), ad_junk = 0, ad_files = (\<lambda>_. None),
     ad_duration = (\<lambda>_. Some 60), ad_stamp = (\<lambda>_. Some (0, 0)), ad_csv_opens = True, ad_now = 0, ad_dual_stack = 2\<rparr>"

definition demo_admin_args :: lbadm_args where
  "demo_admin_args = \<lparr>la_vm = stored_options lbadm_defaults {''version'', ''uri''}, la_lbname = [], la_lbid = [],
     la_address = [], la_duration = [], la_uri = ''text'', la_name = [], la_port = 0, la_weight = 1, la_count = 1,
     la_session = [], la_queue = 0, la_ctrl = 0, la_ready = True, la_root = [], la_novalidate = False,
     la_minfactor = 0, la_maxfactor = 0, la_keeplbhdr = False, la_ipfam = 2, la_lbpath = [], la_since = [], la_csv = [],
     la_stats = WorkerStats_new, la_tokenname = [], la_permission = [], la_tokenid = []\<rparr>"

lemma lbadm_sends_the_given_token_witness:
  "\<exists>sent. snd (snd (snd (snd (lbadm_main demo_admin (logging demo_stub) demo_admin_args (0, []))))) = sent \<and>
     (sent = [] \<or> sent = [''Bearer admin''])"
proof -
  obtain e out csv w' sent where r: "lbadm_main demo_admin (logging demo_stub) demo_admin_args (0, []) = (e, out, csv, w', sent)"
    by (metis prod_cases5)
  have vm: "la_vm demo_admin_args = stored_options lbadm_defaults {''version'', ''uri''}" by (simp add: demo_admin_args_def)
  have u: "ad_parse_uri demo_admin t = Some (uri_view demo_host ''admin'' demo_full_uri)" for t by (simp add: demo_admin_def)
  have i: "url_userinfo (uri_view demo_host ''admin'' demo_full_uri) = ''admin''" by (simp add: uri_view_def)
  have "sent = [] \<or> sent = [''Bearer admin'']"
    using lbadm_sends_the_given_token[OF vm r] unfolding u by (auto simp: i bearer_def)
  then show ?thesis using r by simp
qed

definition token_perm_spec :: "TokenType \<times> string \<times> TokenPermission \<Rightarrow> string" where
  "token_perm_spec = (\<lambda>(tt, rid, tp). perm_spec tt rid tp)"

text \<open>
  C33. Permissions given as \<open>TYPE:ID:PERMISSION\<close> in the words the library prints are read back as what they
  say, for every type, permission and id without a colon; the word the help gives for reading,
  \<open>READ_ONLY\<close>, is refused.
\<close>

theorem permissions_read_back:
  assumes "\<forall>(tt, rid, tp)\<in>set specs. CHR '':'' \<notin> set rid"
  shows "parsePermissions (map token_perm_spec specs) = Ok (map (\<lambda>(tt, rid, tp). token_perm tt rid tp) specs) \<and>
    has_error (parsePermissions (map token_perm_spec specs @ [tt_toString tt @ '':'' @ ''36'' @ '':READ_ONLY'']))"
proof -
  have bad: "parse_permission (tt_toString tt @ '':'' @ ''36'' @ '':READ_ONLY'') =
      Err ParameterError (''Invalid permission type: '' @ quoted ''READ_ONLY'' @
        ''. Valid types: READ_ONLY, REGISTER, RESERVE, UPDATE'')"
    using find_char_append[OF tt_toString_no_colon, of tt "''36:READ_ONLY''"]
    by (simp add: parse_permission_def resourceTypeMap_toString permissionTypeMap_def Let_def)
  show ?thesis using assms
  proof (induction specs)
    case Nil
    then show ?case by (simp add: bad[simplified] has_error_def)
  next
    case (Cons s specs)
    obtain st rid tp where s: "s = (st, rid, tp)" by (cases s) auto
    have "parse_permission (token_perm_spec s) = Ok (token_perm st rid tp)"
      using Cons.prems by (simp add: s token_perm_spec_def parse_perm_spec)
    then show ?case using Cons by (auto simp: s has_error_def split: sum.splits)
  qed
qed

lemma permissions_read_back_witness:
  "parsePermissions [''LOAD_BALANCER:36:UPDATE'', ''ALL::READ''] =
     Ok [token_perm TT_admin ''36'' TP_update, token_perm TT_all [] TP_read_only]"
  using permissions_read_back[of "[(TT_admin, ''36'', TP_update), (TT_all, [], TP_read_only)]" TT_all]
  by (simp add: token_perm_spec_def perm_spec_def)

section \<open>Performance tests\<close>



section \<open>Rate limiting\<close>



text \<open>
  C36. The clock test of the constructor.  Unless each of the 256 values of the lowest byte occurs among the
  readings, the test gives NaN, which counts as too little entropy, so the segmenter adds random
  bits; only when all occur it gives the entropy in bits, between 0 and 8, and this decides.  A clock that shows
  255 values equally often has more than 7 of 8 bits and is still found wanting; so is any test with
  fewer than 256 readings.
\<close>

theorem clock_entropy_test:
  "(if \<exists>b<256. b \<notin> clock_bin ` set readings
    then clockEntropyTest readings = None \<and> sg_addEntropy (seg_cfg_of (sh\<lparr>sh_entropy_low := entropy_low readings\<rparr>) did esid f mtu)
    else clockEntropyTest readings = Some (shannon readings) \<and> 0 \<le> shannon readings \<and> shannon readings \<le> 8 \<and>
      sg_addEntropy (seg_cfg_of (sh\<lparr>sh_entropy_low := entropy_low readings\<rparr>) did esid f mtu) = (shannon readings \<le> 6)) \<and>
   7 < shannon (map int [0..<255]) \<and> entropy_low (map int [0..<255]) \<and>
   entropy_low (take 255 readings)"
proof -
  have add: "sg_addEntropy (seg_cfg_of (sh\<lparr>sh_entropy_low := e\<rparr>) did esid f mtu) = e" for e by (simp add: seg_cfg_of_def)
  show ?thesis
    unfolding add using shannon_bounds[of readings] equal_values few_readings[of "take 255 readings"]
    by (auto simp: clockEntropyTest_value entropy_low_def)
qed

section \<open>Python programs\<close>

text \<open>
  C37. From array to array: what a Python program sends of a numpy array without gaps, all its bytes, a
  Python program that receives with the same element size gets element by element, whatever
  the byte orders, and whatever the order in which the datagrams after the first arrive.
\<close>

theorem python_array_roundtrip:
  assumes "0 < sg_maxPldLen c" and "sg_numSendSockets c \<noteq> 0"
    and "sizeof_LBHdr + sizeof_REHdr + sg_maxPldLen c \<le> RECV_BUFFER_SIZE"
    and "pa_stride a = pa_itemsize a" and "0 < pa_itemsize a" and "0 < pa_len a"
    and "array_nbytes a \<le> length (pa_mem a)" and "array_nbytes a < 2 ^ 32"
    and "py_sendNumpyArray wire_net h1 isSel c now lsb rnd a (array_nbytes a) eventNum0 dataId0 entropy s [] = Some (r, s', frames)"
    and "distinct is" and "set is = {..<length frames}" and "hd is = 0"
    and "arrives lb frames nfd is xs" and "fresh_receiver nfd (t, g)"
  shows "r = Ok 0 \<and> (\<exists>t' g' g''. recv_run h2 lb xs (t, g) = Some (t', g') \<and>
    (case sendEvent_key c now lsb eventNum0 dataId0 s of (num, did) \<Rightarrow>
      py_get1DNumpyArray (pa_itemsize a) g' = Some ((int (array_nbytes a),
        map (\<lambda>j. map Some (slice_at (j * pa_stride a) (pa_itemsize a) (pa_mem a))) [0..<pa_len a], num, did), g'') \<and>
      py_getEventBytes g' = ((int (array_nbytes a), map Some (array_bytes a), num, did), g'')))"
proof -
  let ?ev = "take (array_nbytes a) (pa_mem a)"
  have len: "length ?ev = array_nbytes a" using assms(7) by simp
  have ne: "0 < array_nbytes a" using assms(5,6) by (simp add: array_nbytes_def)
  have send: "seg_sendEvent wire_net h1 isSel c now lsb rnd (pa_mem a) (array_nbytes a) eventNum0 dataId0 entropy s [] =
      Some (r, s', frames)"
    using assms(7,9) by (simp add: py_sendNumpyArray_def py_sendEvent_def)
  then have send': "seg_sendEvent wire_net h1 isSel c now lsb rnd ?ev (length ?ev) eventNum0 dataId0 entropy s [] = Some (r, s', frames)"
    using seg_sendEvent_prefix[OF assms(1,7)] len by metis
  have f: "frames = map (sent_frame h1 c now lsb rnd ?ev (if eventNum0 \<noteq> 0 then eventNum0 else sg_userEventNum s)
      (if dataId0 = 0 then sg_dataId c else dataId0) entropy) [0..<numBuffers (sg_maxPldLen c) (length ?ev)]" and r: "r = Ok 0"
    using seg_sendEvent_wire[OF assms(1,2), where h = h1 and isSel = isSel and now = now and lsb = lsb
        and rnd = rnd and ev = ?ev and ?eventNum0.0 = eventNum0 and ?dataId0.0 = dataId0 and entropy = entropy
        and s = s and w = "[]"] send' by auto
  have ev: "?ev \<noteq> []" "length ?ev < 2 ^ 32" using len ne assms(8) by (metis less_not_refl list.size(3), simp)
  obtain t' g' g'' where run: "recv_run h2 lb xs (t, g) = Some (t', g')"
    and got: "getEvent g' = (Ok 0, Some (map Some ?ev, length ?ev, sendEvent_key c now lsb eventNum0 dataId0 s), g'')"
    using single_event_delivered[OF assms(1) ev assms(3) f assms(13,10,11,12,14), of h2]
    unfolding sendEvent_key_def by blast
  obtain num did where k: "sendEvent_key c now lsb eventNum0 dataId0 s = (num, did)" by fastforce
  have "py_getEventBytes g' = ((int (array_nbytes a), map Some (array_bytes a), num, did), g'')"
    using got ne ev(1) assms(7) by (auto simp: py_getEventBytes_def bytes_tuple_def k array_bytes_contiguous[OF assms(4,7)] min_def)
  moreover have "py_get1DNumpyArray (pa_itemsize a) g' = Some ((int (array_nbytes a),
      map (\<lambda>j. map Some (slice_at (j * pa_stride a) (pa_itemsize a) (pa_mem a))) [0..<pa_len a], num, did), g'')"
    using got array_of_elements[OF assms(4,7,5)] assms(5)
    by (simp add: py_get1DNumpyArray_def array_tuple_def k min_absorb2[OF assms(7)])
  ultimately show ?thesis using r run k by auto
qed

text \<open>The event of the other witnesses as an array of five elements of two bytes.\<close>

definition demo_array :: py_array where
  "demo_array = \<lparr>pa_mem = [10, 11, 12, 13, 14, 15, 16, 17, 18, 19], pa_itemsize = 2, pa_len = 5, pa_stride = 2\<rparr>"

lemma python_array_roundtrip_witness:
  "\<exists>t' g' g''. recv_run BigEndian False (demo_inputs [0, 2, 1]) (demo_thread, demo_shared) = Some (t', g') \<and>
     py_get1DNumpyArray 2 g' = Some ((10, [[Some 10, Some 11], [Some 12, Some 13], [Some 14, Some 15], [Some 16, Some 17],
       [Some 18, Some 19]], 7, 5), g'')"
proof -
  have n: "array_nbytes demo_array = 10" and mem: "pa_mem demo_array = demo_event"
    by (simp_all add: array_nbytes_def demo_array_def demo_event_def)
  obtain s' where "seg_sendEvent wire_net LittleEndian (\<lambda>_. False) demo_cfg 777 3 0x1234 demo_event
      (length demo_event) 7 0 0 seg_state_new [] = Some (Ok 0, s', demo_frames)"
    using demo_sent by blast
  then have s': "py_sendNumpyArray wire_net LittleEndian (\<lambda>_. False) demo_cfg 777 3 0x1234 demo_array (array_nbytes demo_array)
      7 0 0 seg_state_new [] = Some (Ok 0, s', demo_frames)"
    by (simp add: py_sendNumpyArray_def py_sendEvent_def n mem demo_length)
  have len: "{..<length demo_frames} = set [0, 2, 1]" by (auto simp: demo_frames_def)
  have d: "distinct ([0, 2, 1] :: nat list)" and hd: "hd [0, 2, 1] = (0::nat)" by simp_all
  have arr: "arrives False demo_frames (Suc 0) [0, 2, 1] (demo_inputs [0, 2, 1])"
    by (rule demo_arrives) auto
  have key: "sendEvent_key demo_cfg 777 3 7 0 seg_state_new = (7, 5)"
    by (simp add: sendEvent_key_def sent_eventNum_def demo_cfg_def)
  have a: "pa_stride demo_array = pa_itemsize demo_array" "0 < pa_itemsize demo_array" "0 < pa_len demo_array"
    "array_nbytes demo_array \<le> length (pa_mem demo_array)" "array_nbytes demo_array < 2 ^ 32"
    by (simp_all add: n mem demo_length) (simp_all add: demo_array_def)
  have size: "pa_itemsize demo_array = 2" by (simp add: demo_array_def)
  have els: "map (\<lambda>j. map Some (slice_at (j * pa_stride demo_array) 2 (pa_mem demo_array)))
      [0..<pa_len demo_array] = [[Some 10, Some 11], [Some 12, Some 13], [Some 14, Some 15], [Some 16, Some 17], [Some 18, Some 19]]"
    by (simp add: demo_array_def slice_at_def upt_rec)
  from python_array_roundtrip[OF demo_cfg_ok(1,2) demo_cfg_ok(5) a s' d len[symmetric] hd arr demo_fresh, of BigEndian]
  show ?thesis unfolding key size els n by auto
qed



definition demo_item :: seg_item where
  "demo_item = \<lparr>qi_bytes = 10, qi_eventNum = 0, qi_dataId = 5, qi_event = demo_event, qi_entropy = 0,
     qi_callback = None, qi_cbArg = 0\<rparr>"

text \<open>
  C39. \<open>stopThreads\<close> and the interpreter lock.  A caller that does not hold the lock, or has no event with a
  Python callback left, returns from every state it can get into, with all events sent.  A Python caller
  holds the lock: with one such event queued or being sent it never returns, whatever the threads do, and
  the callback is never called.  In both cases there is only so much the threads can do, so that the
  second is a deadlock.
\<close>

theorem python_stop_threads:
  assumes "(stop_step gil_held ^^ n) (stop_called q pool) s"
  shows "n \<le> 2 * length q + length pool + 3 \<and>
    (if gil_held \<and> (\<exists>i\<in>set (q @ pool). needs_gil i)
     then st_phase s \<noteq> Stopped \<and> (\<forall>i\<in>set (q @ pool). needs_gil i \<longrightarrow> i \<notin> set (st_done s))
     else \<exists>s'. (stop_step gil_held)\<^sup>*\<^sup>* s s' \<and> st_phase s' = Stopped \<and> set (st_done s') = set (q @ pool))"
proof -
  have n: "n \<le> 2 * length q + length pool + 3"
    using stop_run_bounded[OF assms] by (simp add: stop_left_def stop_called_def)
  have reach: "(stop_step gil_held)\<^sup>*\<^sup>* (stop_called q pool) s" using assms by (rule relpowp_imp_rtranclp)
  show ?thesis
  proof (cases "gil_held \<and> (\<exists>i\<in>set (q @ pool). needs_gil i)")
    case True
    then show ?thesis using n stop_blocked[of q pool s] reach by auto
  next
    case False
    then have "stop_inv gil_held s" using stopping.reachable_inv[OF reach stop_called_inv] by blast
    then obtain s' where s': "(stop_step gil_held)\<^sup>*\<^sup>* s s'" "st_phase s' = Stopped"
      using stopping.reaches_goal by blast
    have "stop_inv gil_held s'" using stopping.reachable_inv[OF s'(1)] \<open>stop_inv gil_held s\<close> .
    then have "st_queue s' = []" "st_pool s' = []" using s'(2) by (simp_all add: stop_inv_def)
    moreover have "set (st_queue s' @ st_pool s' @ st_done s') = set (q @ pool)"
      using stop_jobs[OF rtranclp_trans[OF reach s'(1)]] by (simp add: stop_called_def)
    ultimately show ?thesis using n False s' by auto
  qed
qed

lemma python_stop_threads_witness:
  "\<exists>s. (stop_step True ^^ 1) (stop_called [demo_item\<lparr>qi_callback := Some PY_EXECUTE\<rparr>] []) s \<and> st_phase s \<noteq> Stopped \<and>
     demo_item\<lparr>qi_callback := Some PY_EXECUTE\<rparr> \<notin> set (st_done s)"
proof -
  let ?i = "demo_item\<lparr>qi_callback := Some PY_EXECUTE\<rparr>" and ?s0 = "stop_called [demo_item\<lparr>qi_callback := Some PY_EXECUTE\<rparr>] []"
  have "stop_step True ?s0 (?s0\<lparr>st_queue := [], st_pool := st_pool ?s0 @ [?i]\<rparr>)"
    by (rule stop_step.post) (simp_all add: stop_called_def)
  then have s: "(stop_step True ^^ 1) ?s0 (?s0\<lparr>st_queue := [], st_pool := st_pool ?s0 @ [?i]\<rparr>)" unfolding relpowp_1 .
  have g: "needs_gil ?i" by (simp add: needs_gil_def)
  from python_stop_threads[OF s] g show ?thesis using s by (auto simp del: One_nat_def)
qed

text \<open>
  C40. What Python gets is well formed: in every state a reassembler can reach, \<open>getEventBytes\<close> gives either
  -1 without data or the positive length of its data, \<open>get1DNumpyArray\<close> takes the same event, gives
  as many whole elements as its length holds, and loses the rest; the two differ for an event
  of length 0 only, which the first reports as none.
\<close>

theorem python_received_typed:
  assumes "reas_reachable h lb tmo (ts, g)" and "0 < k"
  shows "\<exists>n n' data arr num did g'. py_getEventBytes g = ((n, data, num, did), g') \<and>
    py_get1DNumpyArray k g = Some ((n', arr, num, did), g') \<and>
    (n = -1 \<and> data = [] \<or> 0 < n \<and> int (length data) = n) \<and>
    (n' = n \<or> n = -1 \<and> n' = 0) \<and> (n' = -1 \<longrightarrow> arr = []) \<and> length arr = nat n' div k \<and>
    (\<forall>e\<in>set arr. length e = k) \<and> concat arr = take (length arr * k) data"
proof (rule py_received[OF _ assms(2)])
  have "shared_ok g" using reachable_ok[OF assms(1)] by (simp add: system_ok_def)
  then show "\<forall>i\<in>set (rs_eventQueue g). length (ri_event i) = ri_bytes i" by (simp add: shared_ok_def queued_ok_def)
qed

lemma python_received_typed_witness:
  "\<exists>n data num did g'. py_getEventBytes demo_shared = ((n, data, num, did), g') \<and>
     (n = -1 \<and> data = [] \<or> 0 < n \<and> int (length data) = n)"
proof -
  have init: "reas_initial [0] [19522] [demo_thread] = ([demo_thread], demo_shared)"
    by (simp add: reas_initial_def demo_thread_def demo_shared_def recv_thread_new_def)
  have "reas_reachable BigEndian False 500 ([demo_thread], demo_shared)"
    using reach_init[of BigEndian False 500 "[0]" "[19522]" "[demo_thread]"] unfolding init .
  from python_received_typed[OF this, of 4] show ?thesis by auto
qed

end
